(* ===== verification/Prelude.thy ===== *)
theory Prelude
  imports Complex_Main
begin

text \<open>
  Shared vocabulary of the development: the result type of fallible code, byte strings and the
  string operations of Go and JavaScript that the program uses, decimal numerals, and the
  collections of facts that the component theories extend. Strings are byte lists: a source string
  is represented by its UTF-8 encoding, and the classification of characters (white space, letter
  case, digits) is the one of ASCII, which is what the program's own literals and data use.
\<close>

named_theorems run_simps \<open>equations that execute a component's operations\<close>
named_theorems inv_intros \<open>preservation of a component's invariant by its operations\<close>

section \<open>Results\<close>

text \<open>A fallible computation returns \<open>Inl\<close> an error or \<open>Inr\<close> a value.\<close>

type_synonym ('e, 'a) result = "'e + 'a"

fun bind_res :: "('e, 'a) result \<Rightarrow> ('a \<Rightarrow> ('e, 'b) result) \<Rightarrow> ('e, 'b) result" where
  "bind_res (Inl e) f = Inl e"
| "bind_res (Inr a) f = f a"

fun map_res :: "('a \<Rightarrow> ('e, 'b) result) \<Rightarrow> 'a list \<Rightarrow> ('e, 'b list) result" where
  "map_res f [] = Inr []"
| "map_res f (x # xs) = bind_res (f x) (\<lambda>y. bind_res (map_res f xs) (\<lambda>ys. Inr (y # ys)))"

lemma bind_res_Inr_iff: "bind_res r f = Inr b \<longleftrightarrow> (\<exists>a. r = Inr a \<and> f a = Inr b)"
  by (cases r) auto

lemma bind_res_Inl_iff:
  "bind_res r f = Inl e \<longleftrightarrow> r = Inl e \<or> (\<exists>a. r = Inr a \<and> f a = Inl e)"
  by (cases r) auto

lemma map_res_cong [fundef_cong]:
  "xs = ys \<Longrightarrow> (\<And>x. x \<in> set ys \<Longrightarrow> f x = g x) \<Longrightarrow> map_res f xs = map_res g ys"
  by (induction ys arbitrary: xs) auto

lemma map_res_Inr_length: "map_res f xs = Inr ys \<Longrightarrow> length ys = length xs"
  by (induction xs arbitrary: ys) (auto simp: bind_res_Inr_iff)

lemma map_res_Inr_nth:
  "map_res f xs = Inr ys \<Longrightarrow> i < length xs \<Longrightarrow> f (xs ! i) = Inr (ys ! i)"
  by (induction xs arbitrary: ys i) (auto simp: bind_res_Inr_iff nth_Cons split: nat.splits)

lemma map_res_all_Inr:
  "(\<And>x. x \<in> set xs \<Longrightarrow> f x = Inr (g x)) \<Longrightarrow> map_res f xs = Inr (map g xs)"
  by (induction xs) auto

lemma map_res_is_Inr_iff:
  "(\<exists>ys. map_res f xs = Inr ys) \<longleftrightarrow> (\<forall>x\<in>set xs. \<exists>y. f x = Inr y)"
  by (induction xs) (auto simp: bind_res_Inr_iff)

section \<open>Strings\<close>

definition is_space :: "char \<Rightarrow> bool" where
  "is_space c \<longleftrightarrow> (of_char c :: nat) \<in> {9, 10, 11, 12, 13, 32}"

definition is_digit :: "char \<Rightarrow> bool" where
  "is_digit c \<longleftrightarrow> 48 \<le> (of_char c :: nat) \<and> (of_char c :: nat) \<le> 57"

definition digit_val :: "char \<Rightarrow> nat" where
  "digit_val c = of_char c - 48"

definition newline :: char where
  "newline = CHR 0x0A"

definition to_lower_char :: "char \<Rightarrow> char" where
  "to_lower_char c =
     (if 65 \<le> (of_char c :: nat) \<and> (of_char c :: nat) \<le> 90 then char_of ((of_char c :: nat) + 32) else c)"

text \<open>\<open>strings.ToLower\<close> and \<open>String.prototype.toLowerCase\<close>.\<close>

definition to_lower :: "string \<Rightarrow> string" where
  "to_lower s = map to_lower_char s"

text \<open>\<open>strings.TrimSpace\<close> and \<open>String.prototype.trim\<close>.\<close>

definition trim_left :: "string \<Rightarrow> string" where
  "trim_left s = dropWhile is_space s"

definition trim_space :: "string \<Rightarrow> string" where
  "trim_space s = rev (trim_left (rev (trim_left s)))"

text \<open>\<open>strings.HasPrefix\<close>, \<open>strings.HasSuffix\<close>, \<open>strings.TrimPrefix\<close>, \<open>strings.Contains\<close>.\<close>

definition has_prefix :: "string \<Rightarrow> string \<Rightarrow> bool" where
  "has_prefix s p \<longleftrightarrow> take (length p) s = p"

definition has_suffix :: "string \<Rightarrow> string \<Rightarrow> bool" where
  "has_suffix s p \<longleftrightarrow> has_prefix (rev s) (rev p)"

definition trim_prefix :: "string \<Rightarrow> string \<Rightarrow> string" where
  "trim_prefix s p = (if has_prefix s p then drop (length p) s else s)"

fun str_contains :: "string \<Rightarrow> string \<Rightarrow> bool" where
  "str_contains [] p = (p = [])"
| "str_contains (c # s) p = (has_prefix (c # s) p \<or> str_contains s p)"

text \<open>\<open>strings.Split\<close> and \<open>String.prototype.split\<close> with a one-character separator.\<close>

fun split_on :: "char \<Rightarrow> string \<Rightarrow> string list" where
  "split_on sep [] = [[]]"
| "split_on sep (c # s) =
     (if c = sep then [] # split_on sep s
      else (case split_on sep s of [] \<Rightarrow> [[c]] | w # ws \<Rightarrow> (c # w) # ws))"

lemma length_trim_left: "length (trim_left s) \<le> length s"
  by (simp add: trim_left_def length_dropWhile_le)

text \<open>\<open>strings.Fields\<close>: the maximal runs of non-space characters.\<close>

function str_fields :: "string \<Rightarrow> string list" where
  "str_fields s =
     (let t = trim_left s in
      if t = [] then []
      else takeWhile (\<lambda>c. \<not> is_space c) t # str_fields (dropWhile (\<lambda>c. \<not> is_space c) t))"
  by pat_completeness auto
termination
proof (relation "measure length", goal_cases)
  case 1
  then show ?case by simp
next
  case (2 s t)
  from 2(2) obtain c u where t: "t = c # u" by (meson neq_Nil_conv)
  with 2 have "\<not> is_space c"
    by (metis dropWhile_eq_Cons_conv trim_left_def)
  with t have "length (dropWhile (\<lambda>c. \<not> is_space c) t) \<le> length u"
    by (simp add: length_dropWhile_le)
  moreover have "length t \<le> length s"
    unfolding 2(1) by (rule length_trim_left)
  moreover have "length t = Suc (length u)"
    unfolding t by simp
  ultimately show ?case by simp
qed

declare str_fields.simps [simp del]

text \<open>\<open>s.split(/\<backslash>s+/)\<close>: cut at every maximal run of white space, keeping empty end pieces.\<close>

function split_ws :: "string \<Rightarrow> string list" where
  "split_ws s =
     (case dropWhile (\<lambda>c. \<not> is_space c) s of
        [] \<Rightarrow> [s]
      | c # r \<Rightarrow> takeWhile (\<lambda>c. \<not> is_space c) s # split_ws (dropWhile is_space r))"
  by pat_completeness auto
termination
proof (relation "measure length", goal_cases)
  case 1
  then show ?case by simp
next
  case (2 s c r)
  have "length (dropWhile is_space r) \<le> length r" by (rule length_dropWhile_le)
  moreover have "Suc (length r) \<le> length s"
    using 2 length_dropWhile_le [of "\<lambda>c. \<not> is_space c" s] by simp
  ultimately show ?case by simp
qed

declare split_ws.simps [simp del]

section \<open>Decimal numerals\<close>

definition digit_char :: "nat \<Rightarrow> char" where
  "digit_char d = char_of (48 + d)"

text \<open>A lower-case hexadecimal digit.\<close>

definition hex_digit :: "nat \<Rightarrow> char" where
  "hex_digit d = (if d < 10 then char_of (48 + d) else char_of (87 + d))"

fun show_nat :: "nat \<Rightarrow> string" where
  "show_nat n = (if n < 10 then [digit_char n] else show_nat (n div 10) @ [digit_char (n mod 10)])"

declare show_nat.simps [simp del]

definition show_int :: "int \<Rightarrow> string" where
  "show_int i = (if i < 0 then CHR ''-'' # show_nat (nat (- i)) else show_nat (nat i))"

text \<open>The value of a digit string, most significant digit first.\<close>

definition digits_val :: "string \<Rightarrow> nat" where
  "digits_val s = foldl (\<lambda>n c. 10 * n + digit_val c) 0 s"

section \<open>Objects as association lists\<close>

text \<open>
  A JavaScript object literal with string keys, in insertion order. Assigning a key that is there
  keeps its place; \<open>{...o, ...p}\<close> assigns the keys of \<open>p\<close> one after the other, so the last wins.
\<close>

fun obj_set :: "('k \<times> 'v) list \<Rightarrow> 'k \<Rightarrow> 'v \<Rightarrow> ('k \<times> 'v) list" where
  "obj_set [] k v = [(k, v)]"
| "obj_set ((k', v') # o') k v = (if k' = k then (k, v) # o' else (k', v') # obj_set o' k v)"

definition obj_spread :: "('k \<times> 'v) list \<Rightarrow> ('k \<times> 'v) list \<Rightarrow> ('k \<times> 'v) list" where
  "obj_spread ob p = foldl (\<lambda>acc (k, v). obj_set acc k v) ob p"

definition obj_omit :: "'k list \<Rightarrow> ('k \<times> 'v) list \<Rightarrow> ('k \<times> 'v) list" where
  "obj_omit ks ob = filter (\<lambda>(k, v). k \<notin> set ks) ob"

lemma map_of_obj_set [simp]: "map_of (obj_set ob k v) = (map_of ob)(k \<mapsto> v)"
  by (induction ob k v rule: obj_set.induct) (auto simp: fun_eq_iff)

lemma obj_spread_Nil [simp]: "obj_spread ob [] = ob"
  by (simp add: obj_spread_def)

lemma obj_spread_Cons [simp]: "obj_spread ob ((k, v) # p) = obj_spread (obj_set ob k v) p"
  by (simp add: obj_spread_def)

lemma map_of_obj_spread: "map_of (obj_spread ob p) = map_of ob ++ map_of (rev p)"
  by (induction p arbitrary: ob) (auto simp: map_add_def fun_eq_iff split: option.splits)

lemma map_of_obj_omit: "map_of (obj_omit ks ob) k = (if k \<in> set ks then None else map_of ob k)"
  by (induction ob) (auto simp: obj_omit_def)

lemma distinct_obj_set: "distinct (map fst ob) \<Longrightarrow> distinct (map fst (obj_set ob k v))"
proof -
  have "fst ` set (obj_set ob k v) = insert k (fst ` set ob)" for ob :: "('a \<times> 'b) list"
    by (induction ob k v rule: obj_set.induct) auto
  then show "distinct (map fst ob) \<Longrightarrow> distinct (map fst (obj_set ob k v))"
    by (induction ob k v rule: obj_set.induct) auto
qed

section \<open>Facts about strings\<close>

lemma has_prefix_append [simp]: "has_prefix (p @ s) p"
  by (simp add: has_prefix_def)

lemma has_prefix_Nil [simp]: "has_prefix s []"
  by (simp add: has_prefix_def)

lemma has_prefix_Cons_Cons [simp]: "has_prefix (c # s) (d # p) \<longleftrightarrow> c = d \<and> has_prefix s p"
  by (auto simp: has_prefix_def)

lemma has_prefix_Nil_Cons [simp]: "\<not> has_prefix [] (d # p)"
  by (simp add: has_prefix_def)

lemma has_prefix_iff: "has_prefix s p \<longleftrightarrow> (\<exists>t. s = p @ t)"
  by (metis append_eq_conv_conj append_take_drop_id has_prefix_def)

lemma trim_prefix_append [simp]: "trim_prefix (p @ s) p = s"
  by (simp add: trim_prefix_def)

lemma trim_prefix_no: "\<not> has_prefix s p \<Longrightarrow> trim_prefix s p = s"
  by (simp add: trim_prefix_def)

lemma split_on_nonempty [simp]: "split_on c s \<noteq> []"
  by (induction s) (auto split: list.splits)

lemma split_on_notin: "c \<notin> set s \<Longrightarrow> split_on c s = [s]"
  by (induction s) auto

lemma split_on_append: "c \<notin> set w \<Longrightarrow> split_on c (w @ c # s) = w # split_on c s"
  by (induction w) auto

lemma split_on_no_sep: "w \<in> set (split_on c s) \<Longrightarrow> c \<notin> set w"
  by (induction s arbitrary: w) (auto split: list.splits if_splits)

lemma takeWhile_all_append:
  "list_all P w \<Longrightarrow> \<not> P d \<Longrightarrow> takeWhile P (w @ d # s) = w"
  by (induction w) auto

lemma dropWhile_all_append:
  "list_all P w \<Longrightarrow> \<not> P d \<Longrightarrow> dropWhile P (w @ d # s) = d # s"
  by (induction w) auto

text \<open>A string with no white space is its own only field.\<close>

definition no_space :: "string \<Rightarrow> bool" where
  "no_space s \<longleftrightarrow> list_all (\<lambda>c. \<not> is_space c) s"

lemma no_space_simps [simp]:
  "no_space []"
  "no_space (c # s) \<longleftrightarrow> \<not> is_space c \<and> no_space s"
  "no_space (s @ t) \<longleftrightarrow> no_space s \<and> no_space t"
  by (auto simp: no_space_def)

lemma trim_left_no_space: "no_space s \<Longrightarrow> trim_left s = s"
  by (cases s) (auto simp: trim_left_def no_space_def)

lemma no_space_rev [simp]: "no_space (rev s) = no_space s"
  by (auto simp: no_space_def list_all_iff)

lemma trim_space_no_space: "no_space s \<Longrightarrow> trim_space s = s"
  by (simp add: trim_space_def trim_left_no_space)

lemma dropWhile_no_space: "no_space w \<Longrightarrow> dropWhile (\<lambda>c. \<not> is_space c) w = []"
  by (induction w) auto

lemma split_ws_no_space: "no_space w \<Longrightarrow> split_ws w = [w]"
  by (subst split_ws.simps) (simp add: dropWhile_no_space)

lemma split_ws_two:
  assumes "no_space v" "no_space w" "is_space d" "w \<noteq> []"
  shows "split_ws (v @ d # w) = [v, w]"
proof -
  have "dropWhile (\<lambda>c. \<not> is_space c) (v @ d # w) = d # w"
    using assms by (intro dropWhile_all_append) (auto simp: no_space_def)
  moreover have "takeWhile (\<lambda>c. \<not> is_space c) (v @ d # w) = v"
    using assms by (intro takeWhile_all_append) (auto simp: no_space_def)
  moreover have "dropWhile is_space w = w"
    using assms by (cases w) auto
  ultimately show ?thesis
    using assms by (subst split_ws.simps) (simp add: split_ws_no_space)
qed

lemma trim_space_two:
  assumes "no_space v" "v \<noteq> []" "no_space w" "w \<noteq> []"
  shows "trim_space (v @ d # w) = v @ d # w"
proof -
  have 1: "trim_left (v @ d # w) = v @ d # w"
    using assms by (cases v) (auto simp: trim_left_def)
  have 2: "trim_left (rev (v @ d # w)) = rev (v @ d # w)"
  proof -
    obtain c u where "rev w = c # u" using assms by (cases "rev w") auto
    moreover from this assms have "\<not> is_space c"
      by (metis no_space_rev no_space_simps(2))
    ultimately show ?thesis by (simp add: trim_left_def)
  qed
  from 1 2 show ?thesis by (simp add: trim_space_def)
qed

section \<open>Facts about numerals\<close>

lemma of_char_digit_char: "d < 10 \<Longrightarrow> (of_char (digit_char d) :: nat) = 48 + d"
  by (simp add: digit_char_def)

lemma is_digit_digit_char [simp]: "d < 10 \<Longrightarrow> is_digit (digit_char d)"
  by (simp add: is_digit_def of_char_digit_char)

lemma digit_val_digit_char [simp]: "d < 10 \<Longrightarrow> digit_val (digit_char d) = d"
  by (simp add: digit_val_def of_char_digit_char)

lemma digit_not_space: "is_digit c \<Longrightarrow> \<not> is_space c"
  by (auto simp: is_digit_def is_space_def)

lemma show_nat_digits: "list_all is_digit (show_nat n)"
proof (induction n rule: show_nat.induct)
  case (1 n)
  then show ?case
    by (cases "n < 10") (subst show_nat.simps, auto)+
qed

lemma show_nat_nonempty [simp]: "show_nat n \<noteq> []"
  by (subst show_nat.simps) simp

lemma show_nat_no_space [simp]: "no_space (show_nat n)"
  using show_nat_digits [of n] by (auto simp: no_space_def list_all_iff digit_not_space)

lemma digits_val_snoc [simp]: "digits_val (s @ [c]) = 10 * digits_val s + digit_val c"
  by (simp add: digits_val_def)

lemma digits_val_single: "digits_val [c] = digit_val c"
  by (simp add: digits_val_def)

lemma digits_val_show_nat [simp]: "digits_val (show_nat n) = n"
proof (induction n rule: show_nat.induct)
  case (1 n)
  show ?case
  proof (cases "n < 10")
    case True
    then show ?thesis by (subst show_nat.simps) (simp add: digits_val_single)
  next
    case False
    with 1 have "digits_val (show_nat (n div 10)) = n div 10" by simp
    with False show ?thesis by (subst show_nat.simps) simp
  qed
qed

lemma show_nat_inject [simp]: "show_nat m = show_nat n \<longleftrightarrow> m = n"
  by (metis digits_val_show_nat)

end
