(* ===== verification/Float64.thy ===== *)
theory Float64
  imports Prelude
begin

text \<open>
  The IEEE 754 binary64 numbers of Go's \<open>float64\<close> and JavaScript's \<open>Number\<close>. A finite number is
  its exact rational value; every arithmetic operation is the exact result rounded to nearest, ties
  to even, with gradual underflow (least exponent -1074) and overflow to an infinity at \<open>2 ^ 1024\<close>.
  The two zeros are identified: the program never divides by a zero and never prints one's sign.
\<close>

datatype f64 = Fin rat | PosInf | NegInf | NaN

section \<open>Powers of two and binary exponents\<close>

definition pow2 :: "int \<Rightarrow> rat" where
  "pow2 k = (if 0 \<le> k then 2 ^ nat k else 1 / 2 ^ nat (- k))"

function bits :: "int \<Rightarrow> int" where
  "bits n = (if n \<le> 0 then 0 else bits (n div 2) + 1)"
  by pat_completeness auto
termination
  by (relation "measure nat") auto

declare bits.simps [simp del]

text \<open>The exponent \<open>k\<close> with \<open>2 ^ k \<le> q < 2 ^ (k + 1)\<close>, for a positive \<open>q\<close>.\<close>

definition ilog2 :: "rat \<Rightarrow> int" where
  "ilog2 q =
     (if 1 \<le> q then bits \<lfloor>q\<rfloor> - 1 else - bits (\<lceil>1 / q\<rceil> - 1))"

section \<open>Rounding\<close>

definition round_half_even :: "rat \<Rightarrow> int" where
  "round_half_even x =
     (let f = \<lfloor>x\<rfloor>; d = x - of_int f in
      if d < 1 / 2 then f else if d > 1 / 2 then f + 1 else if even f then f else f + 1)"

definition unit_exp :: "rat \<Rightarrow> int" where
  "unit_exp q = max (ilog2 q - 52) (- 1074)"

definition round_mag :: "rat \<Rightarrow> rat" where
  "round_mag q = of_int (round_half_even (q / pow2 (unit_exp q))) * pow2 (unit_exp q)"

definition rnd64 :: "rat \<Rightarrow> f64" where
  "rnd64 q =
     (if q = 0 then Fin 0
      else let v = round_mag \<bar>q\<bar> in
        if v \<ge> pow2 1024 then (if q > 0 then PosInf else NegInf)
        else Fin (if q > 0 then v else - v))"

section \<open>Operations\<close>

fun f_neg :: "f64 \<Rightarrow> f64" where
  "f_neg (Fin a) = Fin (- a)"
| "f_neg PosInf = NegInf"
| "f_neg NegInf = PosInf"
| "f_neg NaN = NaN"

fun f_add :: "f64 \<Rightarrow> f64 \<Rightarrow> f64" where
  "f_add (Fin a) (Fin b) = rnd64 (a + b)"
| "f_add NaN _ = NaN"
| "f_add _ NaN = NaN"
| "f_add PosInf NegInf = NaN"
| "f_add NegInf PosInf = NaN"
| "f_add PosInf _ = PosInf"
| "f_add _ PosInf = PosInf"
| "f_add NegInf _ = NegInf"
| "f_add _ NegInf = NegInf"

definition f_sub :: "f64 \<Rightarrow> f64 \<Rightarrow> f64" where
  "f_sub a b = f_add a (f_neg b)"

definition f_sgn :: "f64 \<Rightarrow> int" where
  "f_sgn a = (case a of Fin q \<Rightarrow> (if q > 0 then 1 else if q < 0 then - 1 else 0)
     | PosInf \<Rightarrow> 1 | NegInf \<Rightarrow> - 1 | NaN \<Rightarrow> 0)"

definition f_inf :: "int \<Rightarrow> f64" where
  "f_inf s = (if s > 0 then PosInf else if s < 0 then NegInf else NaN)"

definition f_mul :: "f64 \<Rightarrow> f64 \<Rightarrow> f64" where
  "f_mul a b = (case (a, b) of
       (Fin p, Fin q) \<Rightarrow> rnd64 (p * q)
     | (NaN, _) \<Rightarrow> NaN
     | (_, NaN) \<Rightarrow> NaN
     | _ \<Rightarrow> f_inf (f_sgn a * f_sgn b))"

text \<open>Division; a zero divisor gives the infinity of the dividend's sign, \<open>0 / 0\<close> is NaN.\<close>

definition f_div :: "f64 \<Rightarrow> f64 \<Rightarrow> f64" where
  "f_div a b = (case (a, b) of
       (NaN, _) \<Rightarrow> NaN
     | (_, NaN) \<Rightarrow> NaN
     | (Fin p, Fin q) \<Rightarrow> if q = 0 then f_inf (f_sgn a) else rnd64 (p / q)
     | (Fin p, _) \<Rightarrow> Fin 0
     | (_, Fin q) \<Rightarrow> if q < 0 then f_neg a else a
     | _ \<Rightarrow> NaN)"

fun f_abs :: "f64 \<Rightarrow> f64" where
  "f_abs (Fin a) = Fin \<bar>a\<bar>"
| "f_abs NegInf = PosInf"
| "f_abs x = x"

fun f_lt :: "f64 \<Rightarrow> f64 \<Rightarrow> bool" where
  "f_lt (Fin a) (Fin b) = (a < b)"
| "f_lt NegInf (Fin b) = True"
| "f_lt NegInf PosInf = True"
| "f_lt (Fin a) PosInf = True"
| "f_lt _ _ = False"

definition f_eq :: "f64 \<Rightarrow> f64 \<Rightarrow> bool" where
  "f_eq a b \<longleftrightarrow> a \<noteq> NaN \<and> a = b"

definition f_le :: "f64 \<Rightarrow> f64 \<Rightarrow> bool" where
  "f_le a b \<longleftrightarrow> f_lt a b \<or> f_eq a b"

definition is_finite :: "f64 \<Rightarrow> bool" where
  "is_finite a \<longleftrightarrow> (case a of Fin _ \<Rightarrow> True | _ \<Rightarrow> False)"

text \<open>
  \<open>math.Sqrt\<close>: the square root in units of its last place, rounded to nearest. A 53-bit number has no
  square root half way between two of them, so there are no ties.
\<close>

function isqrt :: "nat \<Rightarrow> nat" where
  "isqrt n = (if n = 0 then 0 else (let s = 2 * isqrt (n div 4) in if (s + 1) ^ 2 \<le> n then s + 1 else s))"
  by pat_completeness auto
termination
  by (relation "measure id") auto

declare isqrt.simps [simp del]

definition sqrt_mag :: "rat \<Rightarrow> rat" where
  "sqrt_mag q =
     (let e = ilog2 q div 2 - 52; y = q / pow2 (2 * e); n = isqrt (nat \<lfloor>y\<rfloor>)
      in (if y > (of_nat n + 1 / 2) ^ 2 then of_nat n + 1 else of_nat n) * pow2 e)"

definition f_sqrt :: "f64 \<Rightarrow> f64" where
  "f_sqrt a = (case a of
       Fin q \<Rightarrow> if q < 0 then NaN else if q = 0 then Fin 0 else Fin (sqrt_mag q)
     | PosInf \<Rightarrow> PosInf | _ \<Rightarrow> NaN)"

text \<open>The conversion \<open>float64(n)\<close> of an integer.\<close>

definition f_of_int :: "int \<Rightarrow> f64" where
  "f_of_int n = rnd64 (of_int n)"

section \<open>Facts about square roots\<close>

lemma isqrt_bounds: "isqrt n ^ 2 \<le> n \<and> n < (isqrt n + 1) ^ 2"
proof (induction n rule: isqrt.induct)
  case (1 n)
  show ?case
  proof (cases "n = 0")
    case True
    then show ?thesis by (simp add: isqrt.simps)
  next
    case False
    define s where "s = isqrt (n div 4)"
    from 1 False have s: "s ^ 2 \<le> n div 4" "n div 4 < (s + 1) ^ 2" by (auto simp: s_def)
    from s(1) have "4 * s ^ 2 \<le> n" by linarith
    then have lo: "(2 * s) ^ 2 \<le> n" by (simp add: power_mult_distrib)
    from s(2) have "n < 4 * (s + 1) ^ 2" by linarith
    then have hi: "n < (2 * s + 2) ^ 2" by (simp add: power2_eq_square algebra_simps)
    have "isqrt n = (if (2 * s + 1) ^ 2 \<le> n then 2 * s + 1 else 2 * s)"
      using False by (subst isqrt.simps) (simp add: s_def Let_def)
    with lo hi show ?thesis by auto
  qed
qed

section \<open>Facts about powers of two\<close>

lemma pow2_pos [simp]: "0 < pow2 k"
  by (simp add: pow2_def)

lemma pow2_nonneg [simp]: "0 \<le> pow2 k"
  using pow2_pos [of k] by linarith

lemma pow2_neq0 [simp]: "pow2 k \<noteq> 0"
  using pow2_pos [of k] by linarith

lemma pow2_0 [simp]: "pow2 0 = 1"
  by (simp add: pow2_def)

lemma pow2_Suc: "pow2 (k + 1) = 2 * pow2 k"
proof (cases "0 \<le> k")
  case True
  then have "nat (k + 1) = Suc (nat k)" by simp
  with True show ?thesis by (simp add: pow2_def)
next
  case False
  then have "nat (- k) = Suc (nat (- (k + 1)))" by simp
  with False show ?thesis by (auto simp: pow2_def)
qed

lemma pow2_add_nat: "pow2 (k + int n) = pow2 k * 2 ^ n"
proof (induction n)
  case (Suc n)
  have "pow2 (k + int (Suc n)) = pow2 ((k + int n) + 1)" by (simp add: algebra_simps)
  also have "\<dots> = 2 * (pow2 k * 2 ^ n)" using Suc pow2_Suc by simp
  finally show ?case by simp
qed simp

lemma pow2_split: "j \<le> k \<Longrightarrow> pow2 k = pow2 j * 2 ^ nat (k - j)"
  using pow2_add_nat [of j "nat (k - j)"] by simp

lemma pow2_mono: "j \<le> k \<Longrightarrow> pow2 j \<le> pow2 k"
proof -
  assume "j \<le> k"
  then have "pow2 k = pow2 j * 2 ^ nat (k - j)" by (rule pow2_split)
  moreover have "pow2 j * 1 \<le> pow2 j * 2 ^ nat (k - j)"
    by (intro mult_left_mono) simp_all
  ultimately show ?thesis by simp
qed

lemma pow2_strict_mono: "j < k \<Longrightarrow> pow2 j < pow2 k"
proof -
  assume "j < k"
  then have "pow2 (j + 1) \<le> pow2 k" by (intro pow2_mono) simp
  then show ?thesis using pow2_Suc [of j] pow2_pos [of j] by linarith
qed

lemma pow2_le_iff [simp]: "pow2 j \<le> pow2 k \<longleftrightarrow> j \<le> k"
  by (meson leD leI pow2_mono pow2_strict_mono)

lemma pow2_less_iff [simp]: "pow2 j < pow2 k \<longleftrightarrow> j < k"
  by (meson leD leI pow2_mono pow2_strict_mono)

lemma pow2_of_nat: "pow2 (int n) = 2 ^ n"
  by (simp add: pow2_def)

section \<open>Facts about the binary exponent\<close>

lemma bits_bounds: "0 < n \<Longrightarrow> 0 < bits n \<and> 2 ^ nat (bits n - 1) \<le> n \<and> n < 2 ^ nat (bits n)"
proof (induction n rule: bits.induct)
  case (1 n)
  have eq: "bits n = bits (n div 2) + 1"
    using 1(2) by (subst bits.simps) simp
  show ?case
  proof (cases "n div 2 = 0")
    case True
    then have "n = 1" using 1(2) by simp
    moreover have "bits 1 = 1" by (simp add: bits.simps)
    ultimately show ?thesis by simp
  next
    case False
    then have "0 < n div 2" using 1(2) by simp
    with 1 have IH: "0 < bits (n div 2)" "2 ^ nat (bits (n div 2) - 1) \<le> n div 2"
      "n div 2 < 2 ^ nat (bits (n div 2))" by auto
    obtain b where b: "bits (n div 2) = int (Suc b)"
      using IH(1) by (metis Suc_pred nat_0_le nat_eq_iff zero_less_nat_eq order_less_imp_le)
    have "2 ^ Suc b \<le> n" and "n < 2 ^ Suc (Suc b)"
      using IH(2,3) b by (simp_all add: nat_add_distrib)
    then show ?thesis by (simp add: eq b nat_add_distrib)
  qed
qed

lemma bits_rat:
  assumes "0 < n"
  shows "pow2 (bits n - 1) \<le> of_int n" and "of_int n + 1 \<le> pow2 (bits n)"
proof -
  from bits_bounds [OF assms] have b: "0 < bits n" "2 ^ nat (bits n - 1) \<le> n" "n + 1 \<le> 2 ^ nat (bits n)"
    by auto
  have "(of_int (2 ^ nat (bits n - 1)) :: rat) \<le> of_int n" using b(2) by (simp only: of_int_le_iff)
  then show "pow2 (bits n - 1) \<le> of_int n" using b(1) by (simp add: pow2_def)
  have "(of_int (n + 1) :: rat) \<le> of_int (2 ^ nat (bits n))" using b(3) by (simp only: of_int_le_iff)
  then show "of_int n + 1 \<le> pow2 (bits n)" using b(1) by (simp add: pow2_def)
qed

lemma pow2_minus: "pow2 (- k) = 1 / pow2 k"
  by (auto simp: pow2_def)

lemma ilog2_bounds:
  assumes "0 < q"
  shows "pow2 (ilog2 q) \<le> q" and "q < pow2 (ilog2 q + 1)"
proof -
  have "pow2 (ilog2 q) \<le> q \<and> q < pow2 (ilog2 q + 1)"
  proof (cases "1 \<le> q")
    case True
    then have n: "0 < \<lfloor>q\<rfloor>" by simp
    have "of_int \<lfloor>q\<rfloor> \<le> q" "q < of_int \<lfloor>q\<rfloor> + 1" using floor_correct [of q] by auto
    then have "pow2 (bits \<lfloor>q\<rfloor> - 1) \<le> q" "q < pow2 (bits \<lfloor>q\<rfloor>)"
      using bits_rat [OF n] by linarith+
    then show ?thesis using True by (simp add: ilog2_def)
  next
    case False
    define m where "m = \<lceil>1 / q\<rceil> - 1"
    have q1: "1 < 1 / q" using False assms by (simp add: field_simps)
    have m: "0 < m" using q1 unfolding m_def by (simp only: less_ceiling_iff diff_gt_0_iff_gt of_int_1)
    have lo: "of_int m < 1 / q" and hi: "1 / q \<le> of_int m + 1"
      using ceiling_correct [of "1 / q"] by (simp_all add: m_def)
    have "pow2 (bits m - 1) < 1 / q" "1 / q \<le> pow2 (bits m)"
      using bits_rat [OF m] lo hi by linarith+
    then have "q < 1 / pow2 (bits m - 1)" "1 / pow2 (bits m) \<le> q"
      using assms by (simp_all add: field_simps)
    moreover have "ilog2 q = - bits m" using False by (simp add: ilog2_def m_def)
    ultimately show ?thesis
      using pow2_minus [of "bits m"] pow2_minus [of "bits m - 1"] by simp
  qed
  then show "pow2 (ilog2 q) \<le> q" and "q < pow2 (ilog2 q + 1)" by auto
qed

lemma ilog2_mono:
  assumes "0 < p" "p \<le> q"
  shows "ilog2 p \<le> ilog2 q"
proof -
  have "pow2 (ilog2 p) < pow2 (ilog2 q + 1)"
    using ilog2_bounds [of p] ilog2_bounds [of q] assms by linarith
  then show ?thesis by simp
qed

section \<open>Facts about rounding\<close>

lemma round_half_even_bounds:
  "\<lfloor>x\<rfloor> \<le> round_half_even x" "round_half_even x \<le> \<lfloor>x\<rfloor> + 1"
  by (simp_all add: round_half_even_def Let_def)

lemma round_half_even_error: "\<bar>of_int (round_half_even x) - x\<bar> \<le> 1 / 2"
  unfolding round_half_even_def Let_def 
  by (simp add: abs_if) (use floor_correct [of x] in linarith)

lemma round_half_even_of_int [simp]: "round_half_even (of_int n) = n"
  by (simp add: round_half_even_def)

lemma round_half_even_mono:
  assumes "x \<le> y"
  shows "round_half_even x \<le> round_half_even y"
proof (cases "\<lfloor>x\<rfloor> = \<lfloor>y\<rfloor>")
  case True
  with assms show ?thesis by (auto simp: round_half_even_def Let_def)
next
  case False
  then have "\<lfloor>x\<rfloor> + 1 \<le> \<lfloor>y\<rfloor>" using floor_mono [OF assms] by linarith
  then show ?thesis
    using round_half_even_bounds [of x] round_half_even_bounds [of y] by linarith
qed

lemma round_mag_exact:
  assumes "q = of_int m * pow2 (unit_exp q)"
  shows "round_mag q = q"
proof -
  have "q / pow2 (unit_exp q) = of_int m"
    using assms by (metis nonzero_mult_div_cancel_right pow2_neq0)
  then show ?thesis using assms by (simp add: round_mag_def)
qed

lemma round_mag_le_pow2:
  assumes "0 < q" "q \<le> pow2 k" "unit_exp q \<le> k"
  shows "round_mag q \<le> pow2 k"
proof -
  let ?e = "unit_exp q"
  have eq: "pow2 k = of_int (2 ^ nat (k - ?e)) * pow2 ?e"
    using assms pow2_split [of ?e k] by simp
  have "q / pow2 ?e \<le> of_int (2 ^ nat (k - ?e))"
    using assms(2) unfolding eq by (simp add: pos_divide_le_eq del: of_int_power)
  then have "round_half_even (q / pow2 ?e) \<le> round_half_even (of_int (2 ^ nat (k - ?e)))"
    by (rule round_half_even_mono)
  then have "round_half_even (q / pow2 ?e) \<le> 2 ^ nat (k - ?e)"
    by (simp only: round_half_even_of_int)
  then have "of_int (round_half_even (q / pow2 ?e)) * pow2 ?e
      \<le> of_int (2 ^ nat (k - ?e)) * pow2 ?e"
    by (intro mult_right_mono) (simp_all only: of_int_le_iff pow2_nonneg)
  then show ?thesis by (simp only: round_mag_def eq)
qed

lemma round_mag_ge_pow2:
  assumes "0 < q" "pow2 k \<le> q" "unit_exp q \<le> k"
  shows "pow2 k \<le> round_mag q"
proof -
  let ?e = "unit_exp q"
  have eq: "pow2 k = of_int (2 ^ nat (k - ?e)) * pow2 ?e"
    using assms pow2_split [of ?e k] by simp
  have "of_int (2 ^ nat (k - ?e)) \<le> q / pow2 ?e"
    using assms(2) unfolding eq by (simp add: pos_le_divide_eq del: of_int_power)
  then have "round_half_even (of_int (2 ^ nat (k - ?e))) \<le> round_half_even (q / pow2 ?e)"
    by (rule round_half_even_mono)
  then have "2 ^ nat (k - ?e) \<le> round_half_even (q / pow2 ?e)"
    by (simp only: round_half_even_of_int)
  then have "of_int (2 ^ nat (k - ?e)) * pow2 ?e
      \<le> of_int (round_half_even (q / pow2 ?e)) * pow2 ?e"
    by (intro mult_right_mono) (simp_all only: of_int_le_iff pow2_nonneg)
  then show ?thesis by (simp only: round_mag_def eq)
qed

lemma round_mag_mono:
  assumes "0 < p" "p \<le> q"
  shows "round_mag p \<le> round_mag q"
proof (cases "unit_exp p = unit_exp q")
  case True
  have "p / pow2 (unit_exp p) \<le> q / pow2 (unit_exp p)"
    using assms by (simp add: divide_right_mono)
  then have "round_half_even (p / pow2 (unit_exp p)) \<le> round_half_even (q / pow2 (unit_exp p))"
    by (rule round_half_even_mono)
  then show ?thesis
    unfolding round_mag_def True [symmetric] by (intro mult_right_mono) simp_all
next
  case False
  have "unit_exp p \<le> unit_exp q"
    using ilog2_mono [OF assms] by (simp add: unit_exp_def)
  with False have lt: "unit_exp p < unit_exp q" by simp
  then have q: "unit_exp q = ilog2 q - 52" and pq: "ilog2 p < ilog2 q"
    by (auto simp: unit_exp_def split: if_splits)
  have qpos: "0 < q" using assms by linarith
  have "p < pow2 (ilog2 p + 1)" using ilog2_bounds [of p] assms by simp
  moreover have "pow2 (ilog2 p + 1) \<le> pow2 (ilog2 q)" using pq by simp
  ultimately have "p \<le> pow2 (ilog2 q)" by linarith
  then have "round_mag p \<le> pow2 (ilog2 q)"
    using assms lt q by (intro round_mag_le_pow2) auto
  moreover have "pow2 (ilog2 q) \<le> round_mag q"
    using ilog2_bounds [of q] qpos q by (intro round_mag_ge_pow2) auto
  ultimately show ?thesis by linarith
qed

lemma round_mag_nonneg: "0 < q \<Longrightarrow> 0 \<le> round_mag q"
proof -
  assume "0 < q"
  then have "0 \<le> \<lfloor>q / pow2 (unit_exp q)\<rfloor>" by simp
  then have "0 \<le> round_half_even (q / pow2 (unit_exp q))"
    using round_half_even_bounds(1) [of "q / pow2 (unit_exp q)"] by linarith
  then show ?thesis by (simp add: round_mag_def)
qed

text \<open>Rounding is monotone, infinities included, and never produces a NaN.\<close>

lemma rnd64_not_NaN [simp]: "rnd64 q \<noteq> NaN"
  by (simp add: rnd64_def Let_def)

lemma rnd64_mono_pos: "0 < p \<Longrightarrow> p \<le> q \<Longrightarrow> f_le (rnd64 p) (rnd64 q)"
  using round_mag_mono [of p q] by (auto simp: rnd64_def Let_def f_le_def f_eq_def)

lemma rnd64_neg: "rnd64 (- q) = f_neg (rnd64 q)"
  by (auto simp: rnd64_def Let_def)

lemma f_le_neg: "f_le (f_neg a) (f_neg b) \<longleftrightarrow> f_le b a"
  by (cases a; cases b) (auto simp: f_le_def f_eq_def)

lemma f_le_trans: "f_le a b \<Longrightarrow> f_le b c \<Longrightarrow> f_le a c"
  by (cases a; cases b; cases c) (auto simp: f_le_def f_eq_def)

lemma rnd64_sign:
  "0 \<le> q \<Longrightarrow> f_le (Fin 0) (rnd64 q)"
  using round_mag_nonneg [of q] by (auto simp: rnd64_def Let_def f_le_def f_eq_def)

lemma rnd64_mono:
  assumes "p \<le> q"
  shows "f_le (rnd64 p) (rnd64 q)"
proof -
  consider "0 < p" | "p \<le> 0" "0 \<le> q" | "q < 0" by linarith
  then show ?thesis
  proof cases
    case 1
    then show ?thesis using assms by (rule rnd64_mono_pos)
  next
    case 2
    have "f_le (Fin 0) (rnd64 (- p))" using 2 by (intro rnd64_sign) simp
    then have "f_le (rnd64 p) (Fin 0)"
      using f_le_neg [of "Fin 0" "rnd64 p"] by (simp add: rnd64_neg)
    then show ?thesis using rnd64_sign [OF 2(2)] by (rule f_le_trans)
  next
    case 3
    then have "f_le (rnd64 (- q)) (rnd64 (- p))" using assms by (intro rnd64_mono_pos) auto
    then show ?thesis by (simp add: rnd64_neg f_le_neg)
  qed
qed

text \<open>Integers of at most 53 bits are represented exactly.\<close>

lemma round_mag_nat:
  assumes "0 < n" "n \<le> 2 ^ 53"
  shows "round_mag (of_nat n) = of_nat n"
proof -
  let ?q = "of_nat n :: rat"
  let ?k = "ilog2 ?q"
  have q: "0 < ?q" using assms by simp
  have "?q \<le> 2 ^ 53" using assms(2) by (metis of_nat_le_iff of_nat_numeral of_nat_power)
  then have "pow2 ?k \<le> pow2 53"
    using ilog2_bounds(1) [OF q] by (simp add: pow2_def)
  then have k: "?k \<le> 53" by simp
  have "\<exists>m. ?q = of_int m * pow2 (unit_exp ?q)"
  proof (cases "?k \<le> 52")
    case True
    then have e: "unit_exp ?q \<le> 0" by (simp add: unit_exp_def)
    then have "1 = pow2 (unit_exp ?q) * 2 ^ nat (- unit_exp ?q)"
      using pow2_split [of "unit_exp ?q" 0] by simp
    then have "?q = of_int (int n * 2 ^ nat (- unit_exp ?q)) * pow2 (unit_exp ?q)"
      by (simp add: mult.assoc mult.commute)
    then show ?thesis by blast
  next
    case False
    with k have k53: "?k = 53" by simp
    then have "(2::rat) ^ 53 \<le> ?q" using ilog2_bounds(1) [OF q] by (simp add: pow2_def)
    then have "?q = 2 ^ 53" using \<open>?q \<le> 2 ^ 53\<close> by (rule antisym [rotated])
    moreover have "unit_exp ?q = 1" using k53 by (simp add: unit_exp_def)
    moreover have "pow2 1 = 2" by (simp add: pow2_def)
    ultimately have "?q = of_int (2 ^ 52) * pow2 (unit_exp ?q)" by simp
    then show ?thesis by blast
  qed
  then show ?thesis using round_mag_exact by blast
qed

lemma rnd64_of_nat:
  assumes "n \<le> 2 ^ 53"
  shows "rnd64 (of_nat n) = Fin (of_nat n)"
proof (cases "n = 0")
  case False
  have "(of_nat n :: rat) \<le> 2 ^ 53" using assms by (metis of_nat_le_iff of_nat_numeral of_nat_power)
  also have "\<dots> = pow2 53" by (simp add: pow2_def)
  also have "\<dots> < pow2 1024" by (simp only: pow2_less_iff)
  finally have "\<not> pow2 1024 \<le> (of_nat n :: rat)" by simp
  with False show ?thesis using round_mag_nat [of n] assms by (simp add: rnd64_def Let_def)
qed (simp add: rnd64_def)

lemma f_of_int_exact: "\<bar>i\<bar> \<le> 2 ^ 53 \<Longrightarrow> f_of_int i = Fin (of_int i)"
proof -
  assume a: "\<bar>i\<bar> \<le> 2 ^ 53"
  define n where "n = nat \<bar>i\<bar>"
  have n: "n \<le> 2 ^ 53" using a by (simp add: n_def nat_le_iff)
  show ?thesis
  proof (cases "0 \<le> i")
    case True
    then have "of_int i = (of_nat n :: rat)" by (simp add: n_def)
    then show ?thesis using rnd64_of_nat [OF n] by (simp add: f_of_int_def)
  next
    case False
    then have "of_int i = - (of_nat n :: rat)" by (simp add: n_def)
    then show ?thesis using rnd64_of_nat [OF n] by (simp add: f_of_int_def rnd64_neg)
  qed
qed

end
