(* ===== verification/Json.thy ===== *)
theory Json
  imports Float64
begin

text \<open>
  The JSON documents exchanged by the server and the web client, and the part of JavaScript's
  dynamic semantics that the client's code relies on: property access, truthiness and
  \<open>Object.values\<close>. A JavaScript value read from a document is a \<open>json option\<close>, \<open>None\<close> being
  \<open>undefined\<close>. A number is the exact value of its literal; JavaScript reads it rounded to binary64.
\<close>

datatype json =
    JNull
  | JBool bool
  | JNum rat
  | JStr string
  | JArr "json list"
  | JObj "(string \<times> json) list"

type_synonym jsval = "json option"

text \<open>
  What rendering code can throw: the engine's \<open>TypeError\<close> (a property of null or undefined, a call
  of a value that is no function), or a \<open>RangeError\<close>.
\<close>

datatype js_error = JsTypeError | JsRangeError

section \<open>Property access\<close>

definition obj_get :: "(string \<times> json) list \<Rightarrow> string \<Rightarrow> jsval" where
  "obj_get kvs k = map_of (rev kvs) k"

text \<open>\<open>v.k\<close> for a field name \<open>k\<close> that no built-in prototype defines.\<close>

fun js_prop :: "jsval \<Rightarrow> string \<Rightarrow> (js_error, jsval) result" where
  "js_prop None k = Inl JsTypeError"
| "js_prop (Some JNull) k = Inl JsTypeError"
| "js_prop (Some (JObj kvs)) k = Inr (obj_get kvs k)"
| "js_prop (Some _) k = Inr None"

text \<open>\<open>v?.k\<close>\<close>

fun js_opt_prop :: "jsval \<Rightarrow> string \<Rightarrow> jsval" where
  "js_opt_prop (Some (JObj kvs)) k = obj_get kvs k"
| "js_opt_prop _ k = None"

fun truthy :: "jsval \<Rightarrow> bool" where
  "truthy None = False"
| "truthy (Some JNull) = False"
| "truthy (Some (JBool b)) = b"
| "truthy (Some (JNum q)) = (rnd64 q \<noteq> Fin 0)"
| "truthy (Some (JStr s)) = (s \<noteq> [])"
| "truthy (Some _) = True"

text \<open>\<open>v || w\<close>\<close>

definition js_or :: "jsval \<Rightarrow> jsval \<Rightarrow> jsval" where
  "js_or v w = (if truthy v then v else w)"

section \<open>Object.values\<close>

text \<open>
  The own properties of a parsed object: each key once, at the place of its first occurrence, with
  the value of its last. Keys that are array indices come first, in numerical order.
\<close>

definition is_array_index :: "string \<Rightarrow> bool" where
  "is_array_index k \<longleftrightarrow> k \<noteq> [] \<and> list_all is_digit k \<and> (k = ''0'' \<or> hd k \<noteq> CHR ''0'')
     \<and> digits_val k < 4294967295"

definition own_props :: "(string \<times> json) list \<Rightarrow> (string \<times> json) list" where
  "own_props kvs =
     (let ob = obj_spread [] kvs in
      sort_key (\<lambda>(k, v). digits_val k) (filter (\<lambda>(k, v). is_array_index k) ob)
      @ filter (\<lambda>(k, v). \<not> is_array_index k) ob)"

fun js_object_values :: "json \<Rightarrow> json list" where
  "js_object_values (JObj kvs) = map snd (own_props kvs)"
| "js_object_values (JArr xs) = xs"
| "js_object_values (JStr s) = map (\<lambda>c. JStr [c]) s"
| "js_object_values _ = []"

lemma obj_spread_no_dups:
  "distinct (map fst kvs) \<Longrightarrow> fst ` set ob \<inter> fst ` set kvs = {} \<Longrightarrow> obj_spread ob kvs = ob @ kvs"
proof (induction kvs arbitrary: ob)
  case (Cons kv kvs)
  obtain k v where kv: "kv = (k, v)" by (cases kv)
  have "k \<notin> fst ` set ob \<Longrightarrow> obj_set ob k v = ob @ [(k, v)]" for ob :: "('a \<times> 'b) list"
    by (induction ob k v rule: obj_set.induct) auto
  with Cons.prems kv have "obj_set ob k v = ob @ [(k, v)]" by auto
  moreover have "obj_spread (ob @ [(k, v)]) kvs = (ob @ [(k, v)]) @ kvs"
    using Cons.prems kv by (intro Cons.IH) auto
  ultimately show ?case by (simp add: kv)
qed simp

lemma mset_own_props:
  "distinct (map fst kvs) \<Longrightarrow> set (own_props kvs) = set kvs \<and> length (own_props kvs) = length kvs"
proof -
  assume "distinct (map fst kvs)"
  then have ob: "obj_spread [] kvs = kvs" using obj_spread_no_dups [of kvs "[]"] by simp
  have "length (filter (\<lambda>(k, v). is_array_index k) kvs)
      + length (filter (\<lambda>(k, v). \<not> is_array_index k) kvs) = length kvs"
    by (induction kvs) auto
  then show ?thesis by (auto simp: own_props_def ob Let_def)
qed

lemma obj_get_distinct: "distinct (map fst kvs) \<Longrightarrow> obj_get kvs k = map_of kvs k"
  using map_of_inject_set [of "rev kvs" kvs] by (simp add: obj_get_def rev_map [symmetric])

end
