(* ===== verification/WebDom.thy ===== *)
theory WebDom
  imports Json
begin

text \<open>
  React element trees and the client's own components: \<open>web/src/lib/utils.ts\<close>, \<open>Badge.tsx\<close>,
  \<open>Button.tsx\<close>, \<open>Card.tsx\<close> and \<open>Table.tsx\<close> under \<open>web/src/components/\<close>. A component is the function
  from its props and children to the element it returns. Elements of the icon library and the
  router keep their component name as tag. The class-list joiner \<open>clsx\<close> of the package of that name
  is a parameter, and so is the type \<open>'h\<close> of the event handlers a page installs.
\<close>

section \<open>Elements\<close>

datatype 'h attr =
    AStr string
  | ABool bool
  | AInt int
  | AFun 'h
  | AVal jsval
  | AUndef

type_synonym 'h props = "(string \<times> 'h attr) list"

datatype 'h node =
    El string "'h props" "'h node list"
  | Txt string
  | NumTxt f64
  | Val jsval
  | Empty

text \<open>\<open>{cond && <X/>}\<close>\<close>

definition when_node :: "bool \<Rightarrow> 'h node \<Rightarrow> 'h node" where
  "when_node b n = (if b then n else Empty)"

section \<open>The host\<close>

text \<open>
  What the pages take from the browser and from date-fns beyond the language's own arithmetic:
  conversion of numbers and of structured values to strings, dates, and the two date formats.
\<close>

record host =
  host_string :: "json \<Rightarrow> string" \<comment> \<open>\<open>String(v)\<close> of a value that is no string\<close>
  host_num_string :: "f64 \<Rightarrow> string" \<comment> \<open>\<open>String(x)\<close> of a number\<close>
  host_time :: "jsval \<Rightarrow> int option" \<comment> \<open>\<open>new Date(v).getTime()\<close>, \<open>None\<close> for NaN\<close>
  host_locale :: "int \<Rightarrow> string" \<comment> \<open>\<open>toLocaleString()\<close> of a valid date\<close>
  host_PPpp :: "int \<Rightarrow> string" \<comment> \<open>date-fns' \<open>format(d, "PPpp")\<close> of a valid date\<close>

section \<open>Values in child position\<close>

datatype shown = ShownText string | ShownNum f64

text \<open>
  What React displays for a JavaScript value in child position: strings and numbers are text, null,
  undefined and booleans render nothing, an array renders its elements; React rejects an object.
\<close>

fun shown_val :: "json \<Rightarrow> shown list" where
  "shown_val (JNum q) = [ShownNum (rnd64 q)]"
| "shown_val (JStr s) = (if s = [] then [] else [ShownText s])"
| "shown_val (JArr xs) = concat (map shown_val xs)"
| "shown_val _ = []"

fun renderable_val :: "json \<Rightarrow> bool" where
  "renderable_val (JObj kvs) = False"
| "renderable_val (JArr xs) = list_all renderable_val xs"
| "renderable_val _ = True"

section \<open>Props\<close>

fun attr_truthy :: "'h attr \<Rightarrow> bool" where
  "attr_truthy (AStr s) = (s \<noteq> [])"
| "attr_truthy (ABool b) = b"
| "attr_truthy (AInt i) = (i \<noteq> 0)"
| "attr_truthy (AFun h) = True"
| "attr_truthy (AVal v) = truthy v"
| "attr_truthy AUndef = False"

definition prop_of :: "'h props \<Rightarrow> string \<Rightarrow> 'h attr" where
  "prop_of ps k = (case map_of ps k of Some v \<Rightarrow> v | None \<Rightarrow> AUndef)"

text \<open>Destructuring with a default, which replaces a missing or undefined prop.\<close>

definition prop_default :: "'h props \<Rightarrow> string \<Rightarrow> 'h attr \<Rightarrow> 'h attr" where
  "prop_default ps k d = (case prop_of ps k of AUndef \<Rightarrow> d | v \<Rightarrow> v)"

definition attr_or :: "'h attr \<Rightarrow> 'h attr \<Rightarrow> 'h attr" where
  "attr_or a b = (if attr_truthy a then a else b)"

text \<open>\<open>table[key]\<close> for an object literal of class strings.\<close>

definition class_lookup :: "(string \<times> string) list \<Rightarrow> 'h attr \<Rightarrow> 'h attr" where
  "class_lookup table key =
     (case key of AStr k \<Rightarrow> (case map_of table k of Some c \<Rightarrow> AStr c | None \<Rightarrow> AUndef) | _ \<Rightarrow> AUndef)"

type_synonym 'h clsx = "'h attr list \<Rightarrow> string"

definition cn :: "'h clsx \<Rightarrow> 'h attr list \<Rightarrow> string" where
  "cn clsx inputs = clsx inputs"

section \<open>Badge\<close>

definition badge_variants :: "(string \<times> string) list" where
  "badge_variants =
     [(''default'', ''bg-[var(--muted)]/10 text-[var(--muted-foreground)]''),
      (''success'', ''bg-[var(--success)]/10 text-[var(--success)]''),
      (''warning'', ''bg-[var(--warning)]/10 text-[var(--warning)]''),
      (''danger'', ''bg-[var(--danger)]/10 text-[var(--danger)]''),
      (''outline'', ''border border-[var(--card-border)] text-[var(--ink)]'')]"

definition Badge :: "'h clsx \<Rightarrow> 'h props \<Rightarrow> 'h node list \<Rightarrow> 'h node" where
  "Badge clsx ps children =
     (let className = prop_of ps ''className'';
          variant = prop_default ps ''variant'' (AStr ''default'');
          props = obj_omit [''className'', ''variant'', ''children''] ps
      in El ''span''
           (obj_spread [(''className'', AStr (cn clsx [AStr ''badge'', class_lookup badge_variants variant, className]))]
             props)
           children)"

section \<open>Button\<close>

definition button_variants :: "(string \<times> string) list" where
  "button_variants =
     [(''primary'', ''btn-primary''),
      (''secondary'', ''btn-secondary''),
      (''ghost'', ''btn-ghost''),
      (''danger'', ''bg-[var(--danger)] text-white hover:opacity-90'')]"

definition button_sizes :: "(string \<times> string) list" where
  "button_sizes =
     [(''sm'', ''h-8 px-3 text-xs''),
      (''md'', ''h-10 px-4 py-2''),
      (''lg'', ''h-12 px-8 text-lg'')]"

text \<open>The spread of the remaining props comes after \<open>disabled\<close>, so a \<open>disabled\<close> prop replaces it.\<close>

definition Button :: "'h clsx \<Rightarrow> 'h props \<Rightarrow> 'h node list \<Rightarrow> 'h node" where
  "Button clsx ps children =
     (let className = prop_of ps ''className'';
          variant = prop_default ps ''variant'' (AStr ''primary'');
          size = prop_default ps ''size'' (AStr ''md'');
          isLoading = prop_default ps ''isLoading'' (ABool False);
          props = obj_omit [''className'', ''variant'', ''size'', ''isLoading'', ''children''] ps
      in El ''button''
           (obj_spread
             [(''className'', AStr (cn clsx [AStr ''btn'', class_lookup button_variants variant,
                 class_lookup button_sizes size,
                 (if attr_truthy isLoading then AStr ''opacity-70 cursor-wait'' else isLoading),
                 className])),
              (''disabled'', attr_or isLoading (prop_of props ''disabled''))]
             props)
           (when_node (attr_truthy isLoading)
              (El ''Loader2'' [(''className'', AStr ''mr-2 h-4 w-4 animate-spin'')] [])
            # children))"

section \<open>Card\<close>

definition card_like :: "string \<Rightarrow> 'h attr list \<Rightarrow> 'h clsx \<Rightarrow> 'h props \<Rightarrow> 'h node list \<Rightarrow> 'h node" where
  "card_like tag base clsx ps children =
     El tag
       (obj_spread [(''className'', AStr (cn clsx (base @ [prop_of ps ''className''])))]
         (obj_omit [''className'', ''children''] ps))
       children"

definition Card :: "'h clsx \<Rightarrow> 'h props \<Rightarrow> 'h node list \<Rightarrow> 'h node" where
  "Card = card_like ''div'' [AStr ''card'']"

definition CardHeader :: "'h clsx \<Rightarrow> 'h props \<Rightarrow> 'h node list \<Rightarrow> 'h node" where
  "CardHeader = card_like ''div'' [AStr ''flex flex-col space-y-1.5 pb-4'']"

definition CardTitle :: "'h clsx \<Rightarrow> 'h props \<Rightarrow> 'h node list \<Rightarrow> 'h node" where
  "CardTitle = card_like ''h3'' [AStr ''font-semibold leading-none tracking-tight'']"

definition CardContent :: "'h clsx \<Rightarrow> 'h props \<Rightarrow> 'h node list \<Rightarrow> 'h node" where
  "CardContent = card_like ''div'' []"

section \<open>Table\<close>

text \<open>
  The table parts forward their ref and every other prop, children included, to the host element;
  a ref is not a prop and has no counterpart here.
\<close>

definition table_part :: "string \<Rightarrow> string \<Rightarrow> 'h clsx \<Rightarrow> 'h props \<Rightarrow> 'h node list \<Rightarrow> 'h node" where
  "table_part tag base clsx ps children =
     El tag
       (obj_spread [(''className'', AStr (cn clsx [AStr base, prop_of ps ''className'']))]
         (obj_omit [''className''] ps))
       children"

definition Table :: "'h clsx \<Rightarrow> 'h props \<Rightarrow> 'h node list \<Rightarrow> 'h node" where
  "Table clsx ps children =
     El ''div'' [(''className'', AStr ''table-container'')]
       [table_part ''table'' ''table w-full caption-bottom text-sm'' clsx ps children]"

definition TableHeader :: "'h clsx \<Rightarrow> 'h props \<Rightarrow> 'h node list \<Rightarrow> 'h node" where
  "TableHeader = table_part ''thead'' ''[&_tr]:border-b''"

definition TableBody :: "'h clsx \<Rightarrow> 'h props \<Rightarrow> 'h node list \<Rightarrow> 'h node" where
  "TableBody = table_part ''tbody'' ''[&_tr:last-child]:border-0''"

definition TableRow :: "'h clsx \<Rightarrow> 'h props \<Rightarrow> 'h node list \<Rightarrow> 'h node" where
  "TableRow = table_part ''tr''
     ''border-b transition-colors hover:bg-[var(--muted)]/5 data-[state=selected]:bg-[var(--muted)]/10''"

definition TableHead :: "'h clsx \<Rightarrow> 'h props \<Rightarrow> 'h node list \<Rightarrow> 'h node" where
  "TableHead = table_part ''th''
     ''h-12 px-4 text-left align-middle font-medium text-[var(--muted)] [&:has([role=checkbox])]:pr-0''"

definition TableCell :: "'h clsx \<Rightarrow> 'h props \<Rightarrow> 'h node list \<Rightarrow> 'h node" where
  "TableCell = table_part ''td'' ''p-4 align-middle [&:has([role=checkbox])]:pr-0''"

section \<open>Reading element trees\<close>

text \<open>
  The elements with a given tag, and the text a tree displays, both in document order; an attribute
  of an element.
\<close>

fun elements :: "string \<Rightarrow> 'h node \<Rightarrow> 'h node list" where
  "elements t (El tag ps ns) = (if tag = t then [El tag ps ns] else []) @ concat (map (elements t) ns)"
| "elements t _ = []"

fun shown_in :: "'h node \<Rightarrow> shown list" where
  "shown_in (El tag ps ns) = concat (map shown_in ns)"
| "shown_in (Val v) = (case v of Some j \<Rightarrow> shown_val j | None \<Rightarrow> [])"
| "shown_in (Txt s) = (if s = [] then [] else [ShownText s])"
| "shown_in (NumTxt x) = [ShownNum x]"
| "shown_in Empty = []"

text \<open>React accepts a tree when no child is an object.\<close>

fun renderable :: "'h node \<Rightarrow> bool" where
  "renderable (El tag ps ns) = list_all renderable ns"
| "renderable (Val v) = (case v of Some j \<Rightarrow> renderable_val j | None \<Rightarrow> True)"
| "renderable _ = True"

fun node_attr :: "'h node \<Rightarrow> string \<Rightarrow> 'h attr" where
  "node_attr (El tag ps ns) k = prop_of ps k"
| "node_attr _ k = AUndef"

section \<open>Facts about the components\<close>

lemma prop_of_obj_spread:
  "prop_of (obj_spread ps qs) k = (case map_of (rev qs) k of Some v \<Rightarrow> v | None \<Rightarrow> prop_of ps k)"
  by (auto simp: prop_of_def map_of_obj_spread map_add_def split: option.splits)

lemma map_of_rev_omit: "k \<in> set ks \<Longrightarrow> map_of (rev (obj_omit ks ps)) k = None"
  by (auto simp: map_of_eq_None_iff obj_omit_def)

lemmas card_defs = Card_def CardHeader_def CardTitle_def CardContent_def card_like_def
lemmas table_defs = Table_def TableHeader_def TableBody_def TableRow_def TableHead_def TableCell_def
  table_part_def

text \<open>The host element each component renders, with its children passed through.\<close>

named_theorems dom_simps \<open>elements and text of a rendered component\<close>

lemma elements_card [dom_simps]:
  "elements t (Card c ps ns) = (if t = ''div'' then [Card c ps ns] else []) @ concat (map (elements t) ns)"
  "elements t (CardHeader c ps ns) = (if t = ''div'' then [CardHeader c ps ns] else []) @ concat (map (elements t) ns)"
  "elements t (CardTitle c ps ns) = (if t = ''h3'' then [CardTitle c ps ns] else []) @ concat (map (elements t) ns)"
  "elements t (CardContent c ps ns) = (if t = ''div'' then [CardContent c ps ns] else []) @ concat (map (elements t) ns)"
  by (auto simp: card_defs)

lemma elements_badge [dom_simps]:
  "elements t (Badge c ps ns) = (if t = ''span'' then [Badge c ps ns] else []) @ concat (map (elements t) ns)"
  by (auto simp: Badge_def Let_def)

lemma elements_table [dom_simps]:
  "elements t (TableHeader c ps ns) = (if t = ''thead'' then [TableHeader c ps ns] else []) @ concat (map (elements t) ns)"
  "elements t (TableBody c ps ns) = (if t = ''tbody'' then [TableBody c ps ns] else []) @ concat (map (elements t) ns)"
  "elements t (TableRow c ps ns) = (if t = ''tr'' then [TableRow c ps ns] else []) @ concat (map (elements t) ns)"
  "elements t (TableHead c ps ns) = (if t = ''th'' then [TableHead c ps ns] else []) @ concat (map (elements t) ns)"
  "elements t (TableCell c ps ns) = (if t = ''td'' then [TableCell c ps ns] else []) @ concat (map (elements t) ns)"
  by (auto simp: table_defs)

lemma shown_in_components [dom_simps]:
  "shown_in (Card c ps ns) = concat (map shown_in ns)"
  "shown_in (CardHeader c ps ns) = concat (map shown_in ns)"
  "shown_in (CardTitle c ps ns) = concat (map shown_in ns)"
  "shown_in (CardContent c ps ns) = concat (map shown_in ns)"
  "shown_in (Badge c ps ns) = concat (map shown_in ns)"
  "shown_in (Table c ps ns) = concat (map shown_in ns)"
  "shown_in (TableHeader c ps ns) = concat (map shown_in ns)"
  "shown_in (TableBody c ps ns) = concat (map shown_in ns)"
  "shown_in (TableRow c ps ns) = concat (map shown_in ns)"
  "shown_in (TableHead c ps ns) = concat (map shown_in ns)"
  "shown_in (TableCell c ps ns) = concat (map shown_in ns)"
  "shown_in (Button c ps ns) = concat (map shown_in ns)"
  by (simp_all add: card_defs table_defs Badge_def Button_def Let_def when_node_def)

lemma renderable_components [dom_simps]:
  "renderable (Card c ps ns) = list_all renderable ns"
  "renderable (CardHeader c ps ns) = list_all renderable ns"
  "renderable (CardTitle c ps ns) = list_all renderable ns"
  "renderable (CardContent c ps ns) = list_all renderable ns"
  "renderable (Badge c ps ns) = list_all renderable ns"
  "renderable (Table c ps ns) = list_all renderable ns"
  "renderable (TableHeader c ps ns) = list_all renderable ns"
  "renderable (TableBody c ps ns) = list_all renderable ns"
  "renderable (TableRow c ps ns) = list_all renderable ns"
  "renderable (TableHead c ps ns) = list_all renderable ns"
  "renderable (TableCell c ps ns) = list_all renderable ns"
  "renderable (Button c ps ns) = list_all renderable ns"
  by (simp_all add: card_defs table_defs Badge_def Button_def Let_def when_node_def)

lemma when_node_simps [simp]:
  "when_node True n = n" "when_node False n = Empty"
  by (simp_all add: when_node_def)

text \<open>
  What a caller sees of a button: it is disabled while loading unless the caller passes a
  \<open>disabled\<close> prop, which then decides alone.
\<close>

lemma button_disabled_attr:
  "node_attr (Button clsx ps ns) ''disabled'' =
     (case map_of (rev ps) ''disabled'' of
        Some v \<Rightarrow> v
      | None \<Rightarrow> (if attr_truthy (prop_default ps ''isLoading'' (ABool False))
                then prop_default ps ''isLoading'' (ABool False) else AUndef))"
proof -
  let ?ks = "[''className'', ''variant'', ''size'', ''isLoading'', ''children'']"
  let ?rest = "obj_omit ?ks ps"
  let ?l = "prop_default ps ''isLoading'' (ABool False)"
  have rest: "map_of (rev ?rest) ''disabled'' = map_of (rev ps) ''disabled''"
    using map_of_obj_omit [of ?ks "rev ps" "''disabled''"] by (simp add: obj_omit_def rev_filter)
  have none: "prop_of ?rest ''disabled'' = AUndef" if "map_of (rev ps) ''disabled'' = None"
  proof -
    have "map_of ps ''disabled'' = None" using that by (simp add: map_of_eq_None_iff)
    then show ?thesis by (simp add: prop_of_def map_of_obj_omit)
  qed
  have "node_attr (Button clsx ps ns) ''disabled'' =
      (case map_of (rev ?rest) ''disabled'' of Some v \<Rightarrow> v
       | None \<Rightarrow> attr_or ?l (prop_of ?rest ''disabled''))"
    by (simp only: Button_def Let_def node_attr.simps prop_of_obj_spread)
       (simp add: prop_of_def split: option.split)
  then show ?thesis
    using none by (simp only: rest attr_or_def split: option.split) auto
qed

lemma button_other_attr:
  assumes "k \<notin> {''className'', ''variant'', ''size'', ''isLoading'', ''children''}"
    and "map_of (rev ps) k = Some v"
  shows "node_attr (Button clsx ps ns) k = v"
proof -
  let ?ks = "[''className'', ''variant'', ''size'', ''isLoading'', ''children'']"
  have "map_of (rev (obj_omit ?ks ps)) k = Some v"
    using assms map_of_obj_omit [of ?ks "rev ps" k] by (simp add: obj_omit_def rev_filter)
  then show ?thesis
    by (simp only: Button_def Let_def node_attr.simps prop_of_obj_spread option.case)
qed

lemma elements_button_Button:
  assumes "list_all (\<lambda>n. elements ''button'' n = []) ns"
  shows "elements ''button'' (Button clsx ps ns) = [Button clsx ps ns]"
proof -
  have "concat (map (elements ''button'') ns) = []" using assms by (induction ns) auto
  then show ?thesis by (auto simp: Button_def Let_def when_node_def)
qed

section \<open>Properties\<close>

text \<open>A host and a class joiner on which pages can be evaluated.\<close>

definition plain_host :: host where
  "plain_host =
     \<lparr>host_string = (\<lambda>j. ''value''), host_num_string = (\<lambda>x. ''number''),
      host_time = (\<lambda>v. if v = None then None else Some 1), host_locale = (\<lambda>t. ''date''),
      host_PPpp = (\<lambda>t. ''date'')\<rparr>"

definition no_clsx :: "'h clsx" where
  "no_clsx inputs = []"

text \<open>A button is disabled exactly when its caller passes a true \<open>disabled\<close>, or passes none and the
  button is loading: an explicit \<open>disabled={false}\<close> re-enables a loading button.\<close>

theorem button_disabled_iff:
  "attr_truthy (node_attr (Button clsx ps ns) ''disabled'') \<longleftrightarrow>
     (case map_of (rev ps) ''disabled'' of
        Some v \<Rightarrow> attr_truthy v
      | None \<Rightarrow> attr_truthy (prop_default ps ''isLoading'' (ABool False)))"
  by (simp add: button_disabled_attr split: option.split)

end
