(* ===== verification/WebApi.thy ===== *)
theory WebApi
  imports Json
begin

text \<open>
  The web client's access to the server, \<open>web/src/lib/api.ts\<close>: the token in the browser's local
  storage, the two fetch wrappers, the table of endpoints and the parser of the metrics text.
  An asynchronous call is split at its only suspension point, the browser's \<open>fetch\<close>: the request
  that leaves, and the way the wrapper settles its promise once the browser has an outcome.
  Every rejection is an \<open>Error\<close> object, represented by its message.
  The browser is a parameter: its network (\<open>request \<Rightarrow> net_outcome\<close>) and its JSON parser.
\<close>

section \<open>Requests and outcomes\<close>

record request =
  req_url :: string
  req_method :: string
  req_headers :: "(string \<times> string) list"

text \<open>The fields of a \<open>RequestInit\<close> that the client sets.\<close>

record request_init =
  ri_method :: "string option"
  ri_headers :: "(string \<times> string) list option"

record response =
  resp_status :: int
  resp_status_text :: string
  resp_body :: string

text \<open>\<open>fetch\<close> rejects with the browser's own error message, or resolves to a response.\<close>

datatype net_outcome = NetError string | NetResponse response

text \<open>\<open>JSON.parse\<close>: the engine's \<open>SyntaxError\<close> message, or the document.\<close>

type_synonym json_parser = "string \<Rightarrow> (string, json) result"

type_synonym local_storage = "string \<rightharpoonup> string"

definition token_key :: string where
  "token_key = ''arcsent_token''"

definition getToken :: "local_storage \<Rightarrow> string option" where
  "getToken ls = ls token_key"

definition setToken :: "local_storage \<Rightarrow> string \<Rightarrow> local_storage" where
  "setToken ls t = ls(token_key \<mapsto> t)"

text \<open>\<open>token || ""\<close>\<close>

definition token_or_empty :: "local_storage \<Rightarrow> string" where
  "token_or_empty ls = (case getToken ls of Some t \<Rightarrow> t | None \<Rightarrow> [])"

definition init_headers :: "request_init option \<Rightarrow> (string \<times> string) list" where
  "init_headers opts = (case opts of Some i \<Rightarrow> (case ri_headers i of Some h \<Rightarrow> h | None \<Rightarrow> []) | None \<Rightarrow> [])"

definition init_method :: "request_init option \<Rightarrow> string" where
  "init_method opts = (case opts of Some i \<Rightarrow> (case ri_method i of Some m \<Rightarrow> m | None \<Rightarrow> ''GET'') | None \<Rightarrow> ''GET'')"

section \<open>The wrapper \<open>api.fetch\<close>\<close>

definition fetch_request :: "local_storage \<Rightarrow> string \<Rightarrow> request_init option \<Rightarrow> request" where
  "fetch_request ls path opts =
     (let headers = obj_spread [(''Authorization'', token_or_empty ls),
                                (''Content-Type'', ''application/json'')] (init_headers opts)
      in \<lparr>req_url = ''/api'' @ path, req_method = init_method opts, req_headers = headers\<rparr>)"

definition resp_ok :: "response \<Rightarrow> bool" where
  "resp_ok r \<longleftrightarrow> 200 \<le> resp_status r \<and> resp_status r \<le> 299"

text \<open>The error both wrappers throw on a response that is not ok.\<close>

definition failure_of :: "response \<Rightarrow> string" where
  "failure_of r =
     (if resp_status r = 401 then ''Unauthorized''
      else ''Request failed: '' @ resp_status_text r)"

fun fetch_settle :: "json_parser \<Rightarrow> net_outcome \<Rightarrow> (string, json) result" where
  "fetch_settle parse (NetError msg) = Inl msg"
| "fetch_settle parse (NetResponse r) =
     (if \<not> resp_ok r then Inl (failure_of r)
      else (case parse (resp_body r) of Inl msg \<Rightarrow> Inl msg | Inr j \<Rightarrow> Inr j))"

definition api_fetch ::
  "json_parser \<Rightarrow> (request \<Rightarrow> net_outcome) \<Rightarrow> local_storage \<Rightarrow> string \<Rightarrow> request_init option
     \<Rightarrow> (string, json) result" where
  "api_fetch parse net ls path opts = fetch_settle parse (net (fetch_request ls path opts))"

section \<open>The wrapper \<open>api.fetchText\<close>\<close>

text \<open>
  Here the call is \<open>fetch(url, { headers, ...options })\<close>: a \<open>headers\<close> member of the options replaces
  the merged headers.
\<close>

definition fetch_text_request :: "local_storage \<Rightarrow> string \<Rightarrow> request_init option \<Rightarrow> request" where
  "fetch_text_request ls path opts =
     (let headers = obj_spread [(''Authorization'', token_or_empty ls),
                                (''Content-Type'', ''text/plain'')] (init_headers opts);
          sent = (case opts of
                    Some i \<Rightarrow> (case ri_headers i of Some h \<Rightarrow> h | None \<Rightarrow> headers)
                  | None \<Rightarrow> headers)
      in \<lparr>req_url = ''/api'' @ path, req_method = init_method opts, req_headers = sent\<rparr>)"

fun fetch_text_settle :: "net_outcome \<Rightarrow> (string, string) result" where
  "fetch_text_settle (NetError msg) = Inl msg"
| "fetch_text_settle (NetResponse r) = (if \<not> resp_ok r then Inl (failure_of r) else Inr (resp_body r))"

definition api_fetch_text ::
  "(request \<Rightarrow> net_outcome) \<Rightarrow> local_storage \<Rightarrow> string \<Rightarrow> request_init option
     \<Rightarrow> (string, string) result" where
  "api_fetch_text net ls path opts = fetch_text_settle (net (fetch_text_request ls path opts))"

section \<open>The endpoints\<close>

text \<open>Each endpoint function is a path and the options it passes to \<open>api.fetch\<close>.\<close>

type_synonym endpoint = "string \<times> request_init option"

definition post_init :: "request_init option" where
  "post_init = Some \<lparr>ri_method = Some ''POST'', ri_headers = None\<rparr>"

definition getStatus :: endpoint where "getStatus = (''/status'', None)"
definition getScanners :: endpoint where "getScanners = (''/scanners'', None)"
definition getFindings :: endpoint where "getFindings = (''/findings'', None)"
definition getBaselines :: endpoint where "getBaselines = (''/baselines'', None)"
definition getLatestResults :: endpoint where "getLatestResults = (''/results/latest'', None)"
definition triggerScan :: "string \<Rightarrow> endpoint" where
  "triggerScan plugin = (''/scanners/trigger/'' @ plugin, post_init)"
definition getSignaturesStatus :: endpoint where
  "getSignaturesStatus = (''/signatures/status'', None)"
definition triggerSignaturesUpdate :: endpoint where
  "triggerSignaturesUpdate = (''/signatures/update'', post_init)"

definition endpoint_request :: "local_storage \<Rightarrow> endpoint \<Rightarrow> request" where
  "endpoint_request ls e = fetch_request ls (fst e) (snd e)"

section \<open>\<open>Number(s)\<close>\<close>

definition pow10 :: "int \<Rightarrow> rat" where
  "pow10 k = (if 0 \<le> k then 10 ^ nat k else 1 / 10 ^ nat (- k))"

text \<open>A decimal exponent part: nothing, or \<open>e\<close>, an optional sign and at least one digit.\<close>

fun exponent_part :: "string \<Rightarrow> int option" where
  "exponent_part [] = Some 0"
| "exponent_part (c # s) =
     (if c \<noteq> CHR ''e'' \<and> c \<noteq> CHR ''E'' then None
      else let (sg, ds) = (case s of
                    [] \<Rightarrow> (1, [])
                  | d # u \<Rightarrow> if d = CHR ''-'' then (- 1, u) else if d = CHR ''+'' then (1, u) else (1, s))
           in if ds \<noteq> [] \<and> list_all is_digit ds then Some (sg * int (digits_val ds)) else None)"

text \<open>An unsigned decimal literal: digits, an optional fraction, an optional exponent.\<close>

definition unsigned_decimal :: "string \<Rightarrow> rat option" where
  "unsigned_decimal s =
     (let ip = takeWhile is_digit s;
          r1 = dropWhile is_digit s;
          (fp, r2) = (case r1 of
              [] \<Rightarrow> ([], [])
            | c # u \<Rightarrow> if c = CHR ''.'' then (takeWhile is_digit u, dropWhile is_digit u) else ([], r1))
      in if ip = [] \<and> fp = [] then None
         else map_option (\<lambda>e. of_nat (digits_val (ip @ fp)) * pow10 (e - int (length fp))) (exponent_part r2))"

text \<open>Hexadecimal, octal and binary literals, which take no sign.\<close>

definition hex_val :: "char \<Rightarrow> nat option" where
  "hex_val c =
     (let n = of_char c :: nat in
      if 48 \<le> n \<and> n \<le> 57 then Some (n - 48)
      else if 97 \<le> n \<and> n \<le> 102 then Some (n - 87)
      else if 65 \<le> n \<and> n \<le> 70 then Some (n - 55) else None)"

fun radix_val :: "nat \<Rightarrow> nat \<Rightarrow> string \<Rightarrow> nat option" where
  "radix_val b acc [] = Some acc"
| "radix_val b acc (c # s) =
     (case hex_val c of Some d \<Rightarrow> if d < b then radix_val b (b * acc + d) s else None | None \<Rightarrow> None)"

definition radix_literal :: "string \<Rightarrow> rat option option" where
  "radix_literal s =
     (case s of
        z # x # ds \<Rightarrow>
          if z \<noteq> CHR ''0'' then None
          else let b = (if x = CHR ''x'' \<or> x = CHR ''X'' then 16
                        else if x = CHR ''o'' \<or> x = CHR ''O'' then 8
                        else if x = CHR ''b'' \<or> x = CHR ''B'' then 2 else 0) in
            if b = 0 then None
            else Some (if ds = [] then None else map_option of_nat (radix_val b 0 ds))
      | _ \<Rightarrow> None)"

definition signed_literal :: "string \<Rightarrow> f64" where
  "signed_literal s =
     (let (neg, u) = (case s of
             [] \<Rightarrow> (False, [])
           | c # r \<Rightarrow> if c = CHR ''-'' then (True, r) else if c = CHR ''+'' then (False, r) else (False, s));
          mag = (if u = ''Infinity'' then PosInf
                 else (case unsigned_decimal u of Some q \<Rightarrow> rnd64 q | None \<Rightarrow> NaN))
      in if neg then f_neg mag else mag)"

definition js_number :: "string \<Rightarrow> f64" where
  "js_number s =
     (let t = trim_space s in
      if t = [] then Fin 0
      else (case radix_literal t of
              Some (Some q) \<Rightarrow> rnd64 q
            | Some None \<Rightarrow> NaN
            | None \<Rightarrow> signed_literal t))"

section \<open>The metrics text\<close>

type_synonym metrics = "string \<rightharpoonup> f64"

text \<open>
  \<open>parsed[name] = value\<close> on a plain object: assigning a number to \<open>__proto__\<close> has no effect, every
  other name becomes an own property.
\<close>

definition metrics_set :: "metrics \<Rightarrow> string \<Rightarrow> f64 \<Rightarrow> metrics" where
  "metrics_set m name v = (if name = ''__proto__'' then m else m(name \<mapsto> v))"

definition metrics_line :: "metrics \<Rightarrow> string \<Rightarrow> metrics" where
  "metrics_line parsed line =
     (let trimmed = trim_space line in
      if trimmed = [] \<or> has_prefix trimmed ''#'' then parsed
      else let parts = split_ws trimmed in
        if length parts < 2 then parsed
        else let name = parts ! 0; value = js_number (parts ! 1) in
          if is_finite value then metrics_set parsed name value else parsed)"

definition parse_metrics :: "string \<Rightarrow> metrics" where
  "parse_metrics raw = foldl metrics_line Map.empty (split_on newline raw)"

definition getMetrics ::
  "(request \<Rightarrow> net_outcome) \<Rightarrow> local_storage \<Rightarrow> (string, metrics) result" where
  "getMetrics net ls =
     (case api_fetch_text net ls ''/metrics'' None of
        Inl e \<Rightarrow> Inl e
      | Inr raw \<Rightarrow> Inr (parse_metrics raw))"

section \<open>Facts about the wrappers\<close>

lemma fetch_request_auth:
  assumes "map_of (init_headers opts) ''Authorization'' = None"
  shows "map_of (req_headers (fetch_request ls path opts)) ''Authorization'' = Some (token_or_empty ls)"
proof -
  have "map_of (rev (init_headers opts)) ''Authorization'' = None"
    using assms by (simp add: map_of_eq_None_iff)
  then show ?thesis
    by (simp add: fetch_request_def Let_def map_of_obj_spread map_add_def)
qed

lemma token_or_empty_set [simp]: "token_or_empty (setToken ls t) = t"
  by (simp add: token_or_empty_def getToken_def setToken_def)

lemma endpoint_request_simps [run_simps]:
  "req_url (endpoint_request ls (path, opts)) = ''/api'' @ path"
  "req_method (endpoint_request ls (path, opts)) = init_method opts"
  by (simp_all add: endpoint_request_def fetch_request_def)

lemma init_headers_endpoints [simp]:
  "init_headers None = []" "init_headers post_init = []"
  by (simp_all add: init_headers_def post_init_def)

lemma init_method_endpoints [simp]:
  "init_method None = ''GET''" "init_method post_init = ''POST''"
  by (simp_all add: init_method_def post_init_def)

lemmas endpoint_defs =
  getStatus_def getScanners_def getFindings_def getBaselines_def getLatestResults_def
  triggerScan_def getSignaturesStatus_def triggerSignaturesUpdate_def

lemma fetch_settle_ok:
  "resp_ok r \<Longrightarrow> parse (resp_body r) = Inr j \<Longrightarrow> fetch_settle parse (NetResponse r) = Inr j"
  by simp

lemma fetch_settle_Inr_iff:
  "fetch_settle parse out = Inr j \<longleftrightarrow>
     (\<exists>r. out = NetResponse r \<and> resp_ok r \<and> parse (resp_body r) = Inr j)"
  by (cases out) (auto split: sum.splits)

section \<open>Facts about \<open>Number\<close> on decimal numerals\<close>

lemma list_all_digit_takeWhile:
  "list_all is_digit s \<Longrightarrow> takeWhile is_digit s = s"
  "list_all is_digit s \<Longrightarrow> dropWhile is_digit s = []"
  by (induction s) auto

lemma unsigned_decimal_digits:
  assumes "list_all is_digit s" "s \<noteq> []"
  shows "unsigned_decimal s = Some (of_nat (digits_val s))"
  using assms by (simp add: unsigned_decimal_def list_all_digit_takeWhile pow10_def)

lemma is_digit_not:
  "is_digit c \<Longrightarrow> c \<noteq> CHR ''-''" "is_digit c \<Longrightarrow> c \<noteq> CHR ''+''" "is_digit c \<Longrightarrow> c \<noteq> CHR ''I''"
  "is_digit c \<Longrightarrow> c \<noteq> CHR ''x''" "is_digit c \<Longrightarrow> c \<noteq> CHR ''X''" "is_digit c \<Longrightarrow> c \<noteq> CHR ''o''"
  "is_digit c \<Longrightarrow> c \<noteq> CHR ''O''" "is_digit c \<Longrightarrow> c \<noteq> CHR ''b''" "is_digit c \<Longrightarrow> c \<noteq> CHR ''B''"
  by (auto simp: is_digit_def)

lemma radix_literal_digits:
  assumes "list_all is_digit s"
  shows "radix_literal s = None"
proof (cases s)
  case (Cons z u)
  show ?thesis
  proof (cases u)
    case (Cons x ds)
    with assms \<open>s = z # u\<close> have "is_digit x" by simp
    then show ?thesis using Cons \<open>s = z # u\<close> by (simp add: radix_literal_def is_digit_not)
  qed (simp add: radix_literal_def \<open>s = z # u\<close>)
qed (simp add: radix_literal_def)

lemma radix_literal_minus: "radix_literal (CHR ''-'' # s) = None"
  by (cases s) (simp_all add: radix_literal_def)

lemma js_number_show_nat: "js_number (show_nat n) = rnd64 (of_nat n)"
proof -
  let ?s = "show_nat n"
  obtain c u where s: "?s = c # u" by (cases ?s) auto
  have d: "list_all is_digit ?s" by (rule show_nat_digits)
  with s have c: "is_digit c" by simp
  have "signed_literal ?s = rnd64 (of_nat n)"
    using c d unsigned_decimal_digits [OF d] by (simp add: signed_literal_def s is_digit_not)
       (metis digits_val_show_nat s)
  then show ?thesis
    using d by (simp add: js_number_def trim_space_no_space radix_literal_digits)
qed

lemma js_number_show_int: "js_number (show_int i) = f_of_int i"
proof (cases "i < 0")
  case False
  then show ?thesis by (simp add: show_int_def js_number_show_nat f_of_int_def)
next
  case True
  let ?s = "show_nat (nat (- i))"
  have d: "list_all is_digit ?s" by (rule show_nat_digits)
  have inf: "?s \<noteq> ''Infinity''" using d is_digit_not(3) [of "CHR ''I''"] by fastforce
  have ns: "no_space (CHR ''-'' # ?s)" by (simp add: is_space_def)
  have "signed_literal (CHR ''-'' # ?s) = f_neg (rnd64 (of_nat (nat (- i))))"
    using inf unsigned_decimal_digits [OF d] by (simp add: signed_literal_def)
  also have "\<dots> = f_of_int i"
    using True by (simp add: f_of_int_def rnd64_neg [symmetric])
  finally show ?thesis
    using True ns
    by (simp add: show_int_def js_number_def trim_space_no_space radix_literal_minus del: no_space_simps)
qed

section \<open>Facts about the metrics text\<close>

text \<open>One gauge line of the text format: a name, a blank and an integer.\<close>

definition gauge_text :: "string \<times> int \<Rightarrow> string" where
  "gauge_text g = fst g @ '' '' @ show_int (snd g)"

definition gauge_name_ok :: "string \<Rightarrow> bool" where
  "gauge_name_ok n \<longleftrightarrow> n \<noteq> [] \<and> no_space n \<and> \<not> has_prefix n ''#'' \<and> n \<noteq> ''__proto__''"

lemma show_int_no_space [simp]: "no_space (show_int i)"
  by (simp add: show_int_def is_space_def)

lemma show_int_nonempty [simp]: "show_int i \<noteq> []"
  by (simp add: show_int_def)

lemma metrics_line_gauge:
  assumes "gauge_name_ok n" "\<bar>i\<bar> \<le> 2 ^ 53"
  shows "metrics_line m (gauge_text (n, i)) = m(n \<mapsto> Fin (of_int i))"
proof -
  from assms(1) have n: "n \<noteq> []" "no_space n" "\<not> has_prefix n ''#''" "n \<noteq> ''__proto__''"
    by (auto simp: gauge_name_ok_def)
  let ?l = "n @ CHR '' '' # show_int i"
  have t: "trim_space ?l = ?l" using n by (intro trim_space_two) auto
  have h: "\<not> has_prefix ?l ''#''" using n by (cases n) auto
  have sp: "split_ws ?l = [n, show_int i]"
    using n by (intro split_ws_two) (auto simp: is_space_def)
  show ?thesis
    using n t h sp f_of_int_exact [OF assms(2)]
    by (simp add: metrics_line_def gauge_text_def Let_def js_number_show_int is_finite_def metrics_set_def)
qed

lemma metrics_line_empty [simp]: "metrics_line m [] = m"
  by (simp add: metrics_line_def trim_space_def trim_left_def)

lemma newline_notin_no_space: "no_space s \<Longrightarrow> newline \<notin> set s"
  by (auto simp: no_space_def list_all_iff newline_def is_space_def)

lemma newline_notin_gauge: "gauge_name_ok n \<Longrightarrow> newline \<notin> set (gauge_text (n, i))"
proof -
  assume "gauge_name_ok n"
  then have "newline \<notin> set n" by (simp add: gauge_name_ok_def newline_notin_no_space)
  moreover have "newline \<notin> set (show_int i)" by (simp add: newline_notin_no_space)
  moreover have "newline \<noteq> CHR '' ''" by (simp add: newline_def)
  ultimately show ?thesis by (simp add: gauge_text_def)
qed

lemma parse_metrics_gauges:
  assumes "list_all (\<lambda>(n, i). gauge_name_ok n \<and> \<bar>i\<bar> \<le> 2 ^ 53) gs"
  shows "foldl metrics_line m (split_on newline (concat (map (\<lambda>g. gauge_text g @ [newline]) gs)))
     = m ++ map_of (rev (map (\<lambda>(n, i). (n, Fin (of_int i))) gs))"
  using assms
proof (induction gs arbitrary: m)
  case (Cons g gs)
  obtain n i where g: "g = (n, i)" by (cases g)
  with Cons.prems have "gauge_name_ok n" "\<bar>i\<bar> \<le> 2 ^ 53" by auto
  then show ?case
    using Cons g
    by (simp add: split_on_append newline_notin_gauge metrics_line_gauge map_add_upd_left
        del: map_add_upd)
       (simp add: map_add_def fun_eq_iff split: option.splits)
qed simp

section \<open>Properties\<close>

text \<open>A call of \<open>api.fetch\<close> resolves exactly when the browser's \<open>fetch\<close> resolves to a response with a
  status from 200 to 299 whose body parses, and then to the parsed document; the request it sends goes
  to the path under \<open>/api\<close> and carries the stored token, if the caller names no \<open>Authorization\<close> of its own.\<close>

theorem api_fetch_resolves_iff:
  assumes "map_of (init_headers opts) ''Authorization'' = None"
  shows "(api_fetch parse net ls path opts = Inr j \<longleftrightarrow>
       (\<exists>req r. req_url req = ''/api'' @ path \<and> req_method req = init_method opts
          \<and> map_of (req_headers req) ''Authorization'' = Some (token_or_empty ls)
          \<and> req = fetch_request ls path opts \<and> net req = NetResponse r
          \<and> 200 \<le> resp_status r \<and> resp_status r \<le> 299 \<and> parse (resp_body r) = Inr j))"
proof -
  have "req_url (fetch_request ls path opts) = ''/api'' @ path"
    "req_method (fetch_request ls path opts) = init_method opts"
    by (simp_all add: fetch_request_def)
  with fetch_request_auth [OF assms] show ?thesis
    unfolding api_fetch_def fetch_settle_Inr_iff resp_ok_def by auto
qed

theorem api_fetch_resolves_iff_witness:
  "api_fetch (\<lambda>s. Inr (JStr s)) (\<lambda>req. NetResponse \<lparr>resp_status = 200, resp_status_text = ''OK'', resp_body = ''b''\<rparr>)
     Map.empty ''/status'' None = Inr (JStr ''b'')"
  by (subst api_fetch_resolves_iff) (simp_all add: fetch_request_def token_or_empty_def getToken_def)

text \<open>The options of \<open>api.fetchText\<close> replace the headers the wrapper merged: a caller that passes
  headers of its own sends no token, where \<open>api.fetch\<close> with the same options sends it.\<close>

theorem fetch_text_loses_token:
  "map_of (req_headers (fetch_text_request ls path
       (Some \<lparr>ri_method = meth, ri_headers = Some [(''Accept'', v)]\<rparr>))) ''Authorization'' = None
   \<and> map_of (req_headers (fetch_request ls path
       (Some \<lparr>ri_method = meth, ri_headers = Some [(''Accept'', v)]\<rparr>))) ''Authorization'' = Some (token_or_empty ls)"
proof
  show "map_of (req_headers (fetch_text_request ls path
       (Some \<lparr>ri_method = meth, ri_headers = Some [(''Accept'', v)]\<rparr>))) ''Authorization'' = None"
    by (simp add: fetch_text_request_def Let_def)
  show "map_of (req_headers (fetch_request ls path
       (Some \<lparr>ri_method = meth, ri_headers = Some [(''Accept'', v)]\<rparr>))) ''Authorization'' = Some (token_or_empty ls)"
    by (rule fetch_request_auth) (simp add: init_headers_def)
qed

end
