(* ===== verification/WebScanners.thy ===== *)
theory WebScanners
  imports WebDom WebApi
begin

text \<open>
  The scanners page, \<open>web/src/pages/Scanners.tsx\<close>, as a state machine: the list of plugins, the
  loading flags and the trigger requests the browser has not settled yet. React handles a click
  before the next one, and a button that is rendered disabled receives none, so a click is a step
  that is possible only on a rendered, enabled button.
\<close>

section \<open>State and steps\<close>

record scanners_state =
  sc_scanners :: jsval
  sc_loading :: "(string \<times> bool) list"
  sc_pending :: "string list"

definition scanners_init :: scanners_state where
  "scanners_init = \<lparr>sc_scanners = Some (JArr []), sc_loading = [], sc_pending = []\<rparr>"

text \<open>\<open>String(plugin)\<close>, the property key and the URL segment a list element stands for.\<close>

definition plugin_key :: "host \<Rightarrow> json \<Rightarrow> string" where
  "plugin_key H p = (case p of JStr s \<Rightarrow> s | _ \<Rightarrow> host_string H p)"

text \<open>\<open>.then((data) => setScanners(data.plugins || [])).catch(console.error)\<close>\<close>

definition scanners_settled :: "scanners_state \<Rightarrow> (string, json) result \<Rightarrow> scanners_state" where
  "scanners_settled s r =
     (case r of
        Inl msg \<Rightarrow> s
      | Inr data \<Rightarrow>
          (case js_prop (Some data) ''plugins'' of
             Inl e \<Rightarrow> s
           | Inr v \<Rightarrow> s\<lparr>sc_scanners := js_or v (Some (JArr []))\<rparr>))"

definition loading_of :: "scanners_state \<Rightarrow> string \<Rightarrow> bool option" where
  "loading_of s k = map_of (sc_loading s) k"

text \<open>
  \<open>handleTrigger\<close> up to its \<open>await\<close>, and from there on: whatever the outcome, the error is logged
  and the \<open>finally\<close> block clears the flag.
\<close>

definition trigger_click :: "scanners_state \<Rightarrow> string \<Rightarrow> scanners_state" where
  "trigger_click s k =
     s\<lparr>sc_loading := obj_spread (sc_loading s) [(k, True)], sc_pending := sc_pending s @ [k]\<rparr>"

definition trigger_settled :: "scanners_state \<Rightarrow> string \<Rightarrow> (string, json) result \<Rightarrow> scanners_state" where
  "trigger_settled s k r =
     s\<lparr>sc_loading := obj_spread (sc_loading s) [(k, False)], sc_pending := remove1 k (sc_pending s)\<rparr>"

definition trigger_request :: "local_storage \<Rightarrow> string \<Rightarrow> request" where
  "trigger_request ls k = endpoint_request ls (triggerScan k)"

section \<open>Rendering\<close>

datatype scanners_handler = TriggerHandler string

definition loading_attr :: "bool option \<Rightarrow> 'h attr" where
  "loading_attr v = (case v of Some b \<Rightarrow> ABool b | None \<Rightarrow> AUndef)"

definition trigger_button ::
  "scanners_handler clsx \<Rightarrow> scanners_state \<Rightarrow> string \<Rightarrow> scanners_handler node" where
  "trigger_button clsx s k =
     Button clsx
       [(''variant'', AStr ''secondary''), (''size'', AStr ''sm''), (''className'', AStr ''w-full''),
        (''onClick'', AFun (TriggerHandler k)), (''isLoading'', loading_attr (loading_of s k))]
       [when_node (loading_of s k \<noteq> Some True) (El ''Play'' [(''className'', AStr ''mr-2 h-3 w-3'')] []),
        Txt ''Trigger Scan'']"

definition scanner_card ::
  "host \<Rightarrow> scanners_handler clsx \<Rightarrow> scanners_state \<Rightarrow> json \<Rightarrow> scanners_handler node" where
  "scanner_card H clsx s plugin =
     Card clsx [(''key'', AStr (plugin_key H plugin))]
       [CardHeader clsx [(''className'', AStr ''flex flex-row items-center justify-between space-y-0 pb-2'')]
          [CardTitle clsx [(''className'', AStr ''text-base font-medium'')] [Val (Some plugin)],
           Badge clsx [(''variant'', AStr ''outline'')] [Txt ''Idle'']],
        CardContent clsx []
          [El ''div'' [(''className'', AStr ''pt-4'')] [trigger_button clsx s (plugin_key H plugin)]]]"

definition render_scanners ::
  "host \<Rightarrow> scanners_handler clsx \<Rightarrow> scanners_state \<Rightarrow> (js_error, scanners_handler node) result" where
  "render_scanners H clsx s =
     (case sc_scanners s of
        Some (JArr ps) \<Rightarrow>
          Inr (El ''div'' [(''className'', AStr ''space-y-6'')]
            [El ''h1'' [(''className'', AStr ''text-3xl font-bold tracking-tight'')] [Txt ''Scanners''],
             El ''p'' [(''className'', AStr ''text-[var(--muted)]'')]
               [Txt ''Manage and trigger security scanners.''],
             El ''div'' [(''className'', AStr ''grid gap-4 md:grid-cols-2 lg:grid-cols-3'')]
               (map (scanner_card H clsx s) ps
                @ [when_node (length ps = 0)
                     (El ''div'' [(''className'', AStr ''col-span-full text-center text-[var(--muted)] py-12'')]
                       [Txt ''No scanners registered. Check your configuration.''])])])
      | _ \<Rightarrow> Inl JsTypeError)"

text \<open>
  A click reaches the handler of an enabled button of the rendered page. \<open>disabled\<close> is the attribute
  the button renders.
\<close>

definition clickable :: "host \<Rightarrow> scanners_handler clsx \<Rightarrow> scanners_state \<Rightarrow> string \<Rightarrow> bool" where
  "clickable H clsx s k \<longleftrightarrow>
     (case render_scanners H clsx s of
        Inl e \<Rightarrow> False
      | Inr t \<Rightarrow> list_ex (\<lambda>b. node_attr b ''onClick'' = AFun (TriggerHandler k)
                   \<and> \<not> attr_truthy (node_attr b ''disabled'')) (elements ''button'' t))"

inductive scanners_step ::
  "host \<Rightarrow> scanners_handler clsx \<Rightarrow> scanners_state \<Rightarrow> scanners_state \<Rightarrow> bool" for H clsx where
  Loaded: "scanners_step H clsx s (scanners_settled s r)"
| Click: "clickable H clsx s k \<Longrightarrow> scanners_step H clsx s (trigger_click s k)"
| Settle: "k \<in> set (sc_pending s) \<Longrightarrow> scanners_step H clsx s (trigger_settled s k r)"

inductive scanners_reachable :: "host \<Rightarrow> scanners_handler clsx \<Rightarrow> scanners_state \<Rightarrow> bool" for H clsx where
  Start: "scanners_reachable H clsx scanners_init"
| Step: "scanners_reachable H clsx s \<Longrightarrow> scanners_step H clsx s t \<Longrightarrow> scanners_reachable H clsx t"

section \<open>Invariant\<close>

text \<open>A flag is set exactly while the one outstanding request of its plugin is.\<close>

definition scanners_inv :: "scanners_state \<Rightarrow> bool" where
  "scanners_inv s \<longleftrightarrow>
     distinct (sc_pending s) \<and> (\<forall>k. loading_of s k = Some True \<longleftrightarrow> k \<in> set (sc_pending s))"

lemma trigger_button_attrs:
  "node_attr (trigger_button clsx s k) ''onClick'' = AFun (TriggerHandler k)"
  "attr_truthy (node_attr (trigger_button clsx s k) ''disabled'') \<longleftrightarrow> loading_of s k = Some True"
proof -
  show "node_attr (trigger_button clsx s k) ''onClick'' = AFun (TriggerHandler k)"
    unfolding trigger_button_def by (rule button_other_attr) simp_all
  show "attr_truthy (node_attr (trigger_button clsx s k) ''disabled'') \<longleftrightarrow> loading_of s k = Some True"
    by (simp add: trigger_button_def button_disabled_attr prop_default_def prop_of_def loading_attr_def
        split: option.split)
qed

lemma elements_button_card:
  "elements ''button'' (scanner_card H clsx s p) = [trigger_button clsx s (plugin_key H p)]"
proof -
  have "elements ''button'' (trigger_button clsx s k) = [trigger_button clsx s k]" for k
    unfolding trigger_button_def by (rule elements_button_Button) (simp add: when_node_def)
  then show ?thesis by (simp add: scanner_card_def dom_simps)
qed

lemma clickable_iff:
  "clickable H clsx s k \<longleftrightarrow>
     (\<exists>ps. sc_scanners s = Some (JArr ps) \<and> k \<in> plugin_key H ` set ps) \<and> loading_of s k \<noteq> Some True"
proof (cases "\<exists>ps. sc_scanners s = Some (JArr ps)")
  case True
  then obtain ps where ps: "sc_scanners s = Some (JArr ps)" by blast
  have "concat (map (elements ''button'') (map (scanner_card H clsx s) ps))
      = map (\<lambda>p. trigger_button clsx s (plugin_key H p)) ps"
    by (induction ps) (auto simp: elements_button_card)
  then show ?thesis
    by (auto simp: clickable_def render_scanners_def ps when_node_def list_ex_iff trigger_button_attrs)
next
  case False
  then have "render_scanners H clsx s = Inl JsTypeError"
    by (simp add: render_scanners_def split: option.splits json.splits)
  with False show ?thesis by (simp add: clickable_def)
qed

lemma loading_of_simps [run_simps]:
  "loading_of (trigger_click s k) = (loading_of s)(k \<mapsto> True)"
  "loading_of (trigger_settled s k r) = (loading_of s)(k \<mapsto> False)"
  "loading_of (scanners_settled s r') = loading_of s"
  by (auto simp: loading_of_def trigger_click_def trigger_settled_def scanners_settled_def fun_eq_iff
      split: sum.splits)

lemma pending_simps [run_simps]:
  "sc_pending (trigger_click s k) = sc_pending s @ [k]"
  "sc_pending (trigger_settled s k r) = remove1 k (sc_pending s)"
  "sc_pending (scanners_settled s r') = sc_pending s"
  by (auto simp: trigger_click_def trigger_settled_def scanners_settled_def split: sum.splits)

lemma scanners_inv_init [inv_intros]: "scanners_inv scanners_init"
  by (simp add: scanners_inv_def scanners_init_def loading_of_def)

lemma scanners_inv_step [inv_intros]:
  "scanners_step H clsx s t \<Longrightarrow> scanners_inv s \<Longrightarrow> scanners_inv t"
proof (induction rule: scanners_step.induct)
  case (Loaded s r)
  then show ?case by (simp add: scanners_inv_def run_simps)
next
  case (Click s k)
  then show ?case by (auto simp: scanners_inv_def run_simps clickable_iff)
next
  case (Settle k s r)
  then show ?case by (auto simp: scanners_inv_def run_simps)
qed

lemma scanners_reachable_inv: "scanners_reachable H clsx s \<Longrightarrow> scanners_inv s"
  by (induction rule: scanners_reachable.induct) (auto intro: inv_intros)

section \<open>Properties\<close>

text \<open>C10 On the scanners page no plugin has two trigger requests outstanding, and its button can be
  clicked exactly when the plugin is listed and no request of it is outstanding.\<close>

theorem scanners_single_trigger:
  assumes "scanners_reachable H clsx s"
  shows "distinct (sc_pending s)
    \<and> (clickable H clsx s k \<longleftrightarrow>
        (\<exists>ps. sc_scanners s = Some (JArr ps) \<and> k \<in> plugin_key H ` set ps) \<and> k \<notin> set (sc_pending s))"
  using scanners_reachable_inv [OF assms] by (auto simp: scanners_inv_def clickable_iff)

definition sample_scanners :: scanners_state where
  "sample_scanners =
     trigger_click (scanners_settled scanners_init (Inr (JObj [(''plugins'', JArr [JStr ''a'', JStr ''b''])]))) ''a''"

theorem scanners_single_trigger_witness:
  "distinct (sc_pending sample_scanners)
    \<and> (clickable plain_host no_clsx sample_scanners ''b'' \<longleftrightarrow>
        (\<exists>ps. sc_scanners sample_scanners = Some (JArr ps) \<and> ''b'' \<in> plugin_key plain_host ` set ps)
        \<and> ''b'' \<notin> set (sc_pending sample_scanners))"
proof (rule scanners_single_trigger)
  let ?s = "scanners_settled scanners_init (Inr (JObj [(''plugins'', JArr [JStr ''a'', JStr ''b''])]))"
  have 1: "scanners_reachable plain_host no_clsx ?s"
    by (rule scanners_reachable.Step [OF scanners_reachable.Start scanners_step.Loaded])
  have "clickable plain_host no_clsx ?s ''a''"
    by (simp add: clickable_iff scanners_settled_def scanners_init_def obj_get_def js_or_def plugin_key_def
        loading_of_def)
  then show "scanners_reachable plain_host no_clsx sample_scanners"
    unfolding sample_scanners_def by (intro scanners_reachable.Step [OF 1] scanners_step.Click)
qed

end
