(* ===== verification/WebTypes.thy ===== *)
theory WebTypes
  imports Json
begin

text \<open>
  The interfaces that \<open>web/src/lib/api.ts\<close> declares for the documents of the server. TypeScript erases
  them, so nothing checks a document at run time; here they are types with a membership test, and the
  wire theory proves which documents of the server have them.
\<close>

datatype ts_type =
    TsString
  | TsNumber
  | TsBoolean
  | TsArray ts_type
  | TsRecord ts_type \<comment> \<open>\<open>Record<string, T>\<close>\<close>
  | TsInterface "(string \<times> bool \<times> ts_type) list" \<comment> \<open>name, optional, type\<close>

text \<open>
  A field is judged by its last occurrence, as the client reads it; an optional one may be absent. A
  document may have further fields.
\<close>

fun has_type :: "ts_type \<Rightarrow> json \<Rightarrow> bool" where
  "has_type TsString j \<longleftrightarrow> (case j of JStr s \<Rightarrow> True | _ \<Rightarrow> False)"
| "has_type TsNumber j \<longleftrightarrow> (case j of JNum q \<Rightarrow> True | _ \<Rightarrow> False)"
| "has_type TsBoolean j \<longleftrightarrow> (case j of JBool b \<Rightarrow> True | _ \<Rightarrow> False)"
| "has_type (TsArray t) j \<longleftrightarrow> (case j of JArr xs \<Rightarrow> list_all (has_type t) xs | _ \<Rightarrow> False)"
| "has_type (TsRecord t) j \<longleftrightarrow> (case j of JObj kvs \<Rightarrow> list_all (\<lambda>kv. has_type t (snd kv)) kvs | _ \<Rightarrow> False)"
| "has_type (TsInterface fs) j \<longleftrightarrow>
     (case j of
        JObj kvs \<Rightarrow> list_all (\<lambda>f. case obj_get kvs (fst f) of
            None \<Rightarrow> fst (snd f) | Some v \<Rightarrow> has_type (snd (snd f)) v) fs
      | _ \<Rightarrow> False)"

abbreviation must :: "string \<Rightarrow> ts_type \<Rightarrow> string \<times> bool \<times> ts_type" where
  "must k t \<equiv> (k, False, t)"

abbreviation may :: "string \<Rightarrow> ts_type \<Rightarrow> string \<times> bool \<times> ts_type" where
  "may k t \<equiv> (k, True, t)"

definition Finding_type :: ts_type where
  "Finding_type = TsInterface
     [must ''scanner_name'' TsString, must ''severity'' TsString, must ''category'' TsString,
      must ''description'' TsString, must ''occurred_at'' TsString, may ''remediation'' TsString,
      may ''evidence'' (TsRecord TsString)]"

definition Baseline_type :: ts_type where
  "Baseline_type = TsInterface
     [must ''metric'' TsString, must ''mean'' TsNumber, must ''min'' TsNumber, must ''max'' TsNumber]"

definition SystemStatus_type :: ts_type where
  "SystemStatus_type = TsInterface
     [must ''status'' TsString, must ''running_as_root'' TsBoolean, must ''version'' TsString]"

definition SignatureSourceStatus_type :: ts_type where
  "SignatureSourceStatus_type = TsInterface
     [must ''source'' TsString, may ''url'' TsString, may ''path'' TsString, may ''bytes'' TsNumber,
      may ''updated_at'' TsString, may ''duration'' TsString, may ''error'' TsString]"

definition SignatureStatus_type :: ts_type where
  "SignatureStatus_type = TsInterface
     [may ''last_run'' TsString, may ''next_run'' TsString, may ''airgap_mode'' TsBoolean,
      may ''airgap_import_path'' TsString, may ''sources'' (TsRecord SignatureSourceStatus_type)]"

text \<open>The result types of the endpoints the pages call.\<close>

datatype client_call = TypedStatus | TypedFindings | TypedBaselines | TypedSignatures

fun call_path :: "client_call \<Rightarrow> string" where
  "call_path TypedStatus = ''/status''"
| "call_path TypedFindings = ''/findings''"
| "call_path TypedBaselines = ''/baselines''"
| "call_path TypedSignatures = ''/signatures/status''"

fun call_type :: "client_call \<Rightarrow> ts_type" where
  "call_type TypedStatus = SystemStatus_type"
| "call_type TypedFindings = TsArray Finding_type"
| "call_type TypedBaselines = TsArray Baseline_type"
| "call_type TypedSignatures = SignatureStatus_type"

section \<open>What a type gives the pages\<close>

lemma has_type_iffs:
  "has_type TsString j \<longleftrightarrow> (\<exists>s. j = JStr s)"
  "has_type TsNumber j \<longleftrightarrow> (\<exists>q. j = JNum q)"
  "has_type TsBoolean j \<longleftrightarrow> (\<exists>b. j = JBool b)"
  "has_type (TsArray t) j \<longleftrightarrow> (\<exists>xs. j = JArr xs \<and> list_all (has_type t) xs)"
  "has_type (TsRecord t) j \<longleftrightarrow> (\<exists>kvs. j = JObj kvs \<and> list_all (\<lambda>kv. has_type t (snd kv)) kvs)"
  by (cases j; simp)+

declare has_type.simps(1-5) [simp del] has_type_iffs [simp]

lemma has_type_field:
  assumes "has_type (TsInterface fs) j" "must k t \<in> set fs"
  shows "\<exists>v. js_prop (Some j) k = Inr (Some v) \<and> has_type t v"
  using assms by (cases j) (auto simp: list_all_iff split: option.splits)

lemma has_type_field_string:
  assumes "has_type (TsInterface fs) j" "must k TsString \<in> set fs"
  shows "\<exists>s. js_prop (Some j) k = Inr (Some (JStr s))"
  using has_type_field [OF assms] by auto

lemma has_type_optional:
  assumes "has_type (TsInterface fs) j" "may k t \<in> set fs"
  shows "\<exists>v. js_prop (Some j) k = Inr v \<and> (v = None \<or> (\<exists>u. v = Some u \<and> has_type t u))"
  using assms by (cases j) (auto simp: list_all_iff split: option.splits)

lemma has_type_mono:
  assumes "has_type (TsInterface fs) j" "set gs \<subseteq> set fs"
  shows "has_type (TsInterface gs) j"
  using assms by (cases j) (auto simp: list_all_iff)

end
