(* ===== verification/WebFindings.thy ===== *)
theory WebFindings
  imports WebDom WebApi WebTypes
begin

text \<open>
  The findings page, \<open>web/src/pages/Findings.tsx\<close>: its one state variable, the request it makes
  when it is mounted, and its table. The state holds the value the server sent, unchecked. Rendering
  can throw, on a value of the wrong shape and on a time that is not a date; the page has no error
  boundary. \<open>Date\<close> parsing and date-fns' \<open>format\<close> are parameters.
\<close>

text \<open>\<open>format(new Date(v), "PPpp")\<close> throws a \<open>RangeError\<close> on an invalid date.\<close>

definition format_PPpp :: "host \<Rightarrow> jsval \<Rightarrow> (js_error, string) result" where
  "format_PPpp H v = (case host_time H v of Some t \<Rightarrow> Inr (host_PPpp H t) | None \<Rightarrow> Inl JsRangeError)"

section \<open>State\<close>

record findings_state =
  fs_findings :: jsval

definition findings_init :: findings_state where
  "findings_init = \<lparr>fs_findings = Some (JArr [])\<rparr>"

text \<open>
  The effect: \<open>api.getFindings().then(setFindings).catch(console.error)\<close>. The outcome of the request
  either replaces the state or is logged.
\<close>

definition findings_settled :: "findings_state \<Rightarrow> (string, json) result \<Rightarrow> findings_state" where
  "findings_settled s r = (case r of Inl e \<Rightarrow> s | Inr j \<Rightarrow> s\<lparr>fs_findings := Some j\<rparr>)"

definition findings_page_load ::
  "json_parser \<Rightarrow> (request \<Rightarrow> net_outcome) \<Rightarrow> local_storage \<Rightarrow> findings_state" where
  "findings_page_load parse net ls =
     findings_settled findings_init (api_fetch parse net ls (fst getFindings) (snd getFindings))"

section \<open>Rendering\<close>

definition severity_variant :: "string \<Rightarrow> string" where
  "severity_variant s =
     (if s = ''critical'' then ''danger''
      else if s = ''high'' then ''danger''
      else if s = ''medium'' then ''warning''
      else if s = ''low'' then ''outline''
      else ''default'')"

text \<open>\<open>severity.toLowerCase()\<close> is a \<open>TypeError\<close> on anything but a string.\<close>

fun getSeverityBadge :: "'h clsx \<Rightarrow> jsval \<Rightarrow> (js_error, 'h node) result" where
  "getSeverityBadge clsx (Some (JStr severity)) =
     Inr (Badge clsx [(''variant'', AStr (severity_variant (to_lower severity)))] [Val (Some (JStr severity))])"
| "getSeverityBadge clsx _ = Inl JsTypeError"

definition render_time :: "host \<Rightarrow> jsval \<Rightarrow> (js_error, 'h node) result" where
  "render_time H v =
     (if truthy v then bind_res (format_PPpp H v) (\<lambda>t. Inr (Txt t)) else Inr (Txt ''-''))"

definition render_finding :: "'h clsx \<Rightarrow> host \<Rightarrow> nat \<Rightarrow> json \<Rightarrow> (js_error, 'h node) result" where
  "render_finding clsx H i finding =
     bind_res (js_prop (Some finding) ''severity'') (\<lambda>severity.
     bind_res (getSeverityBadge clsx severity) (\<lambda>badge.
     bind_res (js_prop (Some finding) ''category'') (\<lambda>category.
     bind_res (js_prop (Some finding) ''scanner_name'') (\<lambda>scanner_name.
     bind_res (js_prop (Some finding) ''description'') (\<lambda>description.
     bind_res (js_prop (Some finding) ''occurred_at'') (\<lambda>occurred_at.
     bind_res (render_time H occurred_at) (\<lambda>time.
     Inr (TableRow clsx [(''key'', AInt (int i))]
       [TableCell clsx [] [badge],
        TableCell clsx [] [Badge clsx [(''variant'', AStr ''outline'')] [Val category]],
        TableCell clsx [] [Val scanner_name],
        TableCell clsx [] [Val description],
        TableCell clsx [] [time]]))))))))"

definition findings_head :: "'h clsx \<Rightarrow> 'h node" where
  "findings_head clsx =
     TableHeader clsx []
       [TableRow clsx []
          [TableHead clsx [] [Txt ''Severity''],
           TableHead clsx [] [Txt ''Category''],
           TableHead clsx [] [Txt ''Scanner''],
           TableHead clsx [] [Txt ''Description''],
           TableHead clsx [] [Txt ''Time'']]]"

definition no_findings_row :: "'h clsx \<Rightarrow> 'h node" where
  "no_findings_row clsx =
     TableRow clsx []
       [TableCell clsx
          [(''colSpan'', AInt 5), (''className'', AStr ''text-center py-8 text-[var(--muted)]'')]
          [Txt ''No findings recorded.'']]"

definition findings_frame :: "'h clsx \<Rightarrow> 'h node list \<Rightarrow> 'h node" where
  "findings_frame clsx rows =
     El ''div'' [(''className'', AStr ''space-y-6'')]
       [El ''h1'' [(''className'', AStr ''text-3xl font-bold tracking-tight'')] [Txt ''Findings''],
        Card clsx []
          [CardHeader clsx [] [CardTitle clsx [] [Txt ''Recent Activity'']],
           CardContent clsx []
             [Table clsx [] [findings_head clsx, TableBody clsx [] rows]]]]"

text \<open>\<open>findings.map(f)\<close> is a \<open>TypeError\<close> unless the value is an array.\<close>

definition render_findings ::
  "'h clsx \<Rightarrow> host \<Rightarrow> findings_state \<Rightarrow> (js_error, 'h node) result" where
  "render_findings clsx H s =
     (case fs_findings s of
        Some (JArr fs) \<Rightarrow>
          bind_res (map_res (\<lambda>(i, f). render_finding clsx H i f) (enumerate 0 fs)) (\<lambda>rows.
          Inr (findings_frame clsx (rows @ [when_node (length fs = 0) (no_findings_row clsx)])))
      | _ \<Rightarrow> Inl JsTypeError)"

section \<open>Facts about the page\<close>

text \<open>A finding the page can show: a string severity and a time that is missing, empty or a date.\<close>

definition finding_shape :: "host \<Rightarrow> json \<Rightarrow> bool" where
  "finding_shape H f =
     (case f of
        JObj kvs \<Rightarrow>
          (case obj_get kvs ''severity'' of Some (JStr s) \<Rightarrow> True | _ \<Rightarrow> False) \<and>
          (truthy (obj_get kvs ''occurred_at'') \<longrightarrow> host_time H (obj_get kvs ''occurred_at'') \<noteq> None)
      | _ \<Rightarrow> False)"

lemma getSeverityBadge_Inr_iff:
  "(\<exists>b. getSeverityBadge clsx v = Inr b) \<longleftrightarrow> (case v of Some (JStr s) \<Rightarrow> True | _ \<Rightarrow> False)"
  by (cases "(clsx, v)" rule: getSeverityBadge.cases) auto

lemma render_time_Inr_iff:
  "(\<exists>n. render_time H v = Inr n) \<longleftrightarrow> (truthy v \<longrightarrow> host_time H v \<noteq> None)"
  by (auto simp: render_time_def format_PPpp_def bind_res_Inr_iff split: option.splits)

lemma js_prop_obj_iff:
  "js_prop (Some f) k = Inr v \<longleftrightarrow> (case f of JObj kvs \<Rightarrow> v = obj_get kvs k | JNull \<Rightarrow> False | _ \<Rightarrow> v = None)"
  by (cases f) auto

lemma render_finding_Inr_iff:
  "(\<exists>row. render_finding clsx H i f = Inr row) \<longleftrightarrow> finding_shape H f"
proof (cases f)
  case (JObj kvs)
  have "(\<exists>row. render_finding clsx H i f = Inr row) \<longleftrightarrow>
      (\<exists>b. getSeverityBadge clsx (obj_get kvs ''severity'') = Inr b) \<and>
      (\<exists>n :: 'a node. render_time H (obj_get kvs ''occurred_at'') = Inr n)"
    by (auto simp: render_finding_def JObj bind_res_Inr_iff)
  then show ?thesis
    by (simp add: getSeverityBadge_Inr_iff render_time_Inr_iff finding_shape_def JObj)
qed (auto simp: render_finding_def finding_shape_def)

lemma render_findings_Inr_iff:
  "(\<exists>t. render_findings clsx H s = Inr t) \<longleftrightarrow>
     (\<exists>fs. fs_findings s = Some (JArr fs) \<and> list_all (finding_shape H) fs)"
proof (cases "fs_findings s")
  case (Some j)
  show ?thesis
  proof (cases j)
    case (JArr fs)
    have "(\<exists>rows. map_res (\<lambda>(i, f). render_finding clsx H i f) (enumerate 0 fs) = Inr rows)
        \<longleftrightarrow> list_all (finding_shape H) fs"
      unfolding map_res_is_Inr_iff list_all_length
      by (simp add: all_set_conv_all_nth nth_enumerate_eq render_finding_Inr_iff)
    then show ?thesis by (auto simp: render_findings_def Some JArr bind_res_Inr_iff)
  qed (simp_all add: render_findings_def Some)
qed (simp add: render_findings_def)

lemma render_finding_row:
  assumes "render_finding clsx H i f = Inr row"
  shows "elements ''tr'' row = [row]"
  using assms
  by (cases f)
     (auto simp: render_finding_def bind_res_Inr_iff dom_simps render_time_def
       elim!: getSeverityBadge.elims split: if_splits)

text \<open>
  The table of a page that renders: the header row, one row per finding in the server's order and,
  exactly when there is none, the row that says so.
\<close>

lemma render_findings_rows:
  assumes r: "render_findings clsx H s = Inr t" and fs: "fs_findings s = Some (JArr fs)"
  obtains rows where "length rows = length fs"
    and "\<And>i. i < length fs \<Longrightarrow> render_finding clsx H i (fs ! i) = Inr (rows ! i)"
    and "t = findings_frame clsx (rows @ [when_node (fs = []) (no_findings_row clsx)])"
    and "concat (map (elements ''tr'') rows) = rows"
proof -
  from r fs obtain rows where
    rows: "map_res (\<lambda>(i, f). render_finding clsx H i f) (enumerate 0 fs) = Inr rows"
    and t: "t = findings_frame clsx (rows @ [when_node (fs = []) (no_findings_row clsx)])"
    by (auto simp: render_findings_def bind_res_Inr_iff)
  have len: "length rows = length fs" using map_res_Inr_length [OF rows] by simp
  have nth: "render_finding clsx H i (fs ! i) = Inr (rows ! i)" if "i < length fs" for i
    using map_res_Inr_nth [OF rows, of i] that by (simp add: nth_enumerate_eq)
  have "elements ''tr'' row = [row]" if "row \<in> set rows" for row
    using that len nth render_finding_row by (metis in_set_conv_nth)
  then have "map (elements ''tr'') rows = map (\<lambda>row. [row]) rows" by (intro map_cong) auto
  then have "concat (map (elements ''tr'') rows) = concat (map (\<lambda>row. [row]) rows)" by (rule arg_cong)
  then have "concat (map (elements ''tr'') rows) = rows" by simp
  with len nth t that show ?thesis by blast
qed

lemma elements_findings_frame:
  "elements ''tr'' (findings_frame clsx rows) =
     [TableRow clsx []
        [TableHead clsx [] [Txt ''Severity''], TableHead clsx [] [Txt ''Category''],
         TableHead clsx [] [Txt ''Scanner''], TableHead clsx [] [Txt ''Description''],
         TableHead clsx [] [Txt ''Time'']]]
     @ concat (map (elements ''tr'') rows)"
  by (simp add: findings_frame_def findings_head_def dom_simps Table_def table_part_def)

lemma elements_no_findings: "elements ''tr'' (no_findings_row clsx) = [no_findings_row clsx]"
  by (simp add: no_findings_row_def dom_simps)

section \<open>Properties\<close>

text \<open>The findings page renders exactly when the value the server sent is an array of objects with a
  string severity and a time that is missing, empty or a date; every other value crashes the page.\<close>

theorem findings_page_renders_iff:
  "(\<exists>t. render_findings clsx H (findings_page_load parse net ls) = Inr t) \<longleftrightarrow>
     (case api_fetch parse net ls ''/findings'' None of
        Inl msg \<Rightarrow> True
      | Inr j \<Rightarrow> (\<exists>fs. j = JArr fs \<and> list_all (finding_shape H) fs))"
  by (simp add: render_findings_Inr_iff findings_page_load_def findings_settled_def findings_init_def
      getFindings_def split: sum.split)

text \<open>The declared type protects the page: on a value of type \<open>Finding[]\<close> it renders exactly when every time
  that is not the empty string is a date, so a date is the only thing that can crash it.\<close>

theorem typed_findings_render:
  assumes "has_type (TsArray Finding_type) j"
  shows "(\<exists>t. render_findings clsx H (findings_settled findings_init (Inr j)) = Inr t) \<longleftrightarrow>
    (\<exists>fs. j = JArr fs \<and> (\<forall>f. f \<in> set fs \<longrightarrow>
       js_opt_prop (Some f) ''occurred_at'' = Some (JStr []) \<or> host_time H (js_opt_prop (Some f) ''occurred_at'') \<noteq> None))"
proof -
  obtain fs where j: "j = JArr fs" "list_all (has_type Finding_type) fs" using assms by auto
  have "finding_shape H f \<longleftrightarrow>
      js_opt_prop (Some f) ''occurred_at'' = Some (JStr []) \<or> host_time H (js_opt_prop (Some f) ''occurred_at'') \<noteq> None"
    if "f \<in> set fs" for f
  proof -
    have f: "has_type Finding_type f" using that j(2) by (simp add: list_all_iff)
    then obtain s t where "js_prop (Some f) ''severity'' = Inr (Some (JStr s))"
      "js_prop (Some f) ''occurred_at'' = Inr (Some (JStr t))"
      unfolding Finding_type_def using has_type_field_string [of _ f "''severity''"]
        has_type_field_string [of _ f "''occurred_at''"] by fastforce
    then show ?thesis by (cases f) (auto simp: finding_shape_def)
  qed
  then show ?thesis using j by (auto simp: render_findings_Inr_iff findings_settled_def list_all_iff)
qed

definition typed_sample :: json where
  "typed_sample = JObj [(''scanner_name'', JStr ''s''), (''severity'', JStr ''high''), (''category'', JStr ''c''),
     (''description'', JStr ''d''), (''occurred_at'', JStr ''now'')]"

theorem typed_findings_render_witness:
  "(\<exists>t. render_findings no_clsx plain_host (findings_settled findings_init (Inr (JArr [typed_sample]))) = Inr t) \<longleftrightarrow>
    (\<exists>fs. JArr [typed_sample] = JArr fs \<and> (\<forall>f. f \<in> set fs \<longrightarrow>
       js_opt_prop (Some f) ''occurred_at'' = Some (JStr []) \<or> host_time plain_host (js_opt_prop (Some f) ''occurred_at'') \<noteq> None))"
  by (rule typed_findings_render) (simp add: typed_sample_def Finding_type_def obj_get_def)

end
