(* ===== verification/WebSettings.thy ===== *)
theory WebSettings
  imports WebDom WebApi
begin

text \<open>
  The settings page, \<open>web/src/pages/Settings.tsx\<close>: the token field, the save handler and the timers
  that clear the confirmation. A timer fires at its due time or later; each save starts a new one and
  cancels none.
\<close>

section \<open>State and handlers\<close>

record settings_state =
  st_token :: string
  st_status :: string
  st_timers :: "int list" \<comment> \<open>due times, in milliseconds\<close>

definition saved_message :: string where
  "saved_message = ''Token saved successfully.''"

text \<open>Mounting the page runs \<open>setToken(api.getToken() || "")\<close>.\<close>

definition settings_mounted :: "local_storage \<Rightarrow> settings_state" where
  "settings_mounted ls = \<lparr>st_token = token_or_empty ls, st_status = [], st_timers = []\<rparr>"

definition settings_edit :: "settings_state \<Rightarrow> string \<Rightarrow> settings_state" where
  "settings_edit s t = s\<lparr>st_token := t\<rparr>"

definition handleSave :: "int \<Rightarrow> local_storage \<Rightarrow> settings_state \<Rightarrow> local_storage \<times> settings_state" where
  "handleSave now ls s =
     (setToken ls (st_token s),
      s\<lparr>st_status := saved_message, st_timers := st_timers s @ [now + 3000]\<rparr>)"

definition settings_timer :: "settings_state \<Rightarrow> int \<Rightarrow> settings_state" where
  "settings_timer s due = s\<lparr>st_status := [], st_timers := remove1 due (st_timers s)\<rparr>"

text \<open>The page with its storage and its clock.\<close>

datatype settings_event = EditToken string | SaveToken | TimerFires int

fun settings_step ::
  "int \<times> local_storage \<times> settings_state \<Rightarrow> int \<times> settings_event \<Rightarrow> int \<times> local_storage \<times> settings_state" where
  "settings_step (now, ls, s) (t, EditToken v) = (t, ls, settings_edit s v)"
| "settings_step (now, ls, s) (t, SaveToken) = (let (ls', s') = handleSave t ls s in (t, ls', s'))"
| "settings_step (now, ls, s) (t, TimerFires due) =
     (if due \<in> set (st_timers s) \<and> due \<le> t then (t, ls, settings_timer s due) else (t, ls, s))"

section \<open>Rendering\<close>

datatype settings_handler = ChangeHandler | SaveHandler

definition render_settings ::
  "settings_handler clsx \<Rightarrow> settings_state \<Rightarrow> settings_handler node" where
  "render_settings clsx s =
     El ''div'' [(''className'', AStr ''space-y-6'')]
       [El ''h1'' [(''className'', AStr ''text-3xl font-bold tracking-tight'')] [Txt ''Settings''],
        El ''div'' [(''className'', AStr ''grid gap-6 max-w-xl'')]
          [Card clsx []
             [CardHeader clsx [] [CardTitle clsx [] [Txt ''Connection Settings'']],
              CardContent clsx [(''className'', AStr ''space-y-4'')]
                [El ''div'' [(''className'', AStr ''space-y-2'')]
                   [El ''label''
                      [(''className'', AStr ''text-sm font-medium leading-none peer-disabled:cursor-not-allowed peer-disabled:opacity-70'')]
                      [Txt ''API Token''],
                    El ''input''
                      [(''type'', AStr ''password''), (''value'', AStr (st_token s)),
                       (''onChange'', AFun ChangeHandler),
                       (''className'', AStr ''flex h-10 w-full rounded-md border border-[var(--card-border)] bg-transparent px-3 py-2 text-sm placeholder:text-[var(--muted)] focus:outline-none focus:ring-2 focus:ring-[var(--accent)] focus:ring-offset-2''),
                       (''placeholder'', AStr ''Enter your API token'')]
                      [],
                    El ''p'' [(''className'', AStr ''text-xs text-[var(--muted)]'')]
                      [Txt ''The token required to authenticate with the local ArCsent daemon.'']],
                 Button clsx [(''onClick'', AFun SaveHandler)] [Txt ''Save Configuration''],
                 when_node (st_status s \<noteq> [])
                   (El ''p'' [(''className'', AStr ''text-sm font-medium text-[var(--success)]'')]
                      [Txt (st_status s)])]]]]"

section \<open>Facts about the page\<close>

text \<open>The confirmation is shown only while some timer is due to clear it.\<close>

definition settings_inv :: "settings_state \<Rightarrow> bool" where
  "settings_inv s \<longleftrightarrow> st_status s = [] \<or> (st_status s = saved_message \<and> st_timers s \<noteq> [])"

lemma settings_inv_mounted [inv_intros]: "settings_inv (settings_mounted ls)"
  by (simp add: settings_inv_def settings_mounted_def)

lemma settings_inv_step [inv_intros]:
  "settings_inv s \<Longrightarrow> settings_step (now, ls, s) e = (now', ls', s') \<Longrightarrow> settings_inv s'"
  by (cases "((now, ls, s), e)" rule: settings_step.cases)
     (auto simp: settings_inv_def settings_edit_def handleSave_def settings_timer_def split: if_splits)

lemma settings_step_token:
  "settings_step (now, ls, s) (t, SaveToken) = (t', ls', s') \<Longrightarrow> token_or_empty ls' = st_token s"
  by (auto simp: handleSave_def)

section \<open>Properties\<close>

text \<open>Whatever the user types, saves and however the timers fire, the page shows either nothing or the
  confirmation, and the latter only while a timer is due to clear it.\<close>

theorem settings_message_transient:
  "settings_inv (snd (snd (foldl settings_step (t0, ls, settings_mounted ls) evs)))"
proof (induction evs rule: rev_induct)
  case (snoc e evs)
  obtain now ls' s where st: "foldl settings_step (t0, ls, settings_mounted ls) evs = (now, ls', s)"
    by (metis prod_cases3)
  obtain now2 ls2 s2 where "settings_step (now, ls', s) e = (now2, ls2, s2)" by (metis prod_cases3)
  with snoc st show ?case by (simp add: settings_inv_step)
qed (simp add: settings_inv_mounted)

text \<open>A second save within three seconds of a first shows its confirmation for the rest of the first
  one's three seconds only: the earlier timer clears it.\<close>

theorem second_save_cleared_early:
  assumes "0 < d" "d < 3000"
  shows "(case settings_step (settings_step (t, ls, s) (t, SaveToken)) (t + d, SaveToken) of
            (now, ls', s') \<Rightarrow> st_status s' = saved_message) \<and>
         (case settings_step (settings_step (settings_step (t, ls, s) (t, SaveToken)) (t + d, SaveToken))
                 (t + 3000, TimerFires (t + 3000)) of
            (now, ls', s') \<Rightarrow> now - (t + d) < 3000 \<and> st_status s' = [])"
  using assms by (simp add: handleSave_def settings_timer_def Let_def)

theorem second_save_cleared_early_witness:
  "(case settings_step (settings_step (0, Map.empty, settings_mounted Map.empty) (0, SaveToken)) (0 + 2900, SaveToken) of
            (now, ls', s') \<Rightarrow> st_status s' = saved_message) \<and>
         (case settings_step (settings_step (settings_step (0, Map.empty, settings_mounted Map.empty) (0, SaveToken))
                 (0 + 2900, SaveToken)) (0 + 3000, TimerFires (0 + 3000)) of
            (now, ls', s') \<Rightarrow> now - (0 + 2900) < 3000 \<and> st_status s' = [])"
  by (rule second_save_cleared_early) simp_all

end
