(* ===== verification/WebLayout.thy ===== *)
theory WebLayout
  imports WebDom WebApi
begin

text \<open>
  The frame of the client, \<open>web/src/Layout.tsx\<close> and \<open>web/src/App.tsx\<close>: the navigation bar, the
  logout handler and the routes. The router package is a parameter: \<open>matches pattern location\<close> is its
  path matcher, and its \<open>Switch\<close> shows the first of its routes that matches, a route without a path
  always matching.
\<close>

section \<open>Routes\<close>

datatype page = DashboardPage | ScannersPage | FindingsPage | SettingsPage | NotFoundText

type_synonym route = "string option \<times> page"

definition app_routes :: "route list" where
  "app_routes =
     [(Some ''/'', DashboardPage),
      (Some ''/scanners'', ScannersPage),
      (Some ''/findings'', FindingsPage),
      (Some ''/settings'', SettingsPage),
      (None, NotFoundText)]"

fun switch_route :: "(string \<Rightarrow> string \<Rightarrow> bool) \<Rightarrow> string \<Rightarrow> route list \<Rightarrow> page option" where
  "switch_route matches loc [] = None"
| "switch_route matches loc ((None, p) # rs) = Some p"
| "switch_route matches loc ((Some pat, p) # rs) =
     (if matches pat loc then Some p else switch_route matches loc rs)"

definition app_page :: "(string \<Rightarrow> string \<Rightarrow> bool) \<Rightarrow> string \<Rightarrow> page option" where
  "app_page matches loc = switch_route matches loc app_routes"

section \<open>The navigation bar\<close>

record nav_item =
  nav_href :: string
  nav_label :: string
  nav_icon :: string

definition navItems :: "nav_item list" where
  "navItems =
     [\<lparr>nav_href = ''/'', nav_label = ''Dashboard'', nav_icon = ''LayoutDashboard''\<rparr>,
      \<lparr>nav_href = ''/scanners'', nav_label = ''Scanners'', nav_icon = ''ScanLine''\<rparr>,
      \<lparr>nav_href = ''/findings'', nav_label = ''Findings'', nav_icon = ''ShieldAlert''\<rparr>,
      \<lparr>nav_href = ''/settings'', nav_label = ''Settings'', nav_icon = ''Settings''\<rparr>]"

datatype layout_handler = LogoutHandler

definition active_class :: string where
  "active_class = ''bg-[var(--accent)]/10 text-[var(--accent)]''"

definition inactive_class :: string where
  "inactive_class = ''text-[var(--muted)] hover:bg-[var(--muted)]/5 hover:text-[var(--ink)]''"

definition nav_link :: "layout_handler clsx \<Rightarrow> string \<Rightarrow> nav_item \<Rightarrow> layout_handler node" where
  "nav_link clsx location item =
     (let isActive = (location = nav_href item) in
      El ''Link'' [(''key'', AStr (nav_href item)), (''href'', AStr (nav_href item))]
        [El ''a''
           [(''className'', AStr (cn clsx
              [AStr ''flex items-center gap-3 px-3 py-2 rounded-md text-sm font-medium transition-colors'',
               AStr (if isActive then active_class else inactive_class)]))]
           [El (nav_icon item) [(''size'', AInt 18)] [], Txt (nav_label item)]])"

definition Layout ::
  "layout_handler clsx \<Rightarrow> string \<Rightarrow> layout_handler node list \<Rightarrow> layout_handler node" where
  "Layout clsx location children =
     El ''div'' [(''className'', AStr ''flex min-h-screen bg-[var(--paper)]'')]
       [El ''aside'' [(''className'', AStr ''w-64 border-r border-[var(--card-border)] bg-[var(--card)] px-4 py-6 flex flex-col'')]
          [El ''div'' [(''className'', AStr ''flex items-center gap-2 px-2 mb-8'')]
             [El ''div'' [(''className'', AStr ''w-8 h-8 rounded-full bg-[var(--accent)] flex items-center justify-center text-white font-bold'')]
                [Txt ''A''],
              El ''span'' [(''className'', AStr ''font-bold text-lg tracking-tight'')] [Txt ''ArCsent'']],
           El ''nav'' [(''className'', AStr ''flex-1 space-y-1'')] (map (nav_link clsx location) navItems),
           El ''button''
             [(''onClick'', AFun LogoutHandler),
              (''className'', AStr ''flex items-center gap-3 px-3 py-2 rounded-md text-sm font-medium text-[var(--muted)] hover:bg-[var(--danger)]/10 hover:text-[var(--danger)] transition-colors mt-auto'')]
             [El ''LogOut'' [(''size'', AInt 18)] [], Txt ''Logout'']],
        El ''main'' [(''className'', AStr ''flex-1 overflow-auto'')]
          [El ''div'' [(''className'', AStr ''container py-8'')] children]]"

text \<open>\<open>api.setToken("")\<close>, then the page reloads: only the storage survives.\<close>

definition handleLogout :: "local_storage \<Rightarrow> local_storage" where
  "handleLogout ls = setToken ls []"

section \<open>Facts about the frame\<close>

text \<open>The router's documented behaviour on the application's patterns, which are plain paths.\<close>

definition plain_matcher :: "(string \<Rightarrow> string \<Rightarrow> bool) \<Rightarrow> bool" where
  "plain_matcher matches \<longleftrightarrow>
     (\<forall>pat \<in> {''/'', ''/scanners'', ''/findings'', ''/settings''}. \<forall>loc. matches pat loc \<longleftrightarrow> loc = pat)"

lemma app_page_plain:
  "plain_matcher matches \<Longrightarrow> app_page matches loc =
     Some (if loc = ''/'' then DashboardPage else if loc = ''/scanners'' then ScannersPage
       else if loc = ''/findings'' then FindingsPage else if loc = ''/settings'' then SettingsPage
       else NotFoundText)"
  by (auto simp: app_page_def app_routes_def plain_matcher_def)

lemma nav_hrefs: "map nav_href navItems = [''/'', ''/scanners'', ''/findings'', ''/settings'']"
  by (simp add: navItems_def)

section \<open>Properties\<close>

text \<open>The frame draws four links around every page; following them leads to the four pages in their
  order, and every other location shows the not-found text.\<close>

theorem navigation_reaches_pages:
  assumes "plain_matcher matches"
  shows "map (\<lambda>link. node_attr link ''href'') (elements ''Link'' (Layout clsx loc [Empty]))
       = map (AStr \<circ> nav_href) navItems
     \<and> map (\<lambda>item. app_page matches (nav_href item)) navItems
       = [Some DashboardPage, Some ScannersPage, Some FindingsPage, Some SettingsPage]
     \<and> (app_page matches loc = Some NotFoundText \<longleftrightarrow> loc \<notin> set (map nav_href navItems))"
  by (simp add: app_page_plain [OF assms] Layout_def navItems_def nav_link_def Let_def prop_of_def)

theorem navigation_reaches_pages_witness:
  "map (\<lambda>link. node_attr link ''href'') (elements ''Link'' (Layout no_clsx ''/findings'' [Empty]))
       = map (AStr \<circ> nav_href) navItems
     \<and> map (\<lambda>item. app_page (\<lambda>pat loc. loc = pat) (nav_href item)) navItems
       = [Some DashboardPage, Some ScannersPage, Some FindingsPage, Some SettingsPage]
     \<and> (app_page (\<lambda>pat loc. loc = pat) ''/findings'' = Some NotFoundText
        \<longleftrightarrow> ''/findings'' \<notin> set (map nav_href navItems))"
  by (rule navigation_reaches_pages) (simp add: plain_matcher_def)

end
