(* ===== verification/WebDashboard.thy ===== *)
theory WebDashboard
  imports WebDom WebApi
begin

text \<open>
  The dashboard, \<open>web/src/pages/Dashboard.tsx\<close>, as a state machine over its seven state variables and
  the requests the browser has not settled yet. The reactions to one settled promise (\<open>then\<close> or
  \<open>catch\<close>, then \<open>finally\<close>) form one step: they write different variables, so interleaving them with
  those of another request gives the same states.
\<close>

section \<open>State and steps\<close>

datatype dash_call = CallStatus | CallSignatures | CallUpdate | CallMetrics

record dash_state =
  db_status :: jsval
  db_signatures :: jsval
  db_sig_error :: string
  db_sig_loading :: bool
  db_metrics_error :: string
  db_metrics :: metrics
  db_metrics_loading :: bool
  db_pending :: "dash_call list"

definition dash_init :: dash_state where
  "dash_init =
     \<lparr>db_status = Some JNull, db_signatures = Some JNull, db_sig_error = [], db_sig_loading = False,
      db_metrics_error = [], db_metrics = Map.empty, db_metrics_loading = False, db_pending = []\<rparr>"

definition send_call :: "dash_call \<Rightarrow> dash_state \<Rightarrow> dash_state" where
  "send_call c s = s\<lparr>db_pending := db_pending s @ [c]\<rparr>"

definition refreshSignatures :: "dash_state \<Rightarrow> dash_state" where
  "refreshSignatures s = send_call CallSignatures (s\<lparr>db_sig_loading := True\<rparr>)"

definition handleSignatureUpdate :: "dash_state \<Rightarrow> dash_state" where
  "handleSignatureUpdate s = send_call CallUpdate (s\<lparr>db_sig_loading := True\<rparr>)"

definition refreshMetrics :: "dash_state \<Rightarrow> dash_state" where
  "refreshMetrics s = send_call CallMetrics (s\<lparr>db_metrics_loading := True\<rparr>)"

text \<open>The effect that runs when the page is mounted.\<close>

definition dash_mounted :: dash_state where
  "dash_mounted = refreshMetrics (refreshSignatures (send_call CallStatus dash_init))"

text \<open>\<open>err.message || fallback\<close>\<close>

definition message_or :: "string \<Rightarrow> string \<Rightarrow> string" where
  "message_or msg fallback = (if msg = [] then fallback else msg)"

definition status_settled :: "(string, json) result \<Rightarrow> dash_state \<Rightarrow> dash_state" where
  "status_settled r s = (case r of Inl msg \<Rightarrow> s | Inr j \<Rightarrow> s\<lparr>db_status := Some j\<rparr>)"

definition signatures_settled :: "string \<Rightarrow> (string, json) result \<Rightarrow> dash_state \<Rightarrow> dash_state" where
  "signatures_settled fallback r s =
     (case r of
        Inl msg \<Rightarrow> s\<lparr>db_sig_error := message_or msg fallback\<rparr>
      | Inr j \<Rightarrow> s\<lparr>db_signatures := Some j, db_sig_error := []\<rparr>)\<lparr>db_sig_loading := False\<rparr>"

definition metrics_settled :: "(string, metrics) result \<Rightarrow> dash_state \<Rightarrow> dash_state" where
  "metrics_settled r s =
     (case r of
        Inl msg \<Rightarrow> s\<lparr>db_metrics_error := message_or msg ''Failed to load metrics''\<rparr>
      | Inr m \<Rightarrow> s\<lparr>db_metrics := m, db_metrics_error := []\<rparr>)\<lparr>db_metrics_loading := False\<rparr>"

text \<open>Which request a call sends, and what its outcome does to the state.\<close>

fun dash_request :: "local_storage \<Rightarrow> dash_call \<Rightarrow> request" where
  "dash_request ls CallStatus = endpoint_request ls getStatus"
| "dash_request ls CallSignatures = endpoint_request ls getSignaturesStatus"
| "dash_request ls CallUpdate = endpoint_request ls triggerSignaturesUpdate"
| "dash_request ls CallMetrics = fetch_text_request ls ''/metrics'' None"

fun dash_settled :: "json_parser \<Rightarrow> dash_call \<Rightarrow> net_outcome \<Rightarrow> dash_state \<Rightarrow> dash_state" where
  "dash_settled parse CallStatus out s = status_settled (fetch_settle parse out) s"
| "dash_settled parse CallSignatures out s =
     signatures_settled ''Failed to load signatures'' (fetch_settle parse out) s"
| "dash_settled parse CallUpdate out s =
     signatures_settled ''Update failed'' (fetch_settle parse out) s"
| "dash_settled parse CallMetrics out s =
     metrics_settled (case fetch_text_settle out of Inl msg \<Rightarrow> Inl msg | Inr raw \<Rightarrow> Inr (parse_metrics raw)) s"

definition dash_settle :: "json_parser \<Rightarrow> dash_call \<Rightarrow> net_outcome \<Rightarrow> dash_state \<Rightarrow> dash_state" where
  "dash_settle parse c out s = dash_settled parse c out (s\<lparr>db_pending := remove1 c (db_pending s)\<rparr>)"

section \<open>Derived values\<close>

definition formatTime :: "host \<Rightarrow> jsval \<Rightarrow> string" where
  "formatTime H value =
     (let dash = [CHR 0xE2, CHR 0x80, CHR 0x94] in
      if \<not> truthy value then dash
      else (case host_time H value of
              None \<Rightarrow> dash
            | Some t \<Rightarrow> if t = 0 then dash else host_locale H t))"

text \<open>\<open>signatureStatus?.sources || {}\<close> and \<open>Object.values\<close> of it.\<close>

definition source_list :: "dash_state \<Rightarrow> json list" where
  "source_list s =
     (case js_or (js_opt_prop (db_signatures s) ''sources'') (Some (JObj [])) of
        Some j \<Rightarrow> js_object_values j | None \<Rightarrow> [])"

definition source_errors :: "dash_state \<Rightarrow> (js_error, bool list) result" where
  "source_errors s =
     map_res (\<lambda>src. bind_res (js_prop (Some src) ''error'') (\<lambda>e. Inr (truthy e))) (source_list s)"

definition total_sources :: "dash_state \<Rightarrow> nat" where
  "total_sources s = length (source_list s)"

definition failed_sources :: "dash_state \<Rightarrow> (js_error, nat) result" where
  "failed_sources s = bind_res (source_errors s) (\<lambda>es. Inr (length (filter id es)))"

definition ok_sources :: "dash_state \<Rightarrow> (js_error, int) result" where
  "ok_sources s = bind_res (failed_sources s) (\<lambda>f. Inr (int (total_sources s) - int f))"

section \<open>Numbers in text\<close>

text \<open>\<open>x.toFixed(1)\<close>: the nearest tenth, the larger one of two equally near.\<close>

definition to_fixed1 :: "host \<Rightarrow> f64 \<Rightarrow> string" where
  "to_fixed1 H x =
     (case x of
        Fin q \<Rightarrow>
          if \<bar>q\<bar> \<ge> 10 ^ 21 then host_num_string H x
          else let n = nat \<lfloor>\<bar>q\<bar> * 10 + 1 / 2\<rfloor>;
                   m = show_nat (n div 10) @ ''.'' @ show_nat (n mod 10)
               in if q < 0 then CHR ''-'' # m else m
      | _ \<Rightarrow> host_num_string H x)"

text \<open>\<open>Number(v)\<close>, which \<open>/\<close> applies to its operands.\<close>

definition to_number :: "host \<Rightarrow> jsval \<Rightarrow> f64" where
  "to_number H v =
     (case v of
        None \<Rightarrow> NaN
      | Some JNull \<Rightarrow> Fin 0
      | Some (JBool b) \<Rightarrow> Fin (if b then 1 else 0)
      | Some (JNum q) \<Rightarrow> rnd64 q
      | Some (JStr s) \<Rightarrow> js_number s
      | Some j \<Rightarrow> js_number (host_string H j))"

definition bytes_text :: "host \<Rightarrow> jsval \<Rightarrow> string" where
  "bytes_text H bytes =
     (if truthy bytes then to_fixed1 H (f_div (to_number H bytes) (Fin 1024)) @ '' KB'' else ''0 KB'')"

section \<open>Rendering\<close>

datatype dash_handler = UpdateHandler | RefreshMetricsHandler

text \<open>\<open>metrics[name] ?? fallback\<close>\<close>

definition metric_or :: "dash_state \<Rightarrow> string \<Rightarrow> 'h node \<Rightarrow> 'h node" where
  "metric_or s name fallback = (case db_metrics s name of Some x \<Rightarrow> NumTxt x | None \<Rightarrow> fallback)"

definition dash_text :: string where
  "dash_text = [CHR 0xE2, CHR 0x80, CHR 0x94]"

definition bullet_text :: string where
  "bullet_text = '' '' @ [CHR 0xE2, CHR 0x80, CHR 0xA2] @ '' ''"

definition summary_header :: "dash_handler clsx \<Rightarrow> string \<Rightarrow> string \<Rightarrow> dash_handler node" where
  "summary_header clsx title icon =
     CardHeader clsx [(''className'', AStr ''flex flex-row items-center justify-between space-y-0 pb-2'')]
       [CardTitle clsx [(''className'', AStr ''text-sm font-medium'')] [Txt title],
        El icon [(''className'', AStr ''h-4 w-4 text-[var(--muted)]'')] []]"

definition status_card :: "dash_handler clsx \<Rightarrow> dash_state \<Rightarrow> dash_handler node" where
  "status_card clsx s =
     Card clsx []
       [summary_header clsx ''System Status'' ''Activity'',
        CardContent clsx []
          [El ''div'' [(''className'', AStr ''text-2xl font-bold capitalize'')]
             [Val (js_or (js_opt_prop (db_status s) ''status'') (Some (JStr ''Unknown'')))],
           El ''p'' [(''className'', AStr ''text-xs text-[var(--muted)]'')]
             [Txt (if truthy (js_opt_prop (db_status s) ''running_as_root'')
                   then ''Running as root (Warning)'' else ''Secure mode'')]]]"

definition findings_card :: "dash_handler clsx \<Rightarrow> dash_state \<Rightarrow> dash_handler node" where
  "findings_card clsx s =
     Card clsx []
       [summary_header clsx ''Active Findings'' ''Shield'',
        CardContent clsx []
          [El ''div'' [(''className'', AStr ''text-2xl font-bold'')]
             [metric_or s ''arcsent_findings_total'' (Txt dash_text)],
           El ''p'' [(''className'', AStr ''text-xs text-[var(--muted)]'')] [Txt ''Total findings found'']]]"

definition scanners_card :: "dash_handler clsx \<Rightarrow> dash_state \<Rightarrow> dash_handler node" where
  "scanners_card clsx s =
     Card clsx []
       [summary_header clsx ''Scanners'' ''HardDrive'',
        CardContent clsx []
          [El ''div'' [(''className'', AStr ''text-2xl font-bold'')]
             [metric_or s ''arcsent_plugins_total'' (Txt dash_text)],
           El ''div'' [(''className'', AStr ''text-xs text-[var(--muted)] flex justify-between'')]
             [El ''span'' [] [Txt ''Jobs: '', metric_or s ''arcsent_jobs_total'' (NumTxt (Fin 0))],
              El ''span'' [] [Txt ''Results: '', metric_or s ''arcsent_results_total'' (NumTxt (Fin 0))]]]]"

definition signatures_card ::
  "host \<Rightarrow> dash_handler clsx \<Rightarrow> dash_state \<Rightarrow> int \<Rightarrow> dash_handler node" where
  "signatures_card H clsx s ok =
     Card clsx []
       [summary_header clsx ''Signatures'' ''Database'',
        CardContent clsx []
          [El ''div'' [(''className'', AStr ''text-2xl font-bold'')]
             [NumTxt (f_of_int ok), Txt '' '',
              El ''span'' [(''className'', AStr ''text-sm font-normal text-[var(--muted)]'')]
                [Txt ''/ '', NumTxt (f_of_int (int (total_sources s))), Txt '' ok'']],
           El ''p'' [(''className'', AStr ''text-xs text-[var(--muted)]'')]
             [Txt ''Last update: '', Txt (formatTime H (js_opt_prop (db_signatures s) ''last_run''))]]]"

definition source_row ::
  "host \<Rightarrow> dash_handler clsx \<Rightarrow> json \<Rightarrow> (js_error, dash_handler node) result" where
  "source_row H clsx src =
     bind_res (js_prop (Some src) ''source'') (\<lambda>source.
     bind_res (js_prop (Some src) ''error'') (\<lambda>err.
     bind_res (js_prop (Some src) ''bytes'') (\<lambda>bytes.
     bind_res (js_prop (Some src) ''updated_at'') (\<lambda>updated_at.
     Inr (El ''div''
       [(''key'', AVal source),
        (''className'', AStr ''flex items-center justify-between border-b border-[var(--card-border)] pb-2 last:border-0 last:pb-0'')]
       [El ''div'' [(''className'', AStr ''flex items-center gap-3'')]
          [if truthy err then El ''AlertCircle'' [(''className'', AStr ''h-5 w-5 text-[var(--danger)]'')] []
           else El ''CheckCircle'' [(''className'', AStr ''h-5 w-5 text-[var(--success)]'')] [],
           El ''div'' []
             [El ''div'' [(''className'', AStr ''font-medium text-sm'')] [Val source],
              El ''div'' [(''className'', AStr ''text-xs text-[var(--muted)]'')]
                [Txt (bytes_text H bytes), Txt bullet_text, Txt (formatTime H updated_at)]]],
        (if truthy err then Badge clsx [(''variant'', AStr ''danger'')] [Txt ''Error''] else Val err),
        when_node (\<not> truthy err) (Badge clsx [(''variant'', AStr ''outline'')] [Txt ''Synced''])])))))"

definition signatures_panel ::
  "dash_handler clsx \<Rightarrow> dash_state \<Rightarrow> dash_handler node list \<Rightarrow> dash_handler node" where
  "signatures_panel clsx s rows =
     Card clsx [(''className'', AStr ''col-span-4'')]
       [CardHeader clsx [(''className'', AStr ''flex flex-row items-center justify-between'')]
          [CardTitle clsx [] [Txt ''Signatures Status''],
           Button clsx
             [(''size'', AStr ''sm''), (''variant'', AStr ''secondary''),
              (''isLoading'', ABool (db_sig_loading s)), (''onClick'', AFun UpdateHandler)]
             [El ''RefreshCw'' [(''className'', AStr ''mr-2 h-3 w-3'')] [], Txt ''Update Now'']],
        CardContent clsx []
          [(if length (source_list s) = 0
            then El ''div'' [(''className'', AStr ''text-center py-6 text-[var(--muted)]'')]
                   [Txt ''No signature sources configured.'']
            else El ''div'' [(''className'', AStr ''space-y-4'')] rows),
           when_node (db_sig_error s \<noteq> [])
             (El ''div'' [(''className'', AStr ''mt-4 p-3 bg-[rgba(164,31,31,0.1)] text-[var(--danger)] text-sm rounded-md'')]
                [Txt (db_sig_error s)])]]"

definition overview_line ::
  "dash_state \<Rightarrow> string \<Rightarrow> string \<Rightarrow> string \<Rightarrow> dash_handler node" where
  "overview_line s label cls name =
     El ''div'' [(''className'', AStr ''flex justify-between items-center'')]
       [El ''span'' [(''className'', AStr ''text-sm font-medium'')] [Txt label],
        El ''span'' [(''className'', AStr cls)] [metric_or s name (NumTxt (Fin 0))]]"

definition metrics_panel :: "dash_handler clsx \<Rightarrow> dash_state \<Rightarrow> dash_handler node" where
  "metrics_panel clsx s =
     Card clsx [(''className'', AStr ''col-span-3'')]
       [CardHeader clsx [] [CardTitle clsx [] [Txt ''Metrics Overview'']],
        CardContent clsx []
          [El ''div'' [(''className'', AStr ''space-y-4'')]
             [overview_line s ''Scans Completed'' ''text-sm font-bold text-[var(--accent)]'' ''arcsent_results_total'',
              overview_line s ''Findings Detected'' ''text-sm font-bold text-[var(--warning)]'' ''arcsent_findings_total'',
              overview_line s ''Active Plugins'' ''text-sm font-bold'' ''arcsent_plugins_total'',
              overview_line s ''Scheduled Jobs'' ''text-sm font-bold'' ''arcsent_jobs_total''],
           El ''div'' [(''className'', AStr ''mt-6 flex justify-end'')]
             [Button clsx
                [(''size'', AStr ''sm''), (''variant'', AStr ''ghost''),
                 (''isLoading'', ABool (db_metrics_loading s)), (''onClick'', AFun RefreshMetricsHandler)]
                [El ''RefreshCw'' [(''className'', AStr ''mr-2 h-3 w-3'')] [], Txt ''Refresh Metrics'']],
           when_node (db_metrics_error s \<noteq> [])
             (El ''div'' [(''className'', AStr ''mt-2 text-xs text-[var(--danger)]'')]
                [Txt (db_metrics_error s)])]]"

definition render_dashboard ::
  "host \<Rightarrow> dash_handler clsx \<Rightarrow> dash_state \<Rightarrow> (js_error, dash_handler node) result" where
  "render_dashboard H clsx s =
     bind_res (ok_sources s) (\<lambda>ok.
     bind_res (map_res (source_row H clsx) (source_list s)) (\<lambda>rows.
     Inr (El ''div'' [(''className'', AStr ''space-y-6'')]
       [El ''h1'' [(''className'', AStr ''text-3xl font-bold tracking-tight'')] [Txt ''Dashboard''],
        El ''div'' [(''className'', AStr ''grid gap-4 md:grid-cols-2 lg:grid-cols-4'')]
          [status_card clsx s, findings_card clsx s, scanners_card clsx s, signatures_card H clsx s ok],
        El ''div'' [(''className'', AStr ''grid gap-4 md:grid-cols-2 lg:grid-cols-7'')]
          [signatures_panel clsx s rows, metrics_panel clsx s]])))"

section \<open>Steps\<close>

text \<open>
  As on the scanners page, a click reaches the handler of a rendered and enabled button. The page is
  mounted once; any pending request may be the next to settle, with any outcome.
\<close>

definition dash_clickable ::
  "host \<Rightarrow> dash_handler clsx \<Rightarrow> dash_state \<Rightarrow> dash_handler \<Rightarrow> bool" where
  "dash_clickable H clsx s h \<longleftrightarrow>
     (case render_dashboard H clsx s of
        Inl e \<Rightarrow> False
      | Inr t \<Rightarrow> list_ex (\<lambda>b. node_attr b ''onClick'' = AFun h
                   \<and> \<not> attr_truthy (node_attr b ''disabled'')) (elements ''button'' t))"

fun dash_handle :: "dash_handler \<Rightarrow> dash_state \<Rightarrow> dash_state" where
  "dash_handle UpdateHandler s = handleSignatureUpdate s"
| "dash_handle RefreshMetricsHandler s = refreshMetrics s"

inductive dash_step ::
  "json_parser \<Rightarrow> host \<Rightarrow> dash_handler clsx \<Rightarrow> dash_state \<Rightarrow> dash_state \<Rightarrow> bool"
  for parse H clsx where
  DashClick: "dash_clickable H clsx s h \<Longrightarrow> dash_step parse H clsx s (dash_handle h s)"
| DashSettle: "c \<in> set (db_pending s) \<Longrightarrow> dash_step parse H clsx s (dash_settle parse c out s)"

inductive dash_reachable ::
  "json_parser \<Rightarrow> host \<Rightarrow> dash_handler clsx \<Rightarrow> dash_state \<Rightarrow> bool" for parse H clsx where
  DashMount: "dash_reachable parse H clsx dash_mounted"
| DashStep: "dash_reachable parse H clsx s \<Longrightarrow> dash_step parse H clsx s t \<Longrightarrow> dash_reachable parse H clsx t"

inductive_cases dash_step_cases [elim]: "dash_step parse H clsx s t"

section \<open>The buttons of the page\<close>

fun sig_call :: "dash_call \<Rightarrow> bool" where
  "sig_call CallSignatures = True"
| "sig_call CallUpdate = True"
| "sig_call _ = False"

definition update_button :: "dash_handler clsx \<Rightarrow> dash_state \<Rightarrow> dash_handler node" where
  "update_button clsx s =
     Button clsx
       [(''size'', AStr ''sm''), (''variant'', AStr ''secondary''),
        (''isLoading'', ABool (db_sig_loading s)), (''onClick'', AFun UpdateHandler)]
       [El ''RefreshCw'' [(''className'', AStr ''mr-2 h-3 w-3'')] [], Txt ''Update Now'']"

definition refresh_button :: "dash_handler clsx \<Rightarrow> dash_state \<Rightarrow> dash_handler node" where
  "refresh_button clsx s =
     Button clsx
       [(''size'', AStr ''sm''), (''variant'', AStr ''ghost''),
        (''isLoading'', ABool (db_metrics_loading s)), (''onClick'', AFun RefreshMetricsHandler)]
       [El ''RefreshCw'' [(''className'', AStr ''mr-2 h-3 w-3'')] [], Txt ''Refresh Metrics'']"

lemma elements_one_button:
  "elements ''button'' (update_button clsx s) = [update_button clsx s]"
  "elements ''button'' (refresh_button clsx s) = [refresh_button clsx s]"
  unfolding update_button_def refresh_button_def
  by (rule elements_button_Button, simp)+

lemma dash_button_attrs:
  "node_attr (update_button clsx s) ''onClick'' = AFun UpdateHandler"
  "node_attr (refresh_button clsx s) ''onClick'' = AFun RefreshMetricsHandler"
  "attr_truthy (node_attr (update_button clsx s) ''disabled'') = db_sig_loading s"
  "attr_truthy (node_attr (refresh_button clsx s) ''disabled'') = db_metrics_loading s"
proof -
  show "node_attr (update_button clsx s) ''onClick'' = AFun UpdateHandler"
    unfolding update_button_def by (rule button_other_attr) simp_all
  show "node_attr (refresh_button clsx s) ''onClick'' = AFun RefreshMetricsHandler"
    unfolding refresh_button_def by (rule button_other_attr) simp_all
  show "attr_truthy (node_attr (update_button clsx s) ''disabled'') = db_sig_loading s"
    "attr_truthy (node_attr (refresh_button clsx s) ''disabled'') = db_metrics_loading s"
    by (simp_all add: update_button_def refresh_button_def button_disabled_attr prop_default_def prop_of_def)
qed

lemma elements_metric_or:
  "elements t fallback = [] \<Longrightarrow> elements t (metric_or s name fallback) = []"
  by (simp add: metric_or_def split: option.split)

lemma source_row_no_button:
  "source_row H clsx src = Inr row \<Longrightarrow> elements ''button'' row = []"
  by (cases src) (auto simp: source_row_def bind_res_Inr_iff dom_simps when_node_def)

lemma render_dashboard_buttons:
  assumes "render_dashboard H clsx s = Inr t"
  shows "elements ''button'' t = [update_button clsx s, refresh_button clsx s]"
proof -
  from assms obtain ok rows where rows: "map_res (source_row H clsx) (source_list s) = Inr rows"
    and t: "t = El ''div'' [(''className'', AStr ''space-y-6'')]
       [El ''h1'' [(''className'', AStr ''text-3xl font-bold tracking-tight'')] [Txt ''Dashboard''],
        El ''div'' [(''className'', AStr ''grid gap-4 md:grid-cols-2 lg:grid-cols-4'')]
          [status_card clsx s, findings_card clsx s, scanners_card clsx s, signatures_card H clsx s ok],
        El ''div'' [(''className'', AStr ''grid gap-4 md:grid-cols-2 lg:grid-cols-7'')]
          [signatures_panel clsx s rows, metrics_panel clsx s]]"
    by (auto simp: render_dashboard_def bind_res_Inr_iff)
  have "elements ''button'' row = []" if "row \<in> set rows" for row
    using that rows map_res_Inr_nth [OF rows] map_res_Inr_length [OF rows] source_row_no_button
    by (metis in_set_conv_nth)
  then have none: "concat (map (elements ''button'') rows) = []" by simp
  have cards: "elements ''button'' (status_card clsx s) = []" "elements ''button'' (findings_card clsx s) = []"
    "elements ''button'' (scanners_card clsx s) = []" "elements ''button'' (signatures_card H clsx s ok) = []"
    by (simp_all add: status_card_def findings_card_def scanners_card_def signatures_card_def
        summary_header_def dom_simps elements_metric_or)
  have sig: "elements ''button'' (signatures_panel clsx s rows) = [update_button clsx s]"
    unfolding signatures_panel_def update_button_def [symmetric]
    by (simp add: dom_simps none elements_one_button when_node_def)
  have met: "elements ''button'' (metrics_panel clsx s) = [refresh_button clsx s]"
    unfolding metrics_panel_def refresh_button_def [symmetric]
    by (simp add: dom_simps elements_one_button overview_line_def elements_metric_or when_node_def)
  show ?thesis by (simp add: t cards sig met)
qed

lemma dash_clickable_iff:
  "dash_clickable H clsx s h \<longleftrightarrow>
     (\<exists>t. render_dashboard H clsx s = Inr t) \<and>
     \<not> (case h of UpdateHandler \<Rightarrow> db_sig_loading s | RefreshMetricsHandler \<Rightarrow> db_metrics_loading s)"
  by (cases "render_dashboard H clsx s"; cases h)
     (auto simp: dash_clickable_def render_dashboard_buttons dash_button_attrs)

section \<open>Invariant\<close>

text \<open>
  Each loading flag is up exactly while one request that will lower it is outstanding, and the
  status request is sent at most once.
\<close>

definition dash_inv :: "dash_state \<Rightarrow> bool" where
  "dash_inv s \<longleftrightarrow>
     length (filter sig_call (db_pending s)) = (if db_sig_loading s then 1 else 0) \<and>
     count_list (db_pending s) CallMetrics = (if db_metrics_loading s then 1 else 0) \<and>
     count_list (db_pending s) CallStatus \<le> 1"

lemma dash_settled_simps [run_simps]:
  "db_pending (dash_settled parse c out s) = db_pending s"
  "db_sig_loading (dash_settled parse c out s) = (\<not> sig_call c \<and> db_sig_loading s)"
  "db_metrics_loading (dash_settled parse c out s) = (c \<noteq> CallMetrics \<and> db_metrics_loading s)"
  by (cases c; simp add: status_settled_def signatures_settled_def metrics_settled_def split: sum.splits)+

lemma count_list_remove1:
  "count_list (remove1 x xs) y = (if x = y then count_list xs y - 1 else count_list xs y)"
  by (induction xs) (auto simp: count_list_0_iff)

lemma count_list_in: "c \<in> set xs \<Longrightarrow> 0 < count_list xs c"
  by (induction xs) auto

lemma length_filter_remove1:
  "x \<in> set xs \<Longrightarrow> length (filter P (remove1 x xs)) = (if P x then length (filter P xs) - 1 else length (filter P xs))"
proof (induction xs)
  case (Cons y ys)
  have "x \<in> set ys \<Longrightarrow> P x \<Longrightarrow> 0 < length (filter P ys)" by (auto simp: filter_empty_conv)
  with Cons show ?case by (cases "x = y") auto
qed simp

lemma dash_inv_mounted [inv_intros]: "dash_inv dash_mounted"
  by (simp add: dash_inv_def dash_mounted_def refreshMetrics_def refreshSignatures_def send_call_def
      dash_init_def)

lemma dash_inv_settle [inv_intros]:
  assumes "dash_inv s" "c \<in> set (db_pending s)"
  shows "dash_inv (dash_settle parse c out s)"
  using assms count_list_in [OF assms(2)]
  by (cases c)
     (auto simp: dash_inv_def dash_settle_def run_simps count_list_remove1 length_filter_remove1
       simp del: dash_settled.simps split: if_splits)

lemma dash_inv_handle [inv_intros]:
  assumes "dash_inv s" "dash_clickable H clsx s h"
  shows "dash_inv (dash_handle h s)"
  using assms
  by (cases h)
     (auto simp: dash_inv_def dash_clickable_iff handleSignatureUpdate_def refreshMetrics_def
       send_call_def split: if_splits)

lemma dash_reachable_inv: "dash_reachable parse H clsx s \<Longrightarrow> dash_inv s"
  by (induction rule: dash_reachable.induct) (auto intro: inv_intros)

section \<open>Properties\<close>

text \<open>C4 On the dashboard at most one signature request and at most one metrics request is outstanding,
  each loading flag says whether it is, and while it is the button that would send another cannot be
  clicked; once every request has settled, no flag is left up.\<close>

theorem dashboard_single_request:
  assumes "dash_reachable parse H clsx s"
  shows "length (filter sig_call (db_pending s)) = (if db_sig_loading s then 1 else 0)
    \<and> count_list (db_pending s) CallMetrics = (if db_metrics_loading s then 1 else 0)
    \<and> (dash_clickable H clsx s UpdateHandler \<longleftrightarrow>
         filter sig_call (db_pending s) = [] \<and> (\<exists>t. render_dashboard H clsx s = Inr t))
    \<and> (dash_clickable H clsx s RefreshMetricsHandler \<longleftrightarrow>
         CallMetrics \<notin> set (db_pending s) \<and> (\<exists>t. render_dashboard H clsx s = Inr t))
    \<and> (db_sig_loading s \<or> db_metrics_loading s \<longleftrightarrow> (\<exists>c \<in> set (db_pending s). c \<noteq> CallStatus))"
proof -
  note inv = dash_reachable_inv [OF assms]
  have m: "CallMetrics \<notin> set (db_pending s) \<longleftrightarrow> \<not> db_metrics_loading s"
    using inv by (auto simp: dash_inv_def count_list_0_iff [symmetric])
  have g: "filter sig_call (db_pending s) = [] \<longleftrightarrow> \<not> db_sig_loading s"
    using inv by (auto simp: dash_inv_def simp flip: length_0_conv)
  have "(\<exists>c \<in> set (db_pending s). c \<noteq> CallStatus) \<longleftrightarrow>
      filter sig_call (db_pending s) \<noteq> [] \<or> CallMetrics \<in> set (db_pending s)"
  proof -
    have "c \<noteq> CallStatus \<longleftrightarrow> sig_call c \<or> c = CallMetrics" for c by (cases c) auto
    then show ?thesis by (auto simp: filter_empty_conv)
  qed
  with inv m g show ?thesis by (auto simp: dash_inv_def dash_clickable_iff)
qed

theorem dashboard_single_request_witness:
  "length (filter sig_call (db_pending dash_mounted)) = (if db_sig_loading dash_mounted then 1 else 0)
    \<and> count_list (db_pending dash_mounted) CallMetrics = (if db_metrics_loading dash_mounted then 1 else 0)
    \<and> (dash_clickable plain_host no_clsx dash_mounted UpdateHandler \<longleftrightarrow>
         filter sig_call (db_pending dash_mounted) = []
         \<and> (\<exists>t. render_dashboard plain_host no_clsx dash_mounted = Inr t))
    \<and> (dash_clickable plain_host no_clsx dash_mounted RefreshMetricsHandler \<longleftrightarrow>
         CallMetrics \<notin> set (db_pending dash_mounted)
         \<and> (\<exists>t. render_dashboard plain_host no_clsx dash_mounted = Inr t))
    \<and> (db_sig_loading dash_mounted \<or> db_metrics_loading dash_mounted \<longleftrightarrow>
         (\<exists>c \<in> set (db_pending dash_mounted). c \<noteq> CallStatus))"
  by (rule dashboard_single_request [OF dash_reachable.DashMount [where parse = "\<lambda>s. Inl s"]])

end
