(* ===== verification/JsonText.thy ===== *)
theory JsonText
  imports WebApi
begin

text \<open>
  The text of the documents on the wire: what \<open>encoding/json\<close>'s \<open>Encoder\<close> writes (with its escaping
  of HTML characters, line separators and invalid UTF-8) and what the browser's \<open>JSON.parse\<close> reads.
  The shortest form of a number that is no integer is a parameter \<open>fmt\<close>. The interface the client
  relies on is the locale \<open>json_wire\<close>, interpreted on these two at the end.
\<close>

section \<open>UTF-8\<close>

definition byte_in :: "nat \<Rightarrow> nat \<Rightarrow> string \<Rightarrow> nat \<Rightarrow> bool" where
  "byte_in lo hi s k \<longleftrightarrow> k < length s \<and> lo \<le> (of_char (s ! k) :: nat) \<and> (of_char (s ! k) :: nat) \<le> hi"

text \<open>\<open>utf8.DecodeRuneInString\<close>: the length of the first rune, 0 when it is not valid.\<close>

definition rune_len :: "string \<Rightarrow> nat" where
  "rune_len s =
     (case s of
        [] \<Rightarrow> 0
      | c # r \<Rightarrow>
          let b = of_char c :: nat in
          if b < 0x80 then 1
          else if 0xC2 \<le> b \<and> b \<le> 0xDF \<and> byte_in 0x80 0xBF r 0 then 2
          else if 0xE0 \<le> b \<and> b \<le> 0xEF
            \<and> byte_in (if b = 0xE0 then 0xA0 else 0x80) (if b = 0xED then 0x9F else 0xBF) r 0
            \<and> byte_in 0x80 0xBF r 1 then 3
          else if 0xF0 \<le> b \<and> b \<le> 0xF4
            \<and> byte_in (if b = 0xF0 then 0x90 else 0x80) (if b = 0xF4 then 0x8F else 0xBF) r 0
            \<and> byte_in 0x80 0xBF r 1 \<and> byte_in 0x80 0xBF r 2 then 4
          else 0)"

function valid_utf8 :: "string \<Rightarrow> bool" where
  "valid_utf8 s =
     (if s = [] then True else if rune_len s = 0 then False else valid_utf8 (drop (rune_len s) s))"
  by pat_completeness auto
termination
  by (relation "measure length") auto

declare valid_utf8.simps [simp del]

definition utf8 :: "nat \<Rightarrow> string" where
  "utf8 n =
     (if n < 0x80 then [char_of n]
      else if n < 0x800 then [char_of (0xC0 + n div 64), char_of (0x80 + n mod 64)]
      else if n < 0x10000 then [char_of (0xE0 + n div 4096), char_of (0x80 + n div 64 mod 64), char_of (0x80 + n mod 64)]
      else [char_of (0xF0 + n div 262144), char_of (0x80 + n div 4096 mod 64), char_of (0x80 + n div 64 mod 64),
            char_of (0x80 + n mod 64)])"

text \<open>Text as it arrives when every invalid byte is replaced by U+FFFD.\<close>

function repair :: "string \<Rightarrow> string" where
  "repair s =
     (if s = [] then []
      else if rune_len s = 0 then utf8 0xFFFD @ repair (tl s)
      else take (rune_len s) s @ repair (drop (rune_len s) s))"
  by pat_completeness auto
termination
  by (relation "measure length") auto

declare repair.simps [simp del]

lemma repair_valid [simp]: "valid_utf8 s \<Longrightarrow> repair s = s"
proof (induction s rule: valid_utf8.induct)
  case (1 s)
  from 1(2) show ?case
    using 1(1) by (subst repair.simps) (subst (asm) valid_utf8.simps, auto split: if_splits)
qed

section \<open>The encoder\<close>

definition quote_char :: char where "quote_char = CHR 0x22"
definition backslash :: char where "backslash = CHR 0x5C"

definition esc_byte :: "char \<Rightarrow> string" where
  "esc_byte c =
     (let b = of_char c :: nat in
      if c = quote_char \<or> c = backslash then [backslash, c]
      else if b = 8 then [backslash, CHR ''b'']
      else if b = 12 then [backslash, CHR ''f'']
      else if b = 10 then [backslash, CHR ''n'']
      else if b = 13 then [backslash, CHR ''r'']
      else if b = 9 then [backslash, CHR ''t'']
      else if b < 32 \<or> c = CHR ''<'' \<or> c = CHR ''>'' \<or> c = CHR ''&''
        then [backslash, CHR ''u'', CHR ''0'', CHR ''0'', hex_digit (b div 16), hex_digit (b mod 16)]
      else [c])"

definition esc_rune :: "string \<Rightarrow> string" where
  "esc_rune w =
     (if length w = 1 then esc_byte (hd w)
      else if w = [CHR 0xE2, CHR 0x80, CHR 0xA8] then backslash # ''u2028''
      else if w = [CHR 0xE2, CHR 0x80, CHR 0xA9] then backslash # ''u2029''
      else w)"

function go_escape :: "string \<Rightarrow> string" where
  "go_escape s =
     (if s = [] then []
      else if rune_len s = 0 then backslash # ''ufffd'' @ go_escape (tl s)
      else esc_rune (take (rune_len s) s) @ go_escape (drop (rune_len s) s))"
  by pat_completeness auto
termination
  by (relation "measure length") auto

declare go_escape.simps [simp del]

definition go_string :: "string \<Rightarrow> string" where
  "go_string s = quote_char # go_escape s @ [quote_char]"

definition go_number :: "(rat \<Rightarrow> string) \<Rightarrow> rat \<Rightarrow> string" where
  "go_number fmt q = (if of_int \<lfloor>q\<rfloor> = q then show_int \<lfloor>q\<rfloor> else fmt q)"

fun join_comma :: "string list \<Rightarrow> string" where
  "join_comma [] = []"
| "join_comma [s] = s"
| "join_comma (s # t # ss) = s @ '','' @ join_comma (t # ss)"

fun go_value :: "(rat \<Rightarrow> string) \<Rightarrow> json \<Rightarrow> string" where
  "go_value fmt JNull = ''null''"
| "go_value fmt (JBool b) = (if b then ''true'' else ''false'')"
| "go_value fmt (JNum q) = go_number fmt q"
| "go_value fmt (JStr s) = go_string s"
| "go_value fmt (JArr xs) = ''['' @ join_comma (map (go_value fmt) xs) @ '']''"
| "go_value fmt (JObj kvs) =
     ''{'' @ join_comma (map (\<lambda>kv. go_string (fst kv) @ '':'' @ go_value fmt (snd kv)) kvs) @ ''}''"

text \<open>\<open>Encode\<close> ends the document with a line feed.\<close>

definition go_encode :: "(rat \<Rightarrow> string) \<Rightarrow> json \<Rightarrow> string" where
  "go_encode fmt j = go_value fmt j @ [newline]"

section \<open>The parser\<close>

definition json_space :: "char \<Rightarrow> bool" where
  "json_space c \<longleftrightarrow> (of_char c :: nat) \<in> {9, 10, 13, 32}"

definition skip_ws :: "string \<Rightarrow> string" where
  "skip_ws s = dropWhile json_space s"

fun hex4 :: "string \<Rightarrow> (nat \<times> string) option" where
  "hex4 (a # b # c # d # r) =
     (case (hex_val a, hex_val b, hex_val c, hex_val d) of
        (Some p, Some q, Some u, Some v) \<Rightarrow> Some (((p * 16 + q) * 16 + u) * 16 + v, r)
      | _ \<Rightarrow> None)"
| "hex4 _ = None"

definition low_surrogate :: "string \<Rightarrow> (nat \<times> string) option" where
  "low_surrogate s =
     (case s of
        a # b # r \<Rightarrow>
          if a = backslash \<and> b = CHR ''u'' then
            (case hex4 r of
               Some (m, r2) \<Rightarrow> if 0xDC00 \<le> m \<and> m \<le> 0xDFFF then Some (m, r2) else None
             | None \<Rightarrow> None)
          else None
      | _ \<Rightarrow> None)"

text \<open>What follows a backslash: the decoded text and the rest.\<close>

definition decode_escape :: "string \<Rightarrow> (string \<times> string) option" where
  "decode_escape s =
     (case s of
        [] \<Rightarrow> None
      | d # r \<Rightarrow>
          if d = quote_char \<or> d = backslash \<or> d = CHR ''/'' then Some ([d], r)
          else if d = CHR ''b'' then Some ([char_of (8 :: nat)], r)
          else if d = CHR ''f'' then Some ([char_of (12 :: nat)], r)
          else if d = CHR ''n'' then Some ([char_of (10 :: nat)], r)
          else if d = CHR ''r'' then Some ([char_of (13 :: nat)], r)
          else if d = CHR ''t'' then Some ([char_of (9 :: nat)], r)
          else if d = CHR ''u'' then
            (case hex4 r of
               None \<Rightarrow> None
             | Some (n, r1) \<Rightarrow>
                 if 0xD800 \<le> n \<and> n < 0xDC00 then
                   (case low_surrogate r1 of
                      Some (m, r2) \<Rightarrow> Some (utf8 (0x10000 + (n - 0xD800) * 0x400 + (m - 0xDC00)), r2)
                    | None \<Rightarrow> Some (utf8 n, r1))
                 else Some (utf8 n, r1))
          else None)"

lemma hex4_length: "hex4 s = Some (n, r) \<Longrightarrow> length r < length s"
  by (induction s rule: hex4.induct) (auto split: option.splits)

lemma low_surrogate_length: "low_surrogate s = Some (n, r) \<Longrightarrow> length r < length s"
  by (auto simp: low_surrogate_def split: list.splits if_splits option.splits dest!: hex4_length)

lemma decode_escape_length: "decode_escape s = Some (w, r) \<Longrightarrow> length r < length s"
  by (auto simp: decode_escape_def split: list.splits if_splits option.splits
      dest!: hex4_length low_surrogate_length)

text \<open>The rest of a string literal after its opening quote.\<close>

function parse_chars :: "string \<Rightarrow> (string \<times> string) option" where
  "parse_chars [] = None"
| "parse_chars (c # s) =
     (if c = quote_char then Some ([], s)
      else if (of_char c :: nat) < 32 then None
      else if c = backslash then
        (case decode_escape s of
           None \<Rightarrow> None
         | Some (w, r) \<Rightarrow> map_option (\<lambda>(v, q). (w @ v, q)) (parse_chars r))
      else map_option (\<lambda>(v, q). (c # v, q)) (parse_chars s))"
  by pat_completeness auto
termination
  by (relation "measure length") (auto dest: decode_escape_length)

declare parse_chars.simps [simp del]

text \<open>The grammar of numbers: no leading zeros, digits after a point and after an exponent sign.\<close>

definition fraction_part :: "string \<Rightarrow> (string \<times> string) option" where
  "fraction_part s =
     (case s of
        [] \<Rightarrow> Some ([], [])
      | c # r \<Rightarrow>
          if c \<noteq> CHR ''.'' then Some ([], s)
          else if takeWhile is_digit r = [] then None else Some (takeWhile is_digit r, dropWhile is_digit r))"

definition exponent :: "string \<Rightarrow> (int \<times> string) option" where
  "exponent s =
     (case s of
        [] \<Rightarrow> Some (0, [])
      | c # r \<Rightarrow>
          if c \<noteq> CHR ''e'' \<and> c \<noteq> CHR ''E'' then Some (0, s)
          else let (sg, u) = (case r of
                   [] \<Rightarrow> (1, [])
                 | d # v \<Rightarrow> if d = CHR ''-'' then (- 1, v) else if d = CHR ''+'' then (1, v) else (1, r))
            in if takeWhile is_digit u = [] then None
               else Some (sg * int (digits_val (takeWhile is_digit u)), dropWhile is_digit u))"

definition parse_number :: "string \<Rightarrow> (rat \<times> string) option" where
  "parse_number s =
     (let (sg, u) = (case s of [] \<Rightarrow> (1, []) | c # r \<Rightarrow> if c = CHR ''-'' then (- 1, r) else (1, s));
          ip = takeWhile is_digit u
      in if ip = [] \<or> (hd ip = CHR ''0'' \<and> length ip \<noteq> 1) then None
         else case fraction_part (dropWhile is_digit u) of
           None \<Rightarrow> None
         | Some (fp, r1) \<Rightarrow>
             (case exponent r1 of
                None \<Rightarrow> None
              | Some (e, r2) \<Rightarrow>
                  Some (sg * of_nat (digits_val (ip @ fp)) * pow10 (e - int (length fp)), r2)))"

text \<open>
  Values, the rest of an array and the rest of an object. Every call uses up one unit of fuel; twice
  the length of the text and one is enough, more makes no difference (\<open>parse_fuel\<close>).
\<close>

fun parse_value :: "nat \<Rightarrow> string \<Rightarrow> (json \<times> string) option"
  and parse_elems :: "nat \<Rightarrow> string \<Rightarrow> (json list \<times> string) option"
  and parse_members :: "nat \<Rightarrow> string \<Rightarrow> ((string \<times> json) list \<times> string) option" where
  "parse_value 0 s = None"
| "parse_value (Suc n) s0 =
     (let s = skip_ws s0 in
      case s of
        [] \<Rightarrow> None
      | c # r \<Rightarrow>
          if c = CHR ''['' then
            (case skip_ws r of
               [] \<Rightarrow> None
             | d # r' \<Rightarrow> if d = CHR '']'' then Some (JArr [], r')
                 else map_option (\<lambda>(xs, q). (JArr xs, q)) (parse_elems n (d # r')))
          else if c = CHR ''{'' then
            (case skip_ws r of
               [] \<Rightarrow> None
             | d # r' \<Rightarrow> if d = CHR ''}'' then Some (JObj [], r')
                 else map_option (\<lambda>(kvs, q). (JObj kvs, q)) (parse_members n (d # r')))
          else if c = quote_char then map_option (\<lambda>(v, q). (JStr v, q)) (parse_chars r)
          else if has_prefix s ''null'' then Some (JNull, drop 4 s)
          else if has_prefix s ''true'' then Some (JBool True, drop 4 s)
          else if has_prefix s ''false'' then Some (JBool False, drop 5 s)
          else map_option (\<lambda>(q, r). (JNum q, r)) (parse_number s))"
| "parse_elems 0 s = None"
| "parse_elems (Suc n) s =
     (case parse_value n s of
        None \<Rightarrow> None
      | Some (x, r) \<Rightarrow>
          (case skip_ws r of
             [] \<Rightarrow> None
           | d # r' \<Rightarrow>
               if d = CHR '','' then map_option (\<lambda>(xs, q). (x # xs, q)) (parse_elems n r')
               else if d = CHR '']'' then Some ([x], r') else None))"
| "parse_members 0 s = None"
| "parse_members (Suc n) s =
     (case skip_ws s of
        [] \<Rightarrow> None
      | c # r \<Rightarrow>
          if c \<noteq> quote_char then None
          else (case parse_chars r of
             None \<Rightarrow> None
           | Some (k, r1) \<Rightarrow>
               (case skip_ws r1 of
                  [] \<Rightarrow> None
                | d # r2 \<Rightarrow>
                    if d \<noteq> CHR '':'' then None
                    else (case parse_value n r2 of
                       None \<Rightarrow> None
                     | Some (x, r3) \<Rightarrow>
                         (case skip_ws r3 of
                            [] \<Rightarrow> None
                          | e # r4 \<Rightarrow>
                              if e = CHR '','' then map_option (\<lambda>(kvs, q). ((k, x) # kvs, q)) (parse_members n r4)
                              else if e = CHR ''}'' then Some ([(k, x)], r4) else None)))))"

text \<open>\<open>JSON.parse\<close>; the message of its \<open>SyntaxError\<close> is a parameter.\<close>

definition json_parse :: "(string \<Rightarrow> string) \<Rightarrow> json_parser" where
  "json_parse msg s =
     (case parse_value (2 * length s + 1) s of
        Some (j, r) \<Rightarrow> if skip_ws r = [] then Inr j else Inl (msg s)
      | None \<Rightarrow> Inl (msg s))"

section \<open>Enough fuel\<close>

lemma skip_ws_length: "length (skip_ws s) \<le> length s"
  by (simp add: skip_ws_def length_dropWhile_le)

lemma skip_ws_Cons: "skip_ws s = c # r \<Longrightarrow> Suc (length r) \<le> length s"
  using skip_ws_length [of s] by simp

lemma parse_chars_length: "parse_chars s = Some (v, r) \<Longrightarrow> length r < length s"
proof (induction s arbitrary: v r rule: parse_chars.induct)
  case (2 c s)
  note IH = 2(1,2) and p = 2(3)
  show ?case
  proof (cases "c = quote_char \<or> (of_char c :: nat) < 32")
    case True
    with p show ?thesis by (auto simp: parse_chars.simps split: if_splits)
  next
    case False
    show ?thesis
    proof (cases "c = backslash")
      case True
      with p False obtain w q v' where d: "decode_escape s = Some (w, q)" "parse_chars q = Some (v', r)"
        by (auto simp: parse_chars.simps split: option.splits)
      with False True IH(1) [of "(w, q)" w q] have "length r < length q" by simp
      with decode_escape_length [OF d(1)] show ?thesis by simp
    next
      case nb: False
      with p False obtain v' where "parse_chars s = Some (v', r)" by (auto simp: parse_chars.simps)
      with False nb IH(2) show ?thesis by fastforce
    qed
  qed
qed (simp add: parse_chars.simps)

lemma fraction_part_length: "fraction_part s = Some (f, r) \<Longrightarrow> length r \<le> length s"
  using length_dropWhile_le [of is_digit "tl s"] by (auto simp: fraction_part_def split: list.splits if_splits)

lemma exponent_length: "exponent s = Some (e, r) \<Longrightarrow> length r \<le> length s"
  using length_dropWhile_le [of is_digit "tl s"] length_dropWhile_le [of is_digit "tl (tl s)"]
  by (auto simp: exponent_def Let_def split: list.splits if_splits)

lemma parse_number_length: "parse_number s = Some (q, r) \<Longrightarrow> length r \<le> length s"
proof -
  assume p: "parse_number s = Some (q, r)"
  let ?u = "case s of [] \<Rightarrow> [] | c # v \<Rightarrow> if c = CHR ''-'' then v else s"
  obtain f r1 e where "fraction_part (dropWhile is_digit ?u) = Some (f, r1)" "exponent r1 = Some (e, r)"
    using p by (auto simp: parse_number_def Let_def split: list.splits if_splits option.splits)
  moreover have "length (dropWhile is_digit ?u) \<le> length s"
    using length_dropWhile_le [of is_digit ?u] by (auto split: list.splits)
  ultimately show ?thesis using fraction_part_length exponent_length by (meson order_trans)
qed

lemma parse_lengths_all:
  "(\<forall>s x r. parse_value n s = Some (x, r) \<longrightarrow> length r \<le> length s) \<and>
   (\<forall>s xs r. parse_elems n s = Some (xs, r) \<longrightarrow> length r \<le> length s) \<and>
   (\<forall>s kvs r. parse_members n s = Some (kvs, r) \<longrightarrow> length r \<le> length s)"
proof (induction n)
  case (Suc n)
  then have v: "\<And>s x r. parse_value n s = Some (x, r) \<Longrightarrow> length r \<le> length s"
    and e: "\<And>s xs r. parse_elems n s = Some (xs, r) \<Longrightarrow> length r \<le> length s"
    and m: "\<And>s kvs r. parse_members n s = Some (kvs, r) \<Longrightarrow> length r \<le> length s" by blast+
  have "length r \<le> length s0" if "parse_value (Suc n) s0 = Some (x, r)" for s0 x r
    using that skip_ws_length [of s0]
    by (auto simp: Let_def split: list.splits if_splits
        dest!: skip_ws_Cons parse_chars_length parse_number_length e m)
  moreover have "length r \<le> length s" if "parse_elems (Suc n) s = Some (xs, r)" for s xs r
    using that by (auto split: list.splits if_splits option.splits dest!: skip_ws_Cons v e)
  moreover have "length r \<le> length s" if "parse_members (Suc n) s = Some (kvs, r)" for s kvs r
    using that by (auto split: list.splits if_splits option.splits dest!: skip_ws_Cons v m parse_chars_length)
  ultimately show ?case by blast
qed simp

lemma parse_value_length: "parse_value n s = Some (x, r) \<Longrightarrow> length r \<le> length s"
  using parse_lengths_all by blast

text \<open>Two fuels that are both enough agree.\<close>

lemma parse_fuel_all:
  "(\<forall>s m. 2 * length s + 1 \<le> n \<longrightarrow> n \<le> m \<longrightarrow> parse_value m s = parse_value n s) \<and>
   (\<forall>s m. 2 * length s + 2 \<le> n \<longrightarrow> n \<le> m \<longrightarrow> parse_elems m s = parse_elems n s) \<and>
   (\<forall>s m. 2 * length s + 2 \<le> n \<longrightarrow> n \<le> m \<longrightarrow> parse_members m s = parse_members n s)"
proof (induction n)
  case (Suc n)
  then have v: "\<And>s m. 2 * length s + 1 \<le> n \<Longrightarrow> n \<le> m \<Longrightarrow> parse_value m s = parse_value n s"
    and e: "\<And>s m. 2 * length s + 2 \<le> n \<Longrightarrow> n \<le> m \<Longrightarrow> parse_elems m s = parse_elems n s"
    and mm: "\<And>s m. 2 * length s + 2 \<le> n \<Longrightarrow> n \<le> m \<Longrightarrow> parse_members m s = parse_members n s" by blast+
  have "parse_value m s = parse_value (Suc n) s" if l: "2 * length s + 1 \<le> Suc n" "Suc n \<le> m" for s m
  proof -
    from l(2) obtain k where k: "m = Suc k" "n \<le> k" by (cases m) auto
    have eq: "parse_elems k (d # r') = parse_elems n (d # r')" "parse_members k (d # r') = parse_members n (d # r')"
      if "skip_ws s = c # r" "skip_ws r = d # r'" for c r d r'
      using skip_ws_Cons [OF that(1)] skip_ws_Cons [OF that(2)] l(1) k(2) by (auto intro!: e mm)
    show ?thesis using eq by (auto simp: k(1) Let_def split: list.split)
  qed
  moreover have "parse_elems m s = parse_elems (Suc n) s" if l: "2 * length s + 2 \<le> Suc n" "Suc n \<le> m" for s m
  proof -
    from l(2) obtain k where k: "m = Suc k" "n \<le> k" by (cases m) auto
    have pv: "parse_value k s = parse_value n s" using l(1) k(2) by (intro v) auto
    have eq: "parse_elems k r' = parse_elems n r'"
      if "parse_value n s = Some (x, r)" "skip_ws r = d # r'" for x r d r'
      using parse_value_length [OF that(1)] skip_ws_Cons [OF that(2)] l(1) k(2) by (auto intro!: e)
    show ?thesis using eq by (auto simp: k(1) pv split: list.split option.split)
  qed
  moreover have "parse_members m s = parse_members (Suc n) s" if l: "2 * length s + 2 \<le> Suc n" "Suc n \<le> m" for s m
  proof -
    from l(2) obtain k where k: "m = Suc k" "n \<le> k" by (cases m) auto
    have pv: "parse_value k r2 = parse_value n r2"
      if "skip_ws s = c # r" "parse_chars r = Some (w, r1)" "skip_ws r1 = d # r2" for c r w r1 d r2
      using skip_ws_Cons [OF that(1)] parse_chars_length [OF that(2)] skip_ws_Cons [OF that(3)] l(1) k(2)
      by (auto intro!: v)
    have eq: "parse_members k r4 = parse_members n r4"
      if "skip_ws s = c # r" "parse_chars r = Some (w, r1)" "skip_ws r1 = d # r2"
        "parse_value n r2 = Some (x, r3)" "skip_ws r3 = b # r4" for c r w r1 d r2 x r3 b r4
      using skip_ws_Cons [OF that(1)] parse_chars_length [OF that(2)] skip_ws_Cons [OF that(3)]
        parse_value_length [OF that(4)] skip_ws_Cons [OF that(5)] l(1) k(2)
      by (auto intro!: mm)
    show ?thesis using pv eq by (auto simp: k(1) split: list.split option.split)
  qed
  ultimately show ?case by blast
qed simp

lemma parse_fuel: "2 * length s + 1 \<le> n \<Longrightarrow> parse_value n s = parse_value (2 * length s + 1) s"
  using parse_fuel_all [of "2 * length s + 1"] by blast

section \<open>Strings survive\<close>

lemma hex_val_hex_digit: "d < 16 \<Longrightarrow> hex_val (hex_digit d) = Some d"
  by (auto simp: hex_val_def hex_digit_def Let_def)

lemma hex4_byte:
  assumes "b < 256"
  shows "hex4 (CHR ''0'' # CHR ''0'' # hex_digit (b div 16) # hex_digit (b mod 16) # t) = Some (b, t)"
proof -
  have "b div 16 < 16" using assms by linarith
  then have "hex_val (hex_digit (b div 16)) = Some (b div 16)" "hex_val (hex_digit (b mod 16)) = Some (b mod 16)"
    by (simp_all add: hex_val_hex_digit)
  moreover have "hex_val (CHR ''0'') = Some 0" by (simp add: hex_val_def Let_def)
  ultimately show ?thesis by simp
qed

lemma quote_neq: "quote_char \<noteq> backslash" "backslash \<noteq> quote_char"
  by (simp_all add: quote_char_def backslash_def)

lemma parse_chars_quote: "parse_chars (quote_char # t) = Some ([], t)"
  by (simp add: parse_chars.simps)

lemma parse_chars_plain:
  "c \<noteq> quote_char \<Longrightarrow> c \<noteq> backslash \<Longrightarrow> 32 \<le> (of_char c :: nat)
     \<Longrightarrow> parse_chars (c # t) = map_option (\<lambda>(v, q). (c # v, q)) (parse_chars t)"
  by (simp add: parse_chars.simps)

lemma parse_chars_escape:
  "decode_escape s = Some (w, r) \<Longrightarrow> parse_chars (backslash # s) = map_option (\<lambda>(v, q). (w @ v, q)) (parse_chars r)"
  by (simp add: parse_chars.simps quote_neq) (simp add: backslash_def)

lemma decode_simple_escapes:
  "decode_escape (quote_char # t) = Some ([quote_char], t)"
  "decode_escape (backslash # t) = Some ([backslash], t)"
  "decode_escape (CHR ''b'' # t) = Some ([char_of (8 :: nat)], t)"
  "decode_escape (CHR ''f'' # t) = Some ([char_of (12 :: nat)], t)"
  "decode_escape (CHR ''n'' # t) = Some ([char_of (10 :: nat)], t)"
  "decode_escape (CHR ''r'' # t) = Some ([char_of (13 :: nat)], t)"
  "decode_escape (CHR ''t'' # t) = Some ([char_of (9 :: nat)], t)"
  by (simp_all add: decode_escape_def quote_char_def backslash_def)

lemma esc_byte_controls:
  "esc_byte (char_of (8 :: nat)) = backslash # ''b''" "esc_byte (char_of (12 :: nat)) = backslash # ''f''"
  "esc_byte (char_of (10 :: nat)) = backslash # ''n''" "esc_byte (char_of (13 :: nat)) = backslash # ''r''"
  "esc_byte (char_of (9 :: nat)) = backslash # ''t''"
  by (simp_all add: esc_byte_def quote_char_def backslash_def char_of_def bit_0)

lemma decode_u_escape:
  "hex4 s = Some (n, t) \<Longrightarrow> n < 0xD800 \<Longrightarrow> decode_escape (CHR ''u'' # s) = Some (utf8 n, t)"
  by (simp add: decode_escape_def quote_char_def backslash_def)

text \<open>An ASCII byte, however it is escaped.\<close>

lemma parse_esc_byte:
  assumes b: "(of_char c :: nat) < 0x80"
  shows "parse_chars (esc_byte c @ t) = map_option (\<lambda>(v, q). (c # v, q)) (parse_chars t)"
proof -
  consider (special) "c = quote_char \<or> c = backslash"
    | (control) "c \<noteq> quote_char" "c \<noteq> backslash" "(of_char c :: nat) \<in> {8, 9, 10, 12, 13}"
    | (hex) "c \<noteq> quote_char" "c \<noteq> backslash" "(of_char c :: nat) \<notin> {8, 9, 10, 12, 13}"
        "(of_char c :: nat) < 32 \<or> c = CHR ''<'' \<or> c = CHR ''>'' \<or> c = CHR ''&''"
    | (plain) "c \<noteq> quote_char" "c \<noteq> backslash" "32 \<le> (of_char c :: nat)" "esc_byte c = [c]"
  proof (cases "c = quote_char \<or> c = backslash \<or> (of_char c :: nat) \<in> {8, 9, 10, 12, 13}
      \<or> (of_char c :: nat) < 32 \<or> c = CHR ''<'' \<or> c = CHR ''>'' \<or> c = CHR ''&''")
    case True
    then show ?thesis using special control hex by blast
  next
    case False
    then show ?thesis using plain by (simp add: esc_byte_def Let_def)
  qed
  then show ?thesis
  proof cases
    case special
    then show ?thesis
      using parse_chars_escape [OF decode_simple_escapes(1)] parse_chars_escape [OF decode_simple_escapes(2)]
      by (auto simp: esc_byte_def)
  next
    case control
    have "c = char_of (of_char c :: nat)" by simp
    with control(3) have "c \<in> char_of ` {8, 9, 10, 12, 13 :: nat}" by (metis image_eqI)
    then show ?thesis
      using control(1,2) parse_chars_escape [OF decode_simple_escapes(3)] parse_chars_escape [OF decode_simple_escapes(4)]
        parse_chars_escape [OF decode_simple_escapes(5)] parse_chars_escape [OF decode_simple_escapes(6)]
        parse_chars_escape [OF decode_simple_escapes(7)]
      by (elim imageE insertE) (simp_all add: esc_byte_controls)
  next
    case hex
    let ?b = "of_char c :: nat"
    have "hex4 (CHR ''0'' # CHR ''0'' # hex_digit (?b div 16) # hex_digit (?b mod 16) # t) = Some (?b, t)"
      using b by (intro hex4_byte) simp
    from parse_chars_escape [OF decode_u_escape [OF this]] b
    have "parse_chars (backslash # ''u'' @ CHR ''0'' # CHR ''0'' # hex_digit (?b div 16) # hex_digit (?b mod 16) # t)
        = map_option (\<lambda>(v, q). (utf8 ?b @ v, q)) (parse_chars t)" by simp
    moreover have "utf8 ?b = [c]" using b by (simp add: utf8_def)
    moreover have "esc_byte c = [backslash, CHR ''u'', CHR ''0'', CHR ''0'', hex_digit (?b div 16), hex_digit (?b mod 16)]"
      using hex by (auto simp: esc_byte_def Let_def)
    ultimately show ?thesis by simp
  next
    case plain
    then show ?thesis by (simp add: parse_chars_plain)
  qed
qed

lemma high_byte: "0x80 \<le> (of_char c :: nat) \<Longrightarrow> c \<noteq> quote_char \<and> c \<noteq> backslash"
  by (auto simp: quote_char_def backslash_def)

lemma parse_high_bytes:
  "list_all (\<lambda>c. 0x80 \<le> (of_char c :: nat)) w
     \<Longrightarrow> parse_chars (w @ t) = map_option (\<lambda>(v, q). (w @ v, q)) (parse_chars t)"
proof (induction w)
  case Nil
  then show ?case by (cases "parse_chars t") auto
next
  case (Cons c w)
  then show ?case by (cases "parse_chars t") (auto simp: parse_chars_plain high_byte)
qed

text \<open>A rune of more than one byte has only high bytes.\<close>

lemma rune_len_cases:
  assumes "rune_len s = n" "0 < n"
  shows "n \<le> length s \<and> (n = 1 \<and> (of_char (hd s) :: nat) < 0x80
    \<or> 1 < n \<and> list_all (\<lambda>c. 0x80 \<le> (of_char c :: nat)) (take n s))"
proof (cases s)
  case (Cons c r)
  let ?b = "of_char c :: nat"
  show ?thesis
  proof (cases "?b < 0x80")
    case True
    then show ?thesis using assms Cons by (auto simp: rune_len_def Let_def)
  next
    case False
    then consider (2) "n = 2" "byte_in 0x80 0xBF r 0"
      | (3) "n = 3" "byte_in 0x80 0xBF r 0" "byte_in 0x80 0xBF r 1"
      | (4) "n = 4" "byte_in 0x80 0xBF r 0" "byte_in 0x80 0xBF r 1" "byte_in 0x80 0xBF r 2"
      using assms Cons by (auto simp: rune_len_def Let_def byte_in_def split: if_splits)
    then show ?thesis
    proof cases
      case 2
      then obtain d r1 where "r = d # r1" by (cases r) (auto simp: byte_in_def)
      with 2 False Cons show ?thesis by (simp add: byte_in_def)
    next
      case 3
      then obtain d e r1 where "r = d # e # r1"
        by (cases r; cases "tl r") (auto simp: byte_in_def)
      with 3 False Cons show ?thesis by (simp add: byte_in_def)
    next
      case 4
      then obtain d r1 where r: "r = d # r1" by (cases r) (auto simp: byte_in_def)
      with 4 obtain e r2 where r1: "r1 = e # r2" by (cases r1) (auto simp: byte_in_def)
      with r 4 obtain f r3 where "r2 = f # r3" by (cases r2) (auto simp: byte_in_def)
      with 4 r r1 False Cons show ?thesis by (simp add: byte_in_def)
    qed
  qed
qed (use assms in \<open>simp add: rune_len_def\<close>)

lemma hex4_separators:
  "hex4 (''2028'' @ t) = Some (0x2028, t)" "hex4 (''2029'' @ t) = Some (0x2029, t)"
  by (simp_all add: hex_val_def Let_def)

lemma utf8_separators:
  "utf8 0x2028 = [CHR 0xE2, CHR 0x80, CHR 0xA8]" "utf8 0x2029 = [CHR 0xE2, CHR 0x80, CHR 0xA9]"
  by (simp_all add: utf8_def char_of_def bit_0)

lemma parse_esc_rune:
  assumes "rune_len s = n" "0 < n"
  shows "parse_chars (esc_rune (take n s) @ t) = map_option (\<lambda>(v, q). (take n s @ v, q)) (parse_chars t)"
proof -
  from rune_len_cases [OF assms] have l: "n \<le> length s" and
    "n = 1 \<and> (of_char (hd s) :: nat) < 0x80 \<or> 1 < n \<and> list_all (\<lambda>c. 0x80 \<le> (of_char c :: nat)) (take n s)" by auto
  then consider (one) "n = 1" "(of_char (hd s) :: nat) < 0x80"
    | (more) "1 < n" "list_all (\<lambda>c. 0x80 \<le> (of_char c :: nat)) (take n s)" by blast
  then show ?thesis
  proof cases
    case one
    with l obtain c r where "s = c # r" by (cases s) auto
    with one parse_esc_byte [of c t] show ?thesis by (simp add: esc_rune_def)
  next
    case more
    have sep: "parse_chars ((backslash # ''u2028'') @ t) = map_option (\<lambda>(v, q). (utf8 0x2028 @ v, q)) (parse_chars t)"
      "parse_chars ((backslash # ''u2029'') @ t) = map_option (\<lambda>(v, q). (utf8 0x2029 @ v, q)) (parse_chars t)"
      using parse_chars_escape [OF decode_u_escape [OF hex4_separators(1)]]
        parse_chars_escape [OF decode_u_escape [OF hex4_separators(2)]] by simp_all
    have "length (take n s) \<noteq> 1" using more(1) l by simp
    then show ?thesis
      using sep parse_high_bytes [OF more(2), of t] by (simp add: esc_rune_def utf8_separators)
  qed
qed

lemma hex4_replacement: "hex4 (''fffd'' @ t) = Some (0xFFFD, t)"
  by (simp add: hex_val_def Let_def)

lemma parse_go_escape: "parse_chars (go_escape s @ quote_char # t) = Some (repair s, t)"
proof (induction s rule: repair.induct)
  case (1 s)
  let ?n = "rune_len s"
  consider "s = []" | (bad) "s \<noteq> []" "?n = 0" | (good) "s \<noteq> []" "?n \<noteq> 0" by blast
  then show ?case
  proof cases
    case bad
    then have "go_escape s = (backslash # ''ufffd'') @ go_escape (tl s)" by (subst go_escape.simps) simp
    moreover have "decode_escape (''ufffd'' @ u) = Some (utf8 0xFFFD, u)" for u
      using hex4_replacement [of u] by (simp add: decode_escape_def quote_char_def backslash_def)
    ultimately show ?thesis
      using 1(1) [OF bad] bad parse_chars_escape [of "''ufffd'' @ go_escape (tl s) @ quote_char # t"]
      by (subst repair.simps) simp
  next
    case good
    then have "go_escape s = esc_rune (take ?n s) @ go_escape (drop ?n s)" by (subst go_escape.simps) simp
    with 1(2) [OF good] good parse_esc_rune [OF refl, of s] show ?thesis by (subst repair.simps) simp
  qed (simp add: go_escape.simps repair.simps parse_chars_quote)
qed

section \<open>Documents survive\<close>

text \<open>Documents with whole numbers only, and how they arrive.\<close>

fun whole_doc :: "json \<Rightarrow> bool" where
  "whole_doc (JNum q) \<longleftrightarrow> of_int \<lfloor>q\<rfloor> = q"
| "whole_doc (JArr xs) \<longleftrightarrow> list_all whole_doc xs"
| "whole_doc (JObj kvs) \<longleftrightarrow> list_all (\<lambda>kv. whole_doc (snd kv)) kvs"
| "whole_doc (JStr s) \<longleftrightarrow> True"
| "whole_doc (JBool b) \<longleftrightarrow> True"
| "whole_doc JNull \<longleftrightarrow> True"

fun repaired :: "json \<Rightarrow> json" where
  "repaired (JStr s) = JStr (repair s)"
| "repaired (JArr xs) = JArr (map repaired xs)"
| "repaired (JObj kvs) = JObj (map (\<lambda>kv. (repair (fst kv), repaired (snd kv))) kvs)"
| "repaired j = j"

text \<open>Valid text throughout as well: such a document arrives unchanged.\<close>

fun plain_doc :: "json \<Rightarrow> bool" where
  "plain_doc (JNum q) \<longleftrightarrow> of_int \<lfloor>q\<rfloor> = q"
| "plain_doc (JStr s) \<longleftrightarrow> valid_utf8 s"
| "plain_doc (JArr xs) \<longleftrightarrow> list_all plain_doc xs"
| "plain_doc (JObj kvs) \<longleftrightarrow> list_all (\<lambda>kv. valid_utf8 (fst kv) \<and> plain_doc (snd kv)) kvs"
| "plain_doc _ \<longleftrightarrow> True"

lemma plain_whole: "plain_doc j \<Longrightarrow> whole_doc j"
  by (induction j rule: plain_doc.induct) (auto simp: list_all_iff)

lemma repaired_plain: "plain_doc j \<Longrightarrow> repaired j = j"
proof (induction j rule: plain_doc.induct)
  case (4 kvs)
  then have "map (\<lambda>kv. (repair (fst kv), repaired (snd kv))) kvs = map id kvs"
    by (intro map_cong) (auto simp: list_all_iff)
  then show ?case by simp
qed (auto simp: list_all_iff intro!: map_idI)

text \<open>What may follow a number.\<close>

definition stops :: "string \<Rightarrow> bool" where
  "stops r \<longleftrightarrow> (case r of [] \<Rightarrow> True | c # u \<Rightarrow> c \<in> {CHR '','', CHR '']'', CHR ''}'', newline})"

lemma stops_facts:
  assumes "stops r"
  shows "takeWhile is_digit r = []" "dropWhile is_digit r = r" "fraction_part r = Some ([], r)" "exponent r = Some (0, r)"
  using assms by (auto simp: stops_def fraction_part_def exponent_def is_digit_def newline_def split: list.splits)

lemma show_nat_lead: "0 < n \<Longrightarrow> hd (show_nat n) \<noteq> CHR ''0''"
proof (induction n rule: show_nat.induct)
  case (1 n)
  show ?case
  proof (cases "n < 10")
    case True
    have "digit_char n \<noteq> digit_char 0"
      using digit_val_digit_char [of n] digit_val_digit_char [of 0] True 1(2) by (metis not_gr_zero zero_less_numeral)
    moreover have "digit_char 0 = CHR ''0''" by code_simp
    ultimately show ?thesis using True by (simp add: show_nat.simps)
  next
    case False
    then have "hd (show_nat (n div 10)) \<noteq> CHR ''0''" by (intro 1(1)) auto
    with False show ?thesis by (subst show_nat.simps) simp
  qed
qed

lemma show_nat_no_leading_zero: "hd (show_nat n) = CHR ''0'' \<Longrightarrow> length (show_nat n) = 1"
  using show_nat_lead [of n] by (cases "n = 0") (auto simp: show_nat.simps)

lemma takeWhile_show_nat:
  assumes "stops r"
  shows "takeWhile is_digit (show_nat n @ r) = show_nat n" "dropWhile is_digit (show_nat n @ r) = r"
proof -
  have a: "\<forall>c \<in> set (show_nat n). is_digit c" using show_nat_digits [of n] by (simp add: list_all_iff)
  show "takeWhile is_digit (show_nat n @ r) = show_nat n"
    using takeWhile_append2 [of "show_nat n" is_digit r] a stops_facts(1) [OF assms] by simp
  show "dropWhile is_digit (show_nat n @ r) = r"
    using dropWhile_append2 [of "show_nat n" is_digit r] a stops_facts(2) [OF assms] by simp
qed

lemma parse_show_int:
  assumes "stops r"
  shows "parse_number (show_int i @ r) = Some (of_int i, r)"
proof -
  note f = takeWhile_show_nat [OF assms] stops_facts(3,4) [OF assms]
  have z: "\<not> (hd (show_nat n) = CHR ''0'' \<and> length (show_nat n) \<noteq> 1)" for n
    using show_nat_no_leading_zero by blast
  show ?thesis
  proof (cases "i < 0")
    case True
    have "of_nat (nat (- i)) = - (of_int i :: rat)" using True by (simp add: of_nat_nat)
    then show ?thesis using True f z by (simp add: show_int_def parse_number_def pow10_def Let_def)
  next
    case False
    obtain c u where c: "show_nat (nat i) = c # u" by (cases "show_nat (nat i)") auto
    then have "c \<noteq> CHR ''-''" using show_nat_digits [of "nat i"] is_digit_not(1) by simp
    moreover have "of_nat (nat i) = (of_int i :: rat)" using False by (simp add: of_nat_nat)
    moreover have "digits_val (c # u) = nat i" using c by (metis digits_val_show_nat)
    ultimately show ?thesis using False f(1,2) [of "nat i"] f(3,4) z [of "nat i"]
      by (simp add: show_int_def parse_number_def pow10_def Let_def c)
  qed
qed

text \<open>The first character of a value tells it from white space and from closing brackets.\<close>

definition opens_value :: "char \<Rightarrow> bool" where
  "opens_value c \<longleftrightarrow> \<not> json_space c \<and> c \<noteq> CHR '']''"

lemma opens_digit: "is_digit c \<Longrightarrow> opens_value c \<and> c \<notin> {CHR ''['', CHR ''{'', quote_char, CHR ''n'', CHR ''t'', CHR ''f''}"
  by (auto simp: opens_value_def json_space_def is_digit_def quote_char_def)

lemma opens_minus: "opens_value CHR ''-''"
  by (simp add: opens_value_def json_space_def)

lemma show_int_head:
  obtains c u where "show_int i = c # u" "opens_value c"
    "c \<notin> {CHR ''['', CHR ''{'', quote_char, CHR ''n'', CHR ''t'', CHR ''f''}"
proof (cases "i < 0")
  case True
  then show ?thesis using that [of "CHR ''-''"] opens_minus by (simp add: show_int_def quote_char_def)
next
  case False
  obtain c u where c: "show_nat (nat i) = c # u" by (cases "show_nat (nat i)") auto
  then have "is_digit c" using show_nat_digits [of "nat i"] by simp
  from opens_digit [OF this] False c show ?thesis using that [of c u] by (simp add: show_int_def)
qed

lemma go_value_head:
  assumes "whole_doc j"
  obtains c u where "go_value fmt j = c # u" "opens_value c"
proof (cases j)
  case (JNum q)
  obtain c u where "show_int \<lfloor>q\<rfloor> = c # u" "opens_value c" by (rule show_int_head [of "\<lfloor>q\<rfloor>"])
  then show ?thesis using that [of c u] assms JNum by (simp add: go_number_def)
next
  case (JBool b)
  then show ?thesis
    using that [of "CHR ''t''"] that [of "CHR ''f''"] by (cases b) (auto simp: opens_value_def json_space_def)
qed (use that in \<open>auto simp: opens_value_def json_space_def go_string_def quote_char_def\<close>)

lemma skip_ws_plain [simp]: "\<not> json_space c \<Longrightarrow> skip_ws (c # s) = c # s"
  by (simp add: skip_ws_def)

lemma brackets_no_space [simp]:
  "\<not> json_space CHR ''[''" "\<not> json_space CHR '']''" "\<not> json_space CHR ''{''" "\<not> json_space CHR ''}''"
  "\<not> json_space CHR '',''" "\<not> json_space CHR '':''" "\<not> json_space quote_char" "\<not> json_space CHR ''n''"
  "\<not> json_space CHR ''t''" "\<not> json_space CHR ''f''"
  by (simp_all add: json_space_def quote_char_def)

lemma stops_brackets [simp]:
  "stops (CHR '','' # r)" "stops (CHR '']'' # r)" "stops (CHR ''}'' # r)" "stops [newline]"
  by (simp_all add: stops_def)

lemma quote_no_bracket [simp]:
  "quote_char \<noteq> CHR ''[''" "quote_char \<noteq> CHR ''{''" "quote_char \<noteq> CHR '']''" "quote_char \<noteq> CHR ''}''"
  by (simp_all add: quote_char_def)

text \<open>A value is read back in front of anything that may follow it, with enough fuel.\<close>

definition reads_back :: "(rat \<Rightarrow> string) \<Rightarrow> json \<Rightarrow> bool" where
  "reads_back fmt j \<longleftrightarrow> (\<forall>r n. stops r \<longrightarrow> 2 * length (go_value fmt j @ r) + 1 \<le> n
     \<longrightarrow> parse_value n (go_value fmt j @ r) = Some (repaired j, r))"

lemma reads_backI:
  assumes "\<And>r n. stops r \<Longrightarrow> 2 * length (go_value fmt j @ r) \<le> n \<Longrightarrow> parse_value (Suc n) (go_value fmt j @ r) = Some (repaired j, r)"
  shows "reads_back fmt j"
  unfolding reads_back_def
proof (intro allI impI)
  fix r n
  assume "stops r" "2 * length (go_value fmt j @ r) + 1 \<le> n"
  then obtain m where "n = Suc m" "2 * length (go_value fmt j @ r) \<le> m" by (cases n) auto
  with assms \<open>stops r\<close> show "parse_value n (go_value fmt j @ r) = Some (repaired j, r)" by simp
qed

lemma reads_backD:
  "reads_back fmt j \<Longrightarrow> stops r \<Longrightarrow> 2 * length (go_value fmt j @ r) + 1 \<le> n
     \<Longrightarrow> parse_value n (go_value fmt j @ r) = Some (repaired j, r)"
  by (simp add: reads_back_def)

lemma parse_elems_back:
  assumes "\<forall>x \<in> set xs. reads_back fmt x" "xs \<noteq> []"
    and "2 * length (join_comma (map (go_value fmt) xs) @ CHR '']'' # r) + 2 \<le> n"
  shows "parse_elems n (join_comma (map (go_value fmt) xs) @ CHR '']'' # r) = Some (map repaired xs, r)"
  using assms
proof (induction xs arbitrary: n)
  case (Cons x xs)
  obtain m where m: "n = Suc m" using Cons.prems(3) by (cases n) auto
  show ?case
  proof (cases xs)
    case Nil
    have "parse_value m (go_value fmt x @ CHR '']'' # r) = Some (repaired x, CHR '']'' # r)"
      using Cons.prems m Nil by (intro reads_backD) auto
    with m Nil show ?thesis by simp
  next
    case (Cons y ys)
    let ?t = "join_comma (map (go_value fmt) xs) @ CHR '']'' # r"
    have t: "join_comma (map (go_value fmt) (x # xs)) @ CHR '']'' # r = go_value fmt x @ CHR '','' # ?t"
      using Cons by simp
    have "parse_value m (go_value fmt x @ CHR '','' # ?t) = Some (repaired x, CHR '','' # ?t)"
      using Cons.prems m unfolding t by (intro reads_backD) auto
    moreover have "parse_elems m ?t = Some (map repaired xs, r)"
      using Cons.prems m Cons unfolding t by (intro Cons.IH) auto
    ultimately show ?thesis unfolding t m by simp
  qed
qed simp

abbreviation go_member :: "(rat \<Rightarrow> string) \<Rightarrow> string \<times> json \<Rightarrow> string" where
  "go_member fmt kv \<equiv> go_string (fst kv) @ '':'' @ go_value fmt (snd kv)"

lemma parse_members_back:
  assumes "\<forall>kv \<in> set kvs. reads_back fmt (snd kv)" "kvs \<noteq> []"
    and "2 * length (join_comma (map (go_member fmt) kvs) @ CHR ''}'' # r) + 2 \<le> n"
  shows "parse_members n (join_comma (map (go_member fmt) kvs) @ CHR ''}'' # r) = Some (map (\<lambda>kv. (repair (fst kv), repaired (snd kv))) kvs, r)"
  using assms
proof (induction kvs arbitrary: n)
  case (Cons kv kvs)
  obtain k x where kv: "kv = (k, x)" by (cases kv)
  obtain m where m: "n = Suc m" using Cons.prems(3) by (cases n) auto
  have key: "parse_chars (go_escape k @ quote_char # u) = Some (repair k, u)" for u
    by (rule parse_go_escape)
  show ?case
  proof (cases kvs)
    case Nil
    have "parse_value m (go_value fmt x @ CHR ''}'' # r) = Some (repaired x, CHR ''}'' # r)"
      using Cons.prems m Nil kv by (intro reads_backD) auto
    with m Nil kv key show ?thesis by (simp add: go_string_def)
  next
    case (Cons y ys)
    let ?t = "join_comma (map (go_member fmt) kvs) @ CHR ''}'' # r"
    have t: "join_comma (map (go_member fmt) (kv # kvs)) @ CHR ''}'' # r
        = quote_char # go_escape k @ quote_char # CHR '':'' # go_value fmt x @ CHR '','' # ?t"
      using Cons kv by (simp add: go_string_def)
    have "parse_value m (go_value fmt x @ CHR '','' # ?t) = Some (repaired x, CHR '','' # ?t)"
      using Cons.prems m kv unfolding t by (intro reads_backD) auto
    moreover have "parse_members m ?t = Some (map (\<lambda>kv. (repair (fst kv), repaired (snd kv))) kvs, r)"
      using Cons.prems m Cons unfolding t by (intro Cons.IH) auto
    ultimately show ?thesis unfolding t m by (simp add: key kv)
  qed
qed simp

lemma whole_reads_back: "whole_doc j \<Longrightarrow> reads_back fmt j"
proof (induction j rule: whole_doc.induct)
  case (1 q)
  then have q: "of_int \<lfloor>q\<rfloor> = q" by simp
  obtain c u where c: "show_int \<lfloor>q\<rfloor> = c # u" "opens_value c"
    "c \<notin> {CHR ''['', CHR ''{'', quote_char, CHR ''n'', CHR ''t'', CHR ''f''}" by (rule show_int_head)
  show ?case
  proof (rule reads_backI)
    fix r n assume "stops r"
    from parse_show_int [OF this, of "\<lfloor>q\<rfloor>"] show "parse_value (Suc n) (go_value fmt (JNum q) @ r) = Some (repaired (JNum q), r)"
      using c q by (simp add: go_number_def Let_def opens_value_def has_prefix_def)
  qed
next
  case (2 xs)
  show ?case
  proof (rule reads_backI)
    fix r n assume n: "2 * length (go_value fmt (JArr xs) @ r) \<le> n"
    show "parse_value (Suc n) (go_value fmt (JArr xs) @ r) = Some (repaired (JArr xs), r)"
    proof (cases xs)
      case (Cons x ys)
      obtain c u where c: "go_value fmt x = c # u" "opens_value c"
        using go_value_head [of x fmt] 2(2) Cons by auto
      obtain v where v: "join_comma (map (go_value fmt) xs) = c # v"
        using c Cons by (cases ys) auto
      have "parse_elems n (join_comma (map (go_value fmt) xs) @ CHR '']'' # r) = Some (map repaired xs, r)"
        using 2 n Cons by (intro parse_elems_back) (auto simp: list_all_iff)
      with v c(2) show ?thesis by (simp add: Let_def opens_value_def)
    qed (simp add: Let_def)
  qed
next
  case (3 kvs)
  show ?case
  proof (rule reads_backI)
    fix r n assume n: "2 * length (go_value fmt (JObj kvs) @ r) \<le> n"
    show "parse_value (Suc n) (go_value fmt (JObj kvs) @ r) = Some (repaired (JObj kvs), r)"
    proof (cases kvs)
      case (Cons kv ys)
      obtain v where v: "join_comma (map (go_member fmt) kvs) = quote_char # v"
        using Cons by (cases ys) (auto simp: go_string_def)
      have "parse_members n (join_comma (map (go_member fmt) kvs) @ CHR ''}'' # r) = Some (map (\<lambda>kv. (repair (fst kv), repaired (snd kv))) kvs, r)"
        using 3 n Cons by (intro parse_members_back) (auto simp: list_all_iff)
      with v show ?thesis by (simp add: Let_def)
    qed (simp add: Let_def)
  qed
next
  case (4 s)
  then show ?case by (intro reads_backI) (simp add: go_string_def Let_def parse_go_escape)
qed (auto intro!: reads_backI simp: has_prefix_def Let_def quote_char_def)

lemma skip_ws_newline [simp]: "skip_ws [newline] = []"
  by (simp add: skip_ws_def json_space_def newline_def)

lemma json_parse_encode:
  assumes "whole_doc j"
  shows "json_parse msg (go_encode fmt j) = Inr (repaired j)"
proof -
  have "parse_value (2 * length (go_encode fmt j) + 1) (go_encode fmt j) = Some (repaired j, [newline])"
    unfolding go_encode_def by (intro reads_backD whole_reads_back assms) auto
  then show ?thesis by (simp only: json_parse_def) simp
qed

section \<open>The interface\<close>

text \<open>
  What the client relies on: the parser reads a printed document, up to a change of its texts. A
  response with such a document settles the call of \<open>api.fetch\<close>. On the documents that arrive
  unchanged, printing loses nothing.
\<close>

locale json_wire =
  fixes print_doc :: "json \<Rightarrow> string" and parse :: json_parser and ok_doc :: "json \<Rightarrow> bool"
    and arrives :: "json \<Rightarrow> json"
  assumes read_back: "ok_doc j \<Longrightarrow> parse (print_doc j) = Inr (arrives j)"
begin

lemma print_inj: "ok_doc i \<Longrightarrow> ok_doc j \<Longrightarrow> print_doc i = print_doc j \<Longrightarrow> arrives i = arrives j"
  by (metis read_back sum.inject(2))

lemma settle_document:
  assumes "ok_doc j" "resp_ok r" "resp_body r = print_doc j"
  shows "fetch_settle parse (NetResponse r) = Inr (arrives j)"
  using assms(2,3) read_back [OF assms(1)] by simp

lemma fetch_document:
  assumes "ok_doc j" "net (fetch_request ls path opts) = NetResponse r" "resp_ok r" "resp_body r = print_doc j"
  shows "api_fetch parse net ls path opts = Inr (arrives j)"
  using settle_document [OF assms(1,3,4)] assms(2) by (simp add: api_fetch_def)

end

interpretation go_json: json_wire "go_encode fmt" "json_parse msg" whole_doc repaired for fmt msg
  by unfold_locales (rule json_parse_encode)

locale faithful_wire = json_wire +
  assumes arrives_idem: "ok_doc j \<Longrightarrow> arrives j = j"
begin

lemma print_inj_on: "inj_on print_doc {j. ok_doc j}"
  by (rule inj_onI) (use print_inj arrives_idem in auto)

lemma fetch_unchanged:
  assumes "ok_doc j" "net (fetch_request ls path opts) = NetResponse r" "resp_ok r" "resp_body r = print_doc j"
  shows "api_fetch parse net ls path opts = Inr j"
  using fetch_document [of j net ls path opts r, OF assms] arrives_idem [OF assms(1)] by simp

end

interpretation plain_json: faithful_wire "go_encode fmt" "json_parse msg" plain_doc repaired for fmt msg
  by unfold_locales (simp_all add: json_parse_encode plain_whole repaired_plain)

end
