(* ===== verification/HttpMux.thy ===== *)
theory HttpMux
  imports Json
begin

text \<open>
  The part of Go's \<open>net/http\<close> that both servers build on: requests and responses, and \<open>ServeMux\<close> with
  patterns that are paths, exact or (with a final slash) for a subtree. A path is the decoded path of
  the request, taken to contain no character that needs an escape; patterns have no method or host.
\<close>

section \<open>Requests and responses\<close>

record http_request =
  hq_method :: string
  hq_path :: string
  hq_auth :: string \<comment> \<open>the \<open>Authorization\<close> header, empty when missing\<close>
  hq_query :: "string \<rightharpoonup> string"

datatype body = NoBody | JsonBody json | TextBody string | FileBody string

record http_response =
  hs_status :: int
  hs_type :: string
  hs_location :: string
  hs_body :: body

definition query_get :: "http_request \<Rightarrow> string \<Rightarrow> string" where
  "query_get r k = (case hq_query r k of Some v \<Rightarrow> v | None \<Rightarrow> [])"

definition plain_response :: "int \<Rightarrow> http_response" where
  "plain_response code = \<lparr>hs_status = code, hs_type = [], hs_location = [], hs_body = NoBody\<rparr>"

section \<open>Cleaning a path\<close>

fun clean_segment :: "string list \<Rightarrow> string \<Rightarrow> string list" where
  "clean_segment stack seg =
     (if seg = [] \<or> seg = ''.'' then stack else if seg = ''..'' then tl stack else seg # stack)"

fun join_slash :: "string list \<Rightarrow> string" where
  "join_slash [] = []"
| "join_slash [s] = s"
| "join_slash (s # t # ss) = s @ ''/'' @ join_slash (t # ss)"

text \<open>\<open>path.Clean\<close> of a rooted path, and the multiplexer's \<open>cleanPath\<close>.\<close>

definition path_clean :: "string \<Rightarrow> string" where
  "path_clean p = CHR ''/'' # join_slash (rev (foldl clean_segment [] (split_on (CHR ''/'') p)))"

definition clean_path :: "string \<Rightarrow> string" where
  "clean_path p0 =
     (if p0 = [] then ''/''
      else let p = (if hd p0 = CHR ''/'' then p0 else CHR ''/'' # p0); np = path_clean p
        in if last p = CHR ''/'' \<and> np \<noteq> ''/'' then np @ ''/'' else np)"

section \<open>Matching\<close>

datatype 'r mux_result = MuxRoute 'r | MuxRedirect string | MuxNotFound

text \<open>A subtree pattern matches every path it is a prefix of; the longest match wins.\<close>

fun best_subtree :: "(string \<times> 'r) list \<Rightarrow> string \<Rightarrow> (string \<times> 'r) option" where
  "best_subtree [] path = None"
| "best_subtree ((pat, r) # routes) path =
     (let rest = best_subtree routes path in
      if has_suffix pat ''/'' \<and> has_prefix path pat
         \<and> (case rest of None \<Rightarrow> True | Some (pat', r') \<Rightarrow> length pat' < length pat)
      then Some (pat, r) else rest)"

definition mux_find :: "(string \<times> 'r) list \<Rightarrow> string \<Rightarrow> 'r option" where
  "mux_find routes path =
     (case map_of routes path of Some r \<Rightarrow> Some r | None \<Rightarrow> map_option snd (best_subtree routes path))"

definition serve_mux :: "(string \<times> 'r) list \<Rightarrow> string \<Rightarrow> 'r mux_result" where
  "serve_mux routes path0 =
     (let path = clean_path path0 in
      if map_of routes path = None \<and> \<not> has_suffix path ''/'' \<and> map_of routes (path @ ''/'') \<noteq> None
      then MuxRedirect (path @ ''/'')
      else if path \<noteq> path0 then MuxRedirect path
      else case mux_find routes path of None \<Rightarrow> MuxNotFound | Some r \<Rightarrow> MuxRoute r)"

section \<open>Facts\<close>

definition plain_segment :: "string \<Rightarrow> bool" where
  "plain_segment s \<longleftrightarrow> s \<noteq> [] \<and> s \<noteq> ''.'' \<and> s \<noteq> ''..'' \<and> CHR ''/'' \<notin> set s"

lemma split_on_join_slash:
  "list_all (\<lambda>s. CHR ''/'' \<notin> set s) ss \<Longrightarrow> ss \<noteq> [] \<Longrightarrow> split_on (CHR ''/'') (join_slash ss) = ss"
  by (induction ss rule: join_slash.induct) (auto simp: split_on_notin split_on_append)

lemma foldl_clean_plain:
  "list_all plain_segment ss \<Longrightarrow> foldl clean_segment stack ss = rev ss @ stack"
  by (induction ss arbitrary: stack) (auto simp: plain_segment_def)

lemma join_slash_last:
  "list_all plain_segment ss \<Longrightarrow> ss \<noteq> [] \<Longrightarrow> join_slash ss \<noteq> [] \<and> last (join_slash ss) \<noteq> CHR ''/''"
proof (induction ss rule: join_slash.induct)
  case (2 s)
  then have "CHR ''/'' \<notin> set s" "s \<noteq> []" by (auto simp: plain_segment_def)
  then have "last s \<noteq> CHR ''/''" using last_in_set [of s] by metis
  with \<open>s \<noteq> []\<close> show ?case by simp
qed auto

text \<open>A path of plain segments is clean.\<close>

lemma clean_path_plain:
  assumes "list_all plain_segment ss" "ss \<noteq> []"
  shows "clean_path (CHR ''/'' # join_slash ss) = CHR ''/'' # join_slash ss"
proof -
  have "list_all (\<lambda>s. CHR ''/'' \<notin> set s) ss" using assms(1) by (auto simp: list_all_iff plain_segment_def)
  then have "split_on (CHR ''/'') (CHR ''/'' # join_slash ss) = [] # ss"
    using assms(2) by (simp add: split_on_join_slash)
  then have "path_clean (CHR ''/'' # join_slash ss) = CHR ''/'' # join_slash ss"
    using assms(1) by (simp add: path_clean_def foldl_clean_plain)
  then show ?thesis using join_slash_last [OF assms] by (simp add: clean_path_def Let_def)
qed

lemma join_slash_Cons: "ss \<noteq> [] \<Longrightarrow> join_slash (s # ss) = s @ ''/'' @ join_slash ss"
  by (cases ss) auto

end
