(* ===== verification/GoTime.thy ===== *)
theory GoTime
  imports Float64 "HOL-Library.Multiset"
begin

text \<open>
  The parts of Go's runtime and standard library that the daemon's code computes with: \<open>int64\<close>
  arithmetic, \<open>time.Time\<close> and \<open>time.Duration\<close>, \<open>time.ParseDuration\<close>, and maps. A point in time
  is its distance from the Unix epoch in nanoseconds; \<open>time.Time\<close>'s own range is some 292 billion
  years on both sides, so additions of durations stay inside it. Clock readings are one clock's.
\<close>

section \<open>64-bit integers\<close>

definition wrap64 :: "int \<Rightarrow> int" where
  "wrap64 x = (x + 2 ^ 63) mod 2 ^ 64 - 2 ^ 63"

definition max_int64 :: int where "max_int64 = 2 ^ 63 - 1"
definition min_int64 :: int where "min_int64 = - (2 ^ 63)"

text \<open>\<open>1 << n\<close> on an \<open>int\<close>, and \<open>*\<close> on \<open>int64\<close> values.\<close>

definition shl64 :: "int \<Rightarrow> nat \<Rightarrow> int" where
  "shl64 x n = wrap64 (x * 2 ^ n)"

definition mul64 :: "int \<Rightarrow> int \<Rightarrow> int" where
  "mul64 x y = wrap64 (x * y)"

lemma wrap64_id: "min_int64 \<le> x \<Longrightarrow> x \<le> max_int64 \<Longrightarrow> wrap64 x = x"
  by (simp add: wrap64_def min_int64_def max_int64_def)

lemma wrap64_range: "min_int64 \<le> wrap64 x \<and> wrap64 x \<le> max_int64"
  by (simp add: wrap64_def min_int64_def max_int64_def)

section \<open>Durations and times\<close>

definition microsecond :: int where "microsecond = 1000"
definition millisecond :: int where "millisecond = 1000000"
definition second :: int where "second = 1000000000"
definition minute :: int where "minute = 60000000000"
definition hour :: int where "hour = 3600000000000"

lemmas duration_defs = microsecond_def millisecond_def second_def minute_def hour_def

text \<open>The zero value of \<open>time.Time\<close>: January 1, year 1, 00:00:00 UTC.\<close>

definition zero_time :: int where
  "zero_time = - 62135596800 * 1000000000"

definition is_zero_time :: "int \<Rightarrow> bool" where
  "is_zero_time t \<longleftrightarrow> t = zero_time"

text \<open>\<open>t.Sub(u)\<close> saturates.\<close>

definition time_sub :: "int \<Rightarrow> int \<Rightarrow> int" where
  "time_sub t u = (if t - u > max_int64 then max_int64 else if t - u < min_int64 then min_int64 else t - u)"

definition time_add :: "int \<Rightarrow> int \<Rightarrow> int" where
  "time_add t d = t + d"

section \<open>\<open>time.ParseDuration\<close>\<close>

text \<open>The units, the micro sign and the Greek letter mu as their UTF-8 bytes.\<close>

definition unit_map :: "(string \<times> nat) list" where
  "unit_map =
     [(''ns'', 1), (''us'', 1000), ([CHR 0xC2, CHR 0xB5, CHR ''s''], 1000),
      ([CHR 0xCE, CHR 0xBC, CHR ''s''], 1000), (''ms'', 1000000), (''s'', 1000000000),
      (''m'', 60000000000), (''h'', 3600000000000)]"

text \<open>\<open>leadingInt\<close>: the digits in front, or nothing when they exceed \<open>2^63\<close>.\<close>

fun leading_int :: "nat \<Rightarrow> string \<Rightarrow> (nat \<times> string) option" where
  "leading_int x [] = Some (x, [])"
| "leading_int x (c # s) =
     (if \<not> is_digit c then Some (x, c # s)
      else if x > 2 ^ 63 div 10 then None
      else let y = x * 10 + digit_val c in if y > 2 ^ 63 then None else leading_int y s)"

text \<open>\<open>leadingFraction\<close>: digits beyond the precision of the accumulator are skipped.\<close>

fun leading_fraction :: "nat \<Rightarrow> nat \<Rightarrow> bool \<Rightarrow> string \<Rightarrow> nat \<times> nat \<times> string" where
  "leading_fraction x scale ov [] = (x, scale, [])"
| "leading_fraction x scale ov (c # s) =
     (if \<not> is_digit c then (x, scale, c # s)
      else if ov then leading_fraction x scale True s
      else if x > (2 ^ 63 - 1) div 10 then leading_fraction x scale True s
      else let y = x * 10 + digit_val c in
        if y > 2 ^ 63 then leading_fraction x scale True s
        else leading_fraction y (scale * 10) False s)"

text \<open>\<open>uint64(float64(f) * (float64(unit) / scale))\<close>\<close>

definition fraction_ns :: "nat \<Rightarrow> nat \<Rightarrow> nat \<Rightarrow> nat" where
  "fraction_ns f u scale =
     (case f_mul (rnd64 (of_nat f)) (f_div (rnd64 (of_nat u)) (rnd64 (of_nat scale))) of
        Fin q \<Rightarrow> nat \<lfloor>q\<rfloor> | _ \<Rightarrow> 0)"

definition is_dot_or_digit :: "char \<Rightarrow> bool" where
  "is_dot_or_digit c \<longleftrightarrow> c = CHR ''.'' \<or> is_digit c"

text \<open>One \<open>number unit\<close> group: its nanoseconds and the rest of the text.\<close>

definition duration_group :: "string \<Rightarrow> (nat \<times> string) option" where
  "duration_group s =
     (if s = [] \<or> \<not> is_dot_or_digit (hd s) then None
      else case leading_int 0 s of
        None \<Rightarrow> None
      | Some (v, s1) \<Rightarrow>
          let pre = (length s1 \<noteq> length s);
              dot = (s1 \<noteq> [] \<and> hd s1 = CHR ''.'');
              (f, scale, s2) = (if dot then leading_fraction 0 1 False (tl s1) else (0, 1, s1));
              post = (dot \<and> length s2 \<noteq> length (tl s1));
              u = takeWhile (\<lambda>c. \<not> is_dot_or_digit c) s2;
              s3 = dropWhile (\<lambda>c. \<not> is_dot_or_digit c) s2
          in if \<not> pre \<and> \<not> post then None
             else if u = [] then None
             else case map_of unit_map u of
               None \<Rightarrow> None
             | Some w \<Rightarrow>
                 if v > 2 ^ 63 div w then None
                 else let n = v * w + (if f > 0 then fraction_ns f w scale else 0)
                      in if n > 2 ^ 63 then None else Some (n, s3))"

lemma leading_int_length: "leading_int x s = Some (v, r) \<Longrightarrow> length r \<le> length s"
  by (induction x s rule: leading_int.induct) (auto simp: Let_def split: if_splits)

lemma leading_fraction_length: "leading_fraction x sc ov s = (f, sc', r) \<Longrightarrow> length r \<le> length s"
  by (induction x sc ov s rule: leading_fraction.induct) (auto simp: Let_def split: if_splits)

lemma duration_group_length: "duration_group s = Some (n, r) \<Longrightarrow> length r < length s"
proof -
  assume *: "duration_group s = Some (n, r)"
  from * obtain v s1 where 1: "leading_int 0 s = Some (v, s1)"
    by (auto simp: duration_group_def split: if_splits option.splits)
  let ?dot = "s1 \<noteq> [] \<and> hd s1 = CHR ''.''"
  obtain f scale s2 where 2: "(if ?dot then leading_fraction 0 1 False (tl s1) else (0, 1, s1)) = (f, scale, s2)"
    by (metis prod_cases3)
  have l2: "length s2 \<le> length s1"
  proof (cases ?dot)
    case True
    with 2 have "leading_fraction 0 1 False (tl s1) = (f, scale, s2)" by simp
    then have "length s2 \<le> length (tl s1)" by (rule leading_fraction_length)
    then show ?thesis by simp
  next
    case False
    with 2 show ?thesis by auto
  qed
  let ?u = "takeWhile (\<lambda>c. \<not> is_dot_or_digit c) s2"
  from * have r: "r = dropWhile (\<lambda>c. \<not> is_dot_or_digit c) s2" and u: "?u \<noteq> []"
    unfolding duration_group_def 1 option.case prod.case 2 Let_def
    by (auto simp: Let_def split: if_splits option.splits)
  have "length s2 = length ?u + length r"
    unfolding r by (metis length_append takeWhile_dropWhile_id)
  moreover have "0 < length ?u" using u by simp
  ultimately show "length r < length s"
    using l2 leading_int_length [OF 1] by linarith
qed

function duration_groups :: "nat \<Rightarrow> string \<Rightarrow> nat option" where
  "duration_groups d s =
     (if s = [] then Some d
      else case duration_group s of
        None \<Rightarrow> None
      | Some (n, r) \<Rightarrow> if d + n > 2 ^ 63 then None else duration_groups (d + n) r)"
  by pat_completeness auto
termination
  by (relation "measure (\<lambda>(d, s). length s)") (auto dest: duration_group_length)

declare duration_groups.simps [simp del]

definition parse_duration :: "string \<Rightarrow> int option" where
  "parse_duration s =
     (let (neg, t) = (if s \<noteq> [] \<and> (hd s = CHR ''-'' \<or> hd s = CHR ''+'') then (hd s = CHR ''-'', tl s)
                      else (False, s))
      in if t = ''0'' then Some 0
         else if t = [] then None
         else case duration_groups 0 t of
           None \<Rightarrow> None
         | Some d \<Rightarrow> if neg then Some (- int d) else if d > 2 ^ 63 - 1 then None else Some (int d))"

section \<open>\<open>Duration.String\<close>\<close>

text \<open>\<open>fmtFrac\<close>: the decimal fraction without its trailing zeros, and the integer part.\<close>

definition pad_zeros :: "nat \<Rightarrow> string \<Rightarrow> string" where
  "pad_zeros n s = replicate (n - length s) (CHR ''0'') @ s"

definition fmt_frac :: "nat \<Rightarrow> nat \<Rightarrow> string \<times> nat" where
  "fmt_frac v prec =
     (let ds = rev (dropWhile (\<lambda>c. c = CHR ''0'') (rev (pad_zeros prec (show_nat (v mod 10 ^ prec)))))
      in (if ds = [] then [] else CHR ''.'' # ds, v div 10 ^ prec))"

definition duration_string :: "int \<Rightarrow> string" where
  "duration_string d =
     (let u = nat \<bar>d\<bar>; sign = (if d < 0 then ''-'' else []) in
      if u = 0 then ''0s''
      else if u < 1000 then sign @ show_nat u @ ''ns''
      else if u < 1000000 then (let (f, v) = fmt_frac u 3 in sign @ show_nat v @ f @ [CHR 0xC2, CHR 0xB5, CHR ''s''])
      else if u < 1000000000 then (let (f, v) = fmt_frac u 6 in sign @ show_nat v @ f @ ''ms'')
      else
        let (f, secs) = fmt_frac u 9;
            s = show_nat (secs mod 60) @ f @ ''s'';
            mins = secs div 60;
            m = (if mins > 0 then show_nat (mins mod 60) @ ''m'' @ s else s);
            hours = mins div 60
        in sign @ (if hours > 0 then show_nat hours @ ''h'' @ m else m))"

section \<open>Maps\<close>

text \<open>
  A Go map is an association list with distinct keys; the order in which \<open>range\<close> visits it is
  unspecified, so code that ranges over a map takes the reordering as an argument.
\<close>

type_synonym 'a gomap = "(string \<times> 'a) list"
type_synonym 'a range_order = "(string \<times> 'a) list \<Rightarrow> (string \<times> 'a) list"

abbreviation keys_distinct :: "'a gomap \<Rightarrow> bool" where
  "keys_distinct m \<equiv> distinct (map fst m)"

section \<open>Facts\<close>

lemma duration_groups_unit:
  assumes u: "map_of unit_map u = Some w" "u \<noteq> []" "list_all (\<lambda>c. \<not> is_dot_or_digit c) u"
    and w: "0 < w" and n: "n * w \<le> 2 ^ 63"
  shows "duration_groups 0 (show_nat n @ u) = Some (n * w)"
proof -
  have li: "leading_int x (ds @ u) = Some (foldl (\<lambda>n c. 10 * n + digit_val c) x ds, u)"
    if "list_all is_digit ds" "foldl (\<lambda>n c. 10 * n + digit_val c) x ds \<le> 2 ^ 63" for x ds
    using that
  proof (induction ds arbitrary: x)
    case Nil
    obtain c r where "u = c # r" using u(2) by (cases u) auto
    with u(3) show ?case by (auto simp: is_dot_or_digit_def)
  next
    case (Cons c ds)
    have mono: "y \<le> foldl (\<lambda>n c. 10 * n + digit_val c) y es" for y :: nat and es
    proof (induction es arbitrary: y)
      case (Cons e es)
      have "y \<le> 10 * y + digit_val e" by simp
      also have "\<dots> \<le> foldl (\<lambda>n c. 10 * n + digit_val c) (10 * y + digit_val e) es" by (rule Cons)
      finally show ?case by simp
    qed simp
    from Cons.prems(2) mono [of "10 * x + digit_val c" ds]
    have b: "10 * x + digit_val c \<le> 2 ^ 63" by simp
    then have "x \<le> 2 ^ 63 div 10" by (simp add: less_eq_div_iff_mult_less_eq)
    with b Cons show ?case by (simp add: Let_def mult.commute)
  qed
  have n63: "n \<le> 2 ^ 63" using n w by (metis mult.right_neutral mult_le_mono2 Suc_leI One_nat_def le_trans)
  have l: "leading_int 0 (show_nat n @ u) = Some (n, u)"
    using li [of "show_nat n" 0] show_nat_digits n63 digits_val_show_nat [of n] by (simp add: digits_val_def)
  obtain c r where cr: "show_nat n = c # r" by (cases "show_nat n") auto
  have "is_digit c" using show_nat_digits [of n] cr by simp
  then have hd: "is_dot_or_digit (hd (show_nat n @ u))" by (simp add: cr is_dot_or_digit_def)
  have tw: "takeWhile (\<lambda>c. \<not> is_dot_or_digit c) u = u" "dropWhile (\<lambda>c. \<not> is_dot_or_digit c) u = []"
    using u(3) by (simp_all add: list_all_iff takeWhile_eq_all_conv dropWhile_eq_Nil_conv)
  have dot: "hd u \<noteq> CHR ''.''" using u by (cases u) (auto simp: is_dot_or_digit_def)
  have "n \<le> 2 ^ 63 div w" using n w by (simp add: less_eq_div_iff_mult_less_eq)
  then have "duration_group (show_nat n @ u) = Some (n * w, [])"
    using hd u(1,2) l n
    unfolding duration_group_def by (simp add: dot tw Let_def)
  with n u(2) show ?thesis
    by (simp add: duration_groups.simps [of 0 "show_nat n @ u"] duration_groups.simps [of "n * w" "[]"])
qed

text \<open>A whole number of a unit that a duration can hold parses to itself.\<close>

lemma parse_duration_unit:
  assumes u: "map_of unit_map u = Some w" "u \<noteq> []" "list_all (\<lambda>c. \<not> is_dot_or_digit c) u"
    and w: "0 < w" and n: "int n * int w \<le> max_int64"
  shows "parse_duration (show_nat n @ u) = Some (int n * int w)"
proof -
  have "int (n * w) < int (2 ^ 63)" using n by (simp add: max_int64_def)
  then have n': "n * w < 2 ^ 63" by (simp only: of_nat_less_iff)
  obtain c r where cr: "show_nat n = c # r" by (cases "show_nat n") auto
  have "is_digit c" using show_nat_digits [of n] cr by simp
  then have c: "c \<noteq> CHR ''-''" "c \<noteq> CHR ''+''" by (auto simp: is_digit_def)
  have ne: "show_nat n @ u \<noteq> ''0''" using u(2) cr by (cases r) auto
  have "duration_groups 0 (show_nat n @ u) = Some (n * w)"
    using n' by (intro duration_groups_unit u w) simp
  moreover have "\<not> n * w > 2 ^ 63 - 1" using n' by linarith
  ultimately show ?thesis
    using c ne u(2) by (simp add: parse_duration_def cr Let_def)
qed

end
