(* ===== verification/Scanner.thy ===== *)
theory Scanner
  imports Json GoTime
begin

text \<open>
  Plugins, their results and the plugin registry: \<open>internal/scanner/types.go\<close> and \<open>manager.go\<close>. A
  plugin's \<open>Run\<close> is a parameter that may change the world: \<open>'w\<close> is whatever the program observes of
  its environment, the clock included. Of the interface the registry and the scheduler call \<open>Name\<close>
  and \<open>Run\<close>.
\<close>

section \<open>Results\<close>

text \<open>\<open>Status\<close> and \<open>Severity\<close> are string types with named constants.\<close>

type_synonym status = string
type_synonym severity = string

definition StatusSuccess :: status where "StatusSuccess = ''success''"
definition StatusFailed :: status where "StatusFailed = ''failed''"
definition StatusPartial :: status where "StatusPartial = ''partial''"

definition SeverityInfo :: severity where "SeverityInfo = ''info''"
definition SeverityLow :: severity where "SeverityLow = ''low''"
definition SeverityMedium :: severity where "SeverityMedium = ''medium''"
definition SeverityHigh :: severity where "SeverityHigh = ''high''"
definition SeverityCritical :: severity where "SeverityCritical = ''critical''"

lemmas status_defs = StatusSuccess_def StatusFailed_def StatusPartial_def
lemmas severity_defs =
  SeverityInfo_def SeverityLow_def SeverityMedium_def SeverityHigh_def SeverityCritical_def

text \<open>
  A value of type \<open>interface{}\<close>: a \<open>string\<close>, an integer of one of Go's \<open>int\<close>, \<open>int64\<close>, \<open>uint\<close> or
  \<open>uint64\<close>, a \<open>float64\<close> or \<open>float32\<close> (by its exact value), or another value with the document it
  encodes to.
\<close>

datatype dyn = DynStr string | DynInt int | DynFloat f64 | DynOther json

text \<open>\<open>toFloat\<close>, which the rule engine and the daemon both define.\<close>

fun toFloat :: "dyn \<Rightarrow> f64 option" where
  "toFloat (DynFloat x) = Some x"
| "toFloat (DynInt i) = Some (f_of_int i)"
| "toFloat _ = None"

record finding =
  f_id :: string
  f_severity :: severity
  f_category :: string
  f_description :: string
  f_evidence :: "dyn gomap"
  f_remediation :: string

record scan_result =
  r_scanner :: string
  r_status :: status
  r_findings :: "finding list"
  r_started :: int
  r_finished :: int
  r_duration :: int
  r_metadata :: "dyn gomap"

section \<open>Plugins\<close>

text \<open>\<open>Run\<close> returns a result pointer and an error, either of which may be nil, or panics.\<close>

datatype run_outcome = Returned "scan_result option" "string option" | Panicked string

record 'w plugin =
  pl_name :: string
  pl_run :: "int \<Rightarrow> 'w \<Rightarrow> run_outcome \<times> 'w" \<comment> \<open>from the deadline of its context\<close>

section \<open>The manager\<close>

datatype manager_error =
    PluginIsNil
  | PluginNameRequired
  | PluginAlreadyRegistered string
  | PluginNotFound string

type_synonym 'w manager = "'w plugin gomap"

definition NewManager :: "'w manager" where
  "NewManager = []"

definition manager_register ::
  "'w plugin option \<Rightarrow> 'w manager \<Rightarrow> (manager_error, 'w manager) result" where
  "manager_register p m =
     (case p of
        None \<Rightarrow> Inl PluginIsNil
      | Some pl \<Rightarrow>
          let name = pl_name pl in
          if name = [] then Inl PluginNameRequired
          else if map_of m name \<noteq> None then Inl (PluginAlreadyRegistered name)
          else Inr (obj_set m name pl))"

definition manager_get :: "'w manager \<Rightarrow> string \<Rightarrow> (manager_error, 'w plugin) result" where
  "manager_get m name =
     (case map_of m name of None \<Rightarrow> Inl (PluginNotFound name) | Some p \<Rightarrow> Inr p)"

definition manager_list :: "'w plugin range_order \<Rightarrow> 'w manager \<Rightarrow> string list" where
  "manager_list order m = map fst (order m)"

section \<open>Facts about the registry\<close>

text \<open>Every plugin is filed under its own, non-empty name.\<close>

definition manager_wf :: "'w manager \<Rightarrow> bool" where
  "manager_wf m \<longleftrightarrow> keys_distinct m \<and> list_all (\<lambda>(n, p). n = pl_name p \<and> n \<noteq> []) m"

lemma manager_wf_new [inv_intros]: "manager_wf NewManager"
  by (simp add: manager_wf_def NewManager_def)

lemma list_all_obj_set:
  "list_all P m \<Longrightarrow> P (k, v) \<Longrightarrow> list_all P (obj_set m k v)"
  by (induction m k v rule: obj_set.induct) auto

lemma manager_wf_register [inv_intros]:
  "manager_wf m \<Longrightarrow> manager_register p m = Inr m' \<Longrightarrow> manager_wf m'"
  by (auto simp: manager_wf_def manager_register_def Let_def distinct_obj_set list_all_obj_set
      split: option.splits if_splits)

lemma manager_register_Inr_iff:
  "manager_register p m = Inr m' \<longleftrightarrow>
     (\<exists>pl. p = Some pl \<and> pl_name pl \<noteq> [] \<and> map_of m (pl_name pl) = None \<and> m' = obj_set m (pl_name pl) pl)"
  by (auto simp: manager_register_def Let_def split: option.splits)

lemma manager_get_register:
  assumes "manager_register (Some p) m = Inr m'"
  shows "manager_get m' name = (if name = pl_name p then Inr p else manager_get m name)"
  using assms by (auto simp: manager_register_Inr_iff manager_get_def)

lemma manager_get_name: "manager_wf m \<Longrightarrow> manager_get m n = Inr p \<Longrightarrow> pl_name p = n \<and> n \<noteq> []"
  by (auto simp: manager_get_def manager_wf_def list_all_iff split: option.splits dest!: map_of_SomeD)

text \<open>The listing names each registered plugin once, in some order.\<close>

lemma manager_list_set:
  assumes "mset (order m) = mset m"
  shows "set (manager_list order m) = dom (map_of m)"
    and "keys_distinct m \<Longrightarrow> distinct (manager_list order m)"
proof -
  have "mset (map fst (order m)) = mset (map fst m)" using assms by (simp add: mset_map)
  then show "keys_distinct m \<Longrightarrow> distinct (manager_list order m)"
    unfolding manager_list_def using mset_eq_imp_distinct_iff by blast
  from assms have "set (order m) = set m" using mset_eq_setD by blast
  then show "set (manager_list order m) = dom (map_of m)"
    by (simp add: manager_list_def dom_map_of_conv_image_fst)
qed

end
