(* ===== verification/Config.thy ===== *)
theory Config
  imports Scanner
begin

text \<open>
  The daemon's configuration, \<open>internal/config/config.go\<close>, with the table of signature sources it
  checks against, \<open>internal/signatures/registry.go\<close>: the record, its defaults, the environment
  overrides, the validation, the duration accessors and the redacted copy that is logged. Reading
  the file and decoding it onto the defaults are parameters of \<open>Load\<close>. An error is a message;
  \<open>Validate\<close> returns the list it joins, which is empty exactly when the code returns nil.
\<close>

section \<open>The record\<close>

record daemon_config =
  dc_log_level :: string
  dc_log_format :: string
  dc_user :: string
  dc_group :: string
  dc_shutdown_timeout :: string
  dc_drop_privileges :: bool

record storage_config =
  sg_db_path :: string
  sg_retention_days :: int
  sg_encryption_key :: string

record signatures_config =
  sn_enabled :: bool
  sn_update_interval :: string
  sn_sources :: "string list"
  sn_cache_dir :: string
  sn_airgap_path :: string
  sn_source_urls :: "string gomap"

record endpoint_config =
  ec_enabled :: bool
  ec_bind_addr :: string
  ec_read_only :: bool
  ec_auth_token :: string

record scanner_config =
  sn_name :: string
  sn_plugin :: string
  sn_active :: bool
  sn_schedule :: string
  sn_timeout :: string
  sn_max_retries :: int
  sn_retry_backoff :: string
  sn_retry_max :: string
  sn_allow_overlap :: bool
  sn_run_on_start :: bool
  sn_config :: "dyn gomap"

record rule_config =
  ru_name :: string
  ru_scanner :: string
  ru_metric :: string
  ru_operator :: string
  ru_threshold :: f64
  ru_severity :: string
  ru_description :: string

record detection_config =
  de_window :: string
  de_min_scanners :: int
  de_cooldown :: string
  de_drift_consecutive :: int
  de_rules :: "rule_config list"

record channel_config =
  cc_type :: string
  cc_enabled :: bool
  cc_severity :: "string list"
  cc_url :: string
  cc_syslog_network :: string
  cc_syslog_address :: string
  cc_syslog_tag :: string
  cc_smtp_server :: string
  cc_smtp_user :: string
  cc_smtp_pass :: string
  cc_from :: string
  cc_to :: "string list"
  cc_subject :: string

record alerting_config =
  al_enabled :: bool
  al_dedup_window :: string
  al_retry_max :: int
  al_retry_backoff :: string
  al_channels :: "channel_config list"

record security_config =
  se_self_integrity :: bool
  se_expected_sha256 :: string

record config =
  c_daemon :: daemon_config
  c_storage :: storage_config
  c_signatures :: signatures_config
  c_api :: endpoint_config
  c_webui :: endpoint_config
  c_scanners :: "scanner_config list"
  c_detection :: detection_config
  c_alerting :: alerting_config
  c_security :: security_config

section \<open>Signature sources\<close>

definition knownSources :: "string list" where
  "knownSources =
     [''mitre_attack'', ''mitre_capec'', ''mitre_cwe'', ''nvd'', ''osv'', ''cisa_kev'', ''exploit_db'',
      ''epss'', ''ghsa'']"

definition DefaultSources :: "string list" where
  "DefaultSources = [''mitre_attack'', ''nvd'', ''osv'', ''cisa_kev'', ''exploit_db'']"

definition IsKnownSource :: "string \<Rightarrow> bool" where
  "IsKnownSource i \<longleftrightarrow> i \<in> set knownSources"

section \<open>Defaults\<close>

definition log_channel_config :: channel_config where
  "log_channel_config =
     \<lparr>cc_type = ''log'', cc_enabled = True, cc_severity = [], cc_url = [], cc_syslog_network = [],
      cc_syslog_address = [], cc_syslog_tag = [], cc_smtp_server = [], cc_smtp_user = [],
      cc_smtp_pass = [], cc_from = [], cc_to = [], cc_subject = []\<rparr>"

definition Default :: config where
  "Default =
     \<lparr>c_daemon = \<lparr>dc_log_level = ''info'', dc_log_format = ''json'', dc_user = [], dc_group = [],
        dc_shutdown_timeout = ''10s'', dc_drop_privileges = False\<rparr>,
      c_storage = \<lparr>sg_db_path = ''/var/lib/arcsent/badger'', sg_retention_days = 30, sg_encryption_key = []\<rparr>,
      c_signatures = \<lparr>sn_enabled = False, sn_update_interval = ''24h'', sn_sources = DefaultSources,
        sn_cache_dir = ''/var/lib/arcsent/signatures'', sn_airgap_path = [], sn_source_urls = []\<rparr>,
      c_api = \<lparr>ec_enabled = False, ec_bind_addr = ''127.0.0.1:8788'', ec_read_only = True, ec_auth_token = []\<rparr>,
      c_webui = \<lparr>ec_enabled = False, ec_bind_addr = ''127.0.0.1:8787'', ec_read_only = True, ec_auth_token = []\<rparr>,
      c_scanners = [],
      c_detection = \<lparr>de_window = ''5m'', de_min_scanners = 2, de_cooldown = ''5m'', de_drift_consecutive = 3,
        de_rules = []\<rparr>,
      c_alerting = \<lparr>al_enabled = False, al_dedup_window = ''5m'', al_retry_max = 3, al_retry_backoff = ''2s'',
        al_channels = [log_channel_config]\<rparr>,
      c_security = \<lparr>se_self_integrity = False, se_expected_sha256 = []\<rparr>\<rparr>"

section \<open>Standard library\<close>

text \<open>\<open>base64.StdEncoding.DecodeString\<close>: line ends are skipped, the padding is required.\<close>

definition b64_digit :: "char \<Rightarrow> nat option" where
  "b64_digit c =
     (let n = of_char c :: nat in
      if 65 \<le> n \<and> n \<le> 90 then Some (n - 65)
      else if 97 \<le> n \<and> n \<le> 122 then Some (n - 71)
      else if 48 \<le> n \<and> n \<le> 57 then Some (n + 4)
      else if n = 43 then Some 62 else if n = 47 then Some 63 else None)"

fun b64_quads :: "string \<Rightarrow> nat list option" where
  "b64_quads [] = Some []"
| "b64_quads (a # b # c # d # rest) =
     (case (b64_digit a, b64_digit b) of
        (Some x, Some y) \<Rightarrow>
          if rest = [] \<and> c = CHR ''='' \<and> d = CHR ''='' then Some [x * 4 + y div 16]
          else (case b64_digit c of
            None \<Rightarrow> None
          | Some z \<Rightarrow>
              if rest = [] \<and> d = CHR ''='' then Some [x * 4 + y div 16, (y mod 16) * 16 + z div 4]
              else (case b64_digit d of
                None \<Rightarrow> None
              | Some w \<Rightarrow>
                  map_option (\<lambda>bs. [x * 4 + y div 16, (y mod 16) * 16 + z div 4, (z mod 4) * 64 + w] @ bs)
                    (b64_quads rest)))
      | _ \<Rightarrow> None)"
| "b64_quads _ = None"

definition b64_decode :: "string \<Rightarrow> nat list option" where
  "b64_decode s = b64_quads (filter (\<lambda>c. (of_char c :: nat) \<noteq> 10 \<and> (of_char c :: nat) \<noteq> 13) s)"

text \<open>\<open>filepath.IsAbs\<close> on Unix, and \<open>strconv.ParseBool\<close>.\<close>

definition is_abs :: "string \<Rightarrow> bool" where
  "is_abs p \<longleftrightarrow> has_prefix p ''/''"

definition parse_bool :: "string \<Rightarrow> bool option" where
  "parse_bool s =
     (if s \<in> {''1'', ''t'', ''T'', ''TRUE'', ''true'', ''True''} then Some True
      else if s \<in> {''0'', ''f'', ''F'', ''FALSE'', ''false'', ''False''} then Some False
      else None)"

section \<open>Validation\<close>

text \<open>Every \<open>if cond { errs = append(errs, msg) }\<close>.\<close>

definition err_if :: "bool \<Rightarrow> string \<Rightarrow> string list" where
  "err_if b msg = (if b then [msg] else [])"

definition bad_duration :: "string \<Rightarrow> bool" where
  "bad_duration s \<longleftrightarrow> s \<noteq> [] \<and> parse_duration s = None"

definition validate_daemon :: "bool \<Rightarrow> daemon_config \<Rightarrow> string list" where
  "validate_daemon euid0 d =
     err_if (to_lower (dc_log_level d) \<notin> {''debug'', ''info'', ''warn'', ''error''})
       ''daemon.log_level must be one of: debug, info, warn, error''
     @ err_if (to_lower (dc_log_format d) \<notin> {''json'', ''text''})
       ''daemon.log_format must be one of: json, text''
     @ err_if (bad_duration (dc_shutdown_timeout d))
       ''daemon.shutdown_timeout must be a valid duration (e.g. 10s)''
     @ err_if (dc_drop_privileges d \<and> euid0 \<and> (dc_user d = [] \<or> dc_group d = []))
       ''daemon.user and daemon.group are required when drop_privileges is true''"

definition validate_storage :: "storage_config \<Rightarrow> string list" where
  "validate_storage s =
     (if sg_db_path s = [] then [''storage.db_path is required'']
      else err_if (\<not> is_abs (sg_db_path s)) ''storage.db_path must be an absolute path'')
     @ err_if (sg_retention_days s < 0) ''storage.retention_days must be >= 0''
     @ (if sg_encryption_key s = [] then []
        else case b64_decode (sg_encryption_key s) of
          None \<Rightarrow> [''storage.encryption_key_base64 must be valid base64'']
        | Some key \<Rightarrow> err_if (length key \<noteq> 32) ''storage.encryption_key_base64 must decode to 32 bytes'')"

definition source_allowed :: "string \<Rightarrow> bool" where
  "source_allowed src \<longleftrightarrow> IsKnownSource src \<or> has_prefix src ''custom:''"

definition validate_signatures :: "string range_order \<Rightarrow> signatures_config \<Rightarrow> string list" where
  "validate_signatures order s =
     (if \<not> sn_enabled s then []
      else (if sn_update_interval s = [] then [''signatures.update_interval is required when enabled'']
            else err_if (parse_duration (sn_update_interval s) = None)
              ''signatures.update_interval must be a valid duration (e.g. 24h)'')
        @ err_if (sn_sources s = []) ''signatures.sources must include at least one source when enabled''
        @ concat (map (\<lambda>src. err_if (\<not> source_allowed src)
            (''signatures.sources contains unknown source: '' @ src)) (sn_sources s))
        @ concat (map (\<lambda>(src, url).
            err_if (\<not> source_allowed src) (''signatures.source_urls contains unknown source: '' @ src)
            @ err_if (trim_space url = []) (''signatures.source_urls contains empty URL for '' @ src))
            (order (sn_source_urls s)))
        @ (if sn_cache_dir s = [] then [''signatures.cache_dir is required when enabled'']
           else err_if (\<not> is_abs (sn_cache_dir s)) ''signatures.cache_dir must be an absolute path''))
     @ err_if (sn_airgap_path s \<noteq> [] \<and> \<not> is_abs (sn_airgap_path s))
         ''signatures.airgap_import_path must be an absolute path if set''"

definition validate_endpoint :: "string \<Rightarrow> endpoint_config \<Rightarrow> string list" where
  "validate_endpoint name e =
     (if \<not> ec_enabled e then []
      else err_if (ec_bind_addr e = []) (name @ ''.bind_addr is required when enabled'')
        @ err_if (ec_auth_token e = []) (name @ ''.auth_token is required when enabled''))"

definition indexed :: "string \<Rightarrow> nat \<Rightarrow> string \<Rightarrow> string" where
  "indexed what i field = what @ ''['' @ show_nat i @ '']'' @ field"

definition validate_scanner :: "nat \<times> scanner_config \<Rightarrow> string list" where
  "validate_scanner isc =
     (let (i, sc) = isc in
      err_if (sn_name sc = []) (indexed ''scanners'' i ''.name is required'')
      @ err_if (sn_plugin sc = []) (indexed ''scanners'' i ''.plugin is required'')
      @ err_if (sn_active sc \<and> sn_schedule sc = []) (indexed ''scanners'' i ''.schedule is required when enabled'')
      @ err_if (bad_duration (sn_timeout sc)) (indexed ''scanners'' i ''.timeout must be a valid duration'')
      @ err_if (bad_duration (sn_retry_backoff sc)) (indexed ''scanners'' i ''.retry_backoff must be a valid duration'')
      @ err_if (bad_duration (sn_retry_max sc)) (indexed ''scanners'' i ''.retry_max must be a valid duration''))"

definition rule_operators :: "string list" where
  "rule_operators = [''gt'', ''gte'', ''lt'', ''lte'', ''eq'']"

definition validate_rule :: "nat \<times> rule_config \<Rightarrow> string list" where
  "validate_rule iru =
     (let (i, ru) = iru in
      err_if (ru_name ru = []) (indexed ''detection.rules'' i ''.name is required'')
      @ err_if (ru_scanner ru = []) (indexed ''detection.rules'' i ''.scanner is required'')
      @ err_if (ru_metric ru = []) (indexed ''detection.rules'' i ''.metric is required'')
      @ err_if (to_lower (ru_operator ru) \<notin> set rule_operators)
          (indexed ''detection.rules'' i ''.operator must be one of gt,gte,lt,lte,eq''))"

definition validate_detection :: "detection_config \<Rightarrow> string list" where
  "validate_detection d =
     err_if (bad_duration (de_window d)) ''detection.correlation_window must be a valid duration''
     @ err_if (bad_duration (de_cooldown d)) ''detection.correlation_cooldown must be a valid duration''
     @ err_if (de_min_scanners d < 1) ''detection.correlation_min_scanners must be >= 1''
     @ err_if (de_drift_consecutive d < 1) ''detection.drift_consecutive must be >= 1''
     @ concat (map validate_rule (enumerate 0 (de_rules d)))"

definition validate_alerting :: "alerting_config \<Rightarrow> string list" where
  "validate_alerting a =
     err_if (bad_duration (al_dedup_window a)) ''alerting.dedup_window must be a valid duration''
     @ err_if (bad_duration (al_retry_backoff a)) ''alerting.retry_backoff must be a valid duration''
     @ err_if (al_retry_max a < 0) ''alerting.retry_max must be >= 0''
     @ concat (map (\<lambda>(i, ch). err_if (cc_type ch = []) (indexed ''alerting.channels'' i ''.type is required''))
         (enumerate 0 (al_channels a)))"

definition validate_security :: "security_config \<Rightarrow> string list" where
  "validate_security s =
     err_if (se_self_integrity s \<and> se_expected_sha256 s = [])
       ''security.expected_sha256 is required when self_integrity is enabled''"

definition Validate :: "string range_order \<Rightarrow> bool \<Rightarrow> config \<Rightarrow> string list" where
  "Validate order euid0 c =
     validate_daemon euid0 (c_daemon c)
     @ validate_storage (c_storage c)
     @ validate_signatures order (c_signatures c)
     @ validate_endpoint ''web_ui'' (c_webui c)
     @ validate_endpoint ''api'' (c_api c)
     @ concat (map validate_scanner (enumerate 0 (c_scanners c)))
     @ validate_detection (c_detection c)
     @ validate_alerting (c_alerting c)
     @ validate_security (c_security c)"

section \<open>Durations\<close>

text \<open>The accessors: a missing or malformed text gives the default.\<close>

definition duration_or :: "int \<Rightarrow> string \<Rightarrow> int" where
  "duration_or dflt s =
     (if s = [] then dflt else case parse_duration s of None \<Rightarrow> dflt | Some d \<Rightarrow> d)"

definition ShutdownTimeoutDuration :: "daemon_config \<Rightarrow> int" where
  "ShutdownTimeoutDuration d = duration_or (10 * second) (dc_shutdown_timeout d)"

definition TimeoutDuration :: "scanner_config \<Rightarrow> int" where
  "TimeoutDuration s = duration_or 0 (sn_timeout s)"

definition RetryBackoffDuration :: "scanner_config \<Rightarrow> int" where
  "RetryBackoffDuration s = duration_or 0 (sn_retry_backoff s)"

definition RetryMaxDuration :: "scanner_config \<Rightarrow> int" where
  "RetryMaxDuration s = duration_or 0 (sn_retry_max s)"

definition CorrelationWindowDuration :: "detection_config \<Rightarrow> int" where
  "CorrelationWindowDuration d = duration_or 0 (de_window d)"

definition CorrelationCooldownDuration :: "detection_config \<Rightarrow> int" where
  "CorrelationCooldownDuration d = duration_or 0 (de_cooldown d)"

definition UpdateIntervalDuration :: "signatures_config \<Rightarrow> int" where
  "UpdateIntervalDuration s = duration_or 0 (sn_update_interval s)"

section \<open>Redaction, overrides, loading\<close>

definition redacted_text :: string where
  "redacted_text = ''REDACTED''"

definition redact_token :: "endpoint_config \<Rightarrow> endpoint_config" where
  "redact_token e = (if ec_auth_token e \<noteq> [] then e\<lparr>ec_auth_token := redacted_text\<rparr> else e)"

definition Redacted :: "config \<Rightarrow> config" where
  "Redacted c =
     c\<lparr>c_webui := redact_token (c_webui c), c_api := redact_token (c_api c),
       c_signatures := (c_signatures c)\<lparr>sn_source_urls :=
         map (\<lambda>(k, v). (k, redacted_text)) (sn_source_urls (c_signatures c))\<rparr>\<rparr>"

definition env_bool :: "(string \<rightharpoonup> string) \<Rightarrow> string \<Rightarrow> bool \<Rightarrow> bool" where
  "env_bool env name old =
     (case env name of None \<Rightarrow> old | Some v \<Rightarrow> (case parse_bool v of None \<Rightarrow> old | Some b \<Rightarrow> b))"

definition env_token :: "(string \<rightharpoonup> string) \<Rightarrow> string \<Rightarrow> string \<Rightarrow> string" where
  "env_token env name old = (case env name of None \<Rightarrow> old | Some v \<Rightarrow> if v = [] then old else v)"

definition applyEnvOverrides :: "(string \<rightharpoonup> string) \<Rightarrow> config \<Rightarrow> config" where
  "applyEnvOverrides env c =
     c\<lparr>c_webui := (c_webui c)\<lparr>
         ec_enabled := env_bool env ''ARCSENT_WEB_UI_ENABLED'' (ec_enabled (c_webui c)),
         ec_auth_token := env_token env ''ARCSENT_WEB_UI_TOKEN'' (ec_auth_token (c_webui c))\<rparr>,
       c_signatures := (c_signatures c)\<lparr>
         sn_enabled := env_bool env ''ARCSENT_SIGNATURES_ENABLED'' (sn_enabled (c_signatures c))\<rparr>,
       c_api := (c_api c)\<lparr>
         ec_enabled := env_bool env ''ARCSENT_API_ENABLED'' (ec_enabled (c_api c)),
         ec_auth_token := env_token env ''ARCSENT_API_TOKEN'' (ec_auth_token (c_api c))\<rparr>\<rparr>"

datatype load_error = ReadConfig string | ParseConfig string | InvalidConfig "string list"

definition DefaultConfigPath :: string where
  "DefaultConfigPath = ''configs/config.json''"

definition Load ::
  "(string \<Rightarrow> (string, 'b) result) \<Rightarrow> ('b \<Rightarrow> config \<Rightarrow> (string, config) result) \<Rightarrow> (string \<rightharpoonup> string)
     \<Rightarrow> string range_order \<Rightarrow> bool \<Rightarrow> string \<Rightarrow> (load_error, config) result" where
  "Load read unmarshal env order euid0 path0 =
     (let path = (if path0 = [] then DefaultConfigPath else path0) in
      case read path of
        Inl e \<Rightarrow> Inl (ReadConfig e)
      | Inr raw \<Rightarrow>
          (case unmarshal raw Default of
             Inl e \<Rightarrow> Inl (ParseConfig e)
           | Inr c \<Rightarrow>
               let cfg = applyEnvOverrides env c in
               if Validate order euid0 cfg \<noteq> [] then Inl (InvalidConfig (Validate order euid0 cfg)) else Inr cfg))"

section \<open>Facts\<close>

lemma err_if_Nil [simp]: "err_if b msg = [] \<longleftrightarrow> \<not> b"
  by (simp add: err_if_def)

lemma concat_map_Nil: "concat (map f xs) = [] \<longleftrightarrow> (\<forall>x \<in> set xs. f x = [])"
  by auto

lemma concat_map_enumerate_Nil:
  "concat (map f (enumerate 0 xs)) = [] \<longleftrightarrow> (\<forall>i < length xs. f (i, xs ! i) = [])"
  by (auto simp: all_set_conv_all_nth nth_enumerate_eq)

lemma bad_duration_duration_or:
  "\<not> bad_duration s \<Longrightarrow> s \<noteq> [] \<Longrightarrow> \<exists>d. parse_duration s = Some d \<and> duration_or dflt s = d"
  by (auto simp: bad_duration_def duration_or_def)

lemma Validate_parts:
  assumes "Validate order euid0 c = []"
  shows "validate_daemon euid0 (c_daemon c) = []" "validate_storage (c_storage c) = []"
    "validate_signatures order (c_signatures c) = []" "validate_endpoint ''web_ui'' (c_webui c) = []"
    "validate_endpoint ''api'' (c_api c) = []"
    "\<forall>i < length (c_scanners c). validate_scanner (i, c_scanners c ! i) = []"
    "validate_detection (c_detection c) = []" "validate_alerting (c_alerting c) = []"
    "validate_security (c_security c) = []"
  using assms unfolding Validate_def append_is_Nil_conv concat_map_enumerate_Nil by blast+

lemma validate_endpoint_ok:
  "validate_endpoint name e = [] \<longleftrightarrow> (ec_enabled e \<longrightarrow> ec_bind_addr e \<noteq> [] \<and> ec_auth_token e \<noteq> [])"
  by (auto simp: validate_endpoint_def)

lemma default_durations:
  "parse_duration ''10s'' = Some (10 * second)" "parse_duration ''5m'' = Some (5 * minute)"
  "parse_duration ''2s'' = Some (2 * second)"
proof -
  have n: "show_nat 10 = ''10''" "show_nat 5 = ''5''" "show_nat 2 = ''2''" by code_simp+
  have s: "parse_duration (show_nat k @ ''s'') = Some (int k * second)" if "k \<le> 10" for k
    using that parse_duration_unit [of "''s''" 1000000000 k]
    by (simp add: unit_map_def max_int64_def is_dot_or_digit_def is_digit_def second_def)
  have m: "parse_duration (show_nat 5 @ ''m'') = Some (int 5 * minute)"
    using parse_duration_unit [of "''m''" 60000000000 5]
    by (simp add: unit_map_def max_int64_def is_dot_or_digit_def is_digit_def minute_def)
  show "parse_duration ''10s'' = Some (10 * second)" using s [of 10] n by simp
  show "parse_duration ''5m'' = Some (5 * minute)" using m n by simp
  show "parse_duration ''2s'' = Some (2 * second)" using s [of 2] n by simp
qed

lemma Validate_Default_scanners:
  "Validate order euid0 (Default\<lparr>c_api := a, c_webui := w, c_scanners := scs\<rparr>)
     = validate_endpoint ''web_ui'' w @ validate_endpoint ''api'' a @ concat (map validate_scanner (enumerate 0 scs))"
proof -
  have "validate_daemon euid0 (c_daemon Default) = []"
    by (simp add: validate_daemon_def Default_def bad_duration_def default_durations to_lower_def to_lower_char_def)
  moreover have "validate_storage (c_storage Default) = []"
    by (simp add: validate_storage_def Default_def is_abs_def has_prefix_def)
  moreover have "validate_signatures order (c_signatures Default) = []"
    by (simp add: validate_signatures_def Default_def)
  moreover have "validate_detection (c_detection Default) = []"
    by (simp add: validate_detection_def Default_def bad_duration_def default_durations)
  moreover have "validate_alerting (c_alerting Default) = []"
    by (simp add: validate_alerting_def Default_def bad_duration_def default_durations log_channel_config_def)
  moreover have "validate_security (c_security Default) = []" by (simp add: validate_security_def Default_def)
  ultimately show ?thesis by (simp add: Validate_def)
qed

lemma Validate_Default_endpoints:
  "Validate order euid0 (Default\<lparr>c_api := a, c_webui := w\<rparr>) = validate_endpoint ''web_ui'' w @ validate_endpoint ''api'' a"
proof -
  have e: "Default\<lparr>c_api := a, c_webui := w\<rparr> = Default\<lparr>c_api := a, c_webui := w, c_scanners := []\<rparr>"
    by (simp add: Default_def)
  show ?thesis by (subst e, subst Validate_Default_scanners) simp
qed

section \<open>Properties\<close>

text \<open>What the redacted configuration shows does not depend on the secrets it is meant to hide: with
  other non-empty tokens and other addresses of the same signature sources it is the same.\<close>

theorem redaction_hides_tokens:
  assumes "t \<noteq> []" "t' \<noteq> []" "u \<noteq> []" "u' \<noteq> []" "map fst urls = map fst urls'"
  shows "Redacted (c\<lparr>c_api := (c_api c)\<lparr>ec_auth_token := t\<rparr>, c_webui := (c_webui c)\<lparr>ec_auth_token := u\<rparr>,
           c_signatures := (c_signatures c)\<lparr>sn_source_urls := urls\<rparr>\<rparr>)
       = Redacted (c\<lparr>c_api := (c_api c)\<lparr>ec_auth_token := t'\<rparr>, c_webui := (c_webui c)\<lparr>ec_auth_token := u'\<rparr>,
           c_signatures := (c_signatures c)\<lparr>sn_source_urls := urls'\<rparr>\<rparr>)"
proof -
  have m: "map (\<lambda>(k, v). (k, redacted_text)) us = map (\<lambda>k. (k, redacted_text)) (map fst us)" for us :: "string gomap"
    by (induction us) auto
  have "map (\<lambda>(k, v). (k, redacted_text)) urls = map (\<lambda>(k, v). (k, redacted_text)) urls'"
    unfolding m using assms(5) by (rule arg_cong)
  with assms(1-4) show ?thesis unfolding Redacted_def redact_token_def by simp
qed

theorem redaction_hides_tokens_witness:
  "Redacted (Default\<lparr>c_api := (c_api Default)\<lparr>ec_auth_token := ''a''\<rparr>, c_webui := (c_webui Default)\<lparr>ec_auth_token := ''b''\<rparr>,
           c_signatures := (c_signatures Default)\<lparr>sn_source_urls := [(''osv'', ''x'')]\<rparr>\<rparr>)
       = Redacted (Default\<lparr>c_api := (c_api Default)\<lparr>ec_auth_token := ''c''\<rparr>, c_webui := (c_webui Default)\<lparr>ec_auth_token := ''d''\<rparr>,
           c_signatures := (c_signatures Default)\<lparr>sn_source_urls := [(''osv'', ''y'')]\<rparr>\<rparr>)"
  by (rule redaction_hides_tokens) simp_all

text \<open>The redacted configuration, which the daemon logs when it starts, still holds the encryption key of
  the database, the mail passwords and the webhook addresses of every alert channel.\<close>

theorem redaction_leaks:
  "sg_encryption_key (c_storage (Redacted c)) = sg_encryption_key (c_storage c)
   \<and> map cc_smtp_pass (al_channels (c_alerting (Redacted c))) = map cc_smtp_pass (al_channels (c_alerting c))
   \<and> map cc_url (al_channels (c_alerting (Redacted c))) = map cc_url (al_channels (c_alerting c))"
  by (simp add: Redacted_def)

end
