(* ===== verification/Storage.thy ===== *)
theory Storage
  imports Config
begin

text \<open>
  The key-value store and the results kept in it: \<open>internal/storage/store.go\<close>, \<open>badger.go\<close> and
  \<open>results.go\<close>. The embedded database is a third-party package and a parameter: what a committed
  update, a read and an iterator over all keys return. The locale \<open>badger_db\<close> states its documented
  behaviour, the locale \<open>kv_store\<close> the contract of the interface \<open>Store\<close> the rest of the daemon uses,
  and the store's own operations satisfy the second whenever the database satisfies the first.
  Encoding to and from JSON bytes is a parameter too. Paths are those of a Unix host, on which
  \<open>filepath.ToSlash\<close> is the identity.
\<close>

section \<open>The database\<close>

datatype badger_error = ErrKeyNotFound | BadgerError string

record ('d, 'b) badger =
  bg_set :: "string \<Rightarrow> 'b \<Rightarrow> 'd \<Rightarrow> (badger_error, 'd) result" \<comment> \<open>\<open>Update\<close> with \<open>txn.Set\<close>\<close>
  bg_get :: "'d \<Rightarrow> string \<Rightarrow> (badger_error, 'b) result" \<comment> \<open>\<open>View\<close> with \<open>txn.Get\<close> and \<open>item.Value\<close>\<close>
  bg_del :: "string \<Rightarrow> 'd \<Rightarrow> (badger_error, 'd) result" \<comment> \<open>\<open>Update\<close> with \<open>txn.Delete\<close>\<close>
  bg_items :: "'d \<Rightarrow> (string \<times> (badger_error, 'b) result) list" \<comment> \<open>an iterator from \<open>Rewind\<close> on\<close>

text \<open>Keys are ordered byte by byte.\<close>

fun bytes_less :: "string \<Rightarrow> string \<Rightarrow> bool" where
  "bytes_less s [] = False"
| "bytes_less [] (d # t) = True"
| "bytes_less (c # s) (d # t) =
     ((of_char c :: nat) < of_char d \<or> (c = d \<and> bytes_less s t))"

section \<open>The store\<close>

datatype store_error =
    ErrNotFound
  | KeysRequired
  | BucketRequired
  | DbError badger_error
  | DecodeError
  | EncodeError

text \<open>\<open>NewBadgerStoreWithKey\<close>: \<open>opens\<close> is \<open>badger.Open\<close> at a path, with a key to encrypt under or without.\<close>

datatype open_error = StoragePathRequired | KeyNotBase64 | KeyLength | BadgerOpen string

definition NewBadgerStoreWithKey ::
  "(string \<Rightarrow> nat list option \<Rightarrow> (string, 'd) result) \<Rightarrow> string \<Rightarrow> string \<Rightarrow> (open_error, 'd) result" where
  "NewBadgerStoreWithKey opens path keyBase64 =
     (let open_with = (\<lambda>key. case opens path key of Inl e \<Rightarrow> Inl (BadgerOpen e) | Inr d \<Rightarrow> Inr d) in
      if path = [] then Inl StoragePathRequired
      else if keyBase64 = [] then open_with None
      else case b64_decode keyBase64 of
        None \<Rightarrow> Inl KeyNotBase64
      | Some key \<Rightarrow> if length key \<noteq> 32 then Inl KeyLength else open_with (Some key))"

definition NewBadgerStore ::
  "(string \<Rightarrow> nat list option \<Rightarrow> (string, 'd) result) \<Rightarrow> string \<Rightarrow> (open_error, 'd) result" where
  "NewBadgerStore opens path = NewBadgerStoreWithKey opens path []"

definition makeKey :: "string \<Rightarrow> string \<Rightarrow> string" where
  "makeKey bucket key = bucket @ ''/'' @ key"

definition badger_put ::
  "('d, 'b) badger \<Rightarrow> string \<Rightarrow> string \<Rightarrow> 'b \<Rightarrow> 'd \<Rightarrow> (store_error, 'd) result" where
  "badger_put D bucket key v d =
     (if bucket = [] \<or> key = [] then Inl KeysRequired
      else case bg_set D (makeKey bucket key) v d of Inl e \<Rightarrow> Inl (DbError e) | Inr d' \<Rightarrow> Inr d')"

definition badger_get ::
  "('d, 'b) badger \<Rightarrow> string \<Rightarrow> string \<Rightarrow> 'd \<Rightarrow> (store_error, 'b) result" where
  "badger_get D bucket key d =
     (if bucket = [] \<or> key = [] then Inl KeysRequired
      else case bg_get D d (makeKey bucket key) of
        Inl e \<Rightarrow> Inl (if e = ErrKeyNotFound then ErrNotFound else DbError e)
      | Inr v \<Rightarrow> Inr v)"

definition badger_delete ::
  "('d, 'b) badger \<Rightarrow> string \<Rightarrow> string \<Rightarrow> 'd \<Rightarrow> (store_error, 'd) result" where
  "badger_delete D bucket key d =
     (if bucket = [] \<or> key = [] then Inl KeysRequired
      else case bg_del D (makeKey bucket key) d of Inl e \<Rightarrow> Inl (DbError e) | Inr d' \<Rightarrow> Inr d')"

text \<open>
  The loop of \<open>ForEach\<close>. The callback's own state \<open>'a\<close> keeps what it did before an error stopped the
  loop; the iterator reads the snapshot its transaction started from.
\<close>

fun iterate ::
  "(string \<Rightarrow> 'b \<Rightarrow> 'a \<Rightarrow> store_error option \<times> 'a) \<Rightarrow> nat
     \<Rightarrow> (string \<times> (badger_error, 'b) result) list \<Rightarrow> 'a \<Rightarrow> store_error option \<times> 'a" where
  "iterate fn plen [] a = (None, a)"
| "iterate fn plen ((k, v) # its) a =
     (case v of
        Inl e \<Rightarrow> (Some (DbError e), a)
      | Inr val \<Rightarrow>
          (case fn (drop plen k) val a of
             (Some e, a') \<Rightarrow> (Some e, a')
           | (None, a') \<Rightarrow> iterate fn plen its a'))"

definition bucket_prefix :: "string \<Rightarrow> string" where
  "bucket_prefix bucket = bucket @ ''/''"

text \<open>\<open>for it.Rewind(); it.ValidForPrefix(prefix); it.Next()\<close>\<close>

definition visited ::
  "('d, 'b) badger \<Rightarrow> string \<Rightarrow> 'd \<Rightarrow> (string \<times> (badger_error, 'b) result) list" where
  "visited D bucket d = takeWhile (\<lambda>(k, v). has_prefix k (bucket_prefix bucket)) (bg_items D d)"

definition badger_for_each ::
  "('d, 'b) badger \<Rightarrow> string \<Rightarrow> (string \<Rightarrow> 'b \<Rightarrow> 'a \<Rightarrow> store_error option \<times> 'a) \<Rightarrow> 'd \<Rightarrow> 'a
     \<Rightarrow> store_error option \<times> 'a" where
  "badger_for_each D bucket fn d a =
     (if bucket = [] then (Some BucketRequired, a)
      else iterate fn (length (bucket_prefix bucket)) (visited D bucket d) a)"

text \<open>The interface value other components hold: a store's operations.\<close>

record ('d, 'b) store_ops =
  so_put :: "string \<Rightarrow> string \<Rightarrow> 'b \<Rightarrow> 'd \<Rightarrow> (store_error, 'd) result"
  so_get :: "string \<Rightarrow> string \<Rightarrow> 'd \<Rightarrow> (store_error, 'b) result"
  so_delete :: "string \<Rightarrow> string \<Rightarrow> 'd \<Rightarrow> (store_error, 'd) result"

definition badger_store :: "('d, 'b) badger \<Rightarrow> ('d, 'b) store_ops" where
  "badger_store D = \<lparr>so_put = badger_put D, so_get = badger_get D, so_delete = badger_delete D\<rparr>"

section \<open>The results\<close>

record ('v, 'b) codec =
  co_encode :: "'v \<Rightarrow> 'b option"
  co_decode :: "'b \<Rightarrow> 'v option"

definition resultsBucket :: string where
  "resultsBucket = ''results''"

definition result_key :: "int \<Rightarrow> string \<Rightarrow> string \<Rightarrow> string" where
  "result_key now name suffix = show_int now @ ''-'' @ name @ ''-'' @ suffix"

definition results_save ::
  "('d, 'b) badger \<Rightarrow> (scan_result, 'b) codec \<Rightarrow> int \<Rightarrow> string \<Rightarrow> scan_result \<Rightarrow> 'd
     \<Rightarrow> (store_error, 'd) result" where
  "results_save D C now suffix res d =
     (case co_encode C res of
        None \<Rightarrow> Inl EncodeError
      | Some raw \<Rightarrow> badger_put D resultsBucket (result_key now (r_scanner res) suffix) raw d)"

text \<open>
  The callbacks of the two listings and of the two prunings differ in the record they decode and in
  the time they read from it.
\<close>

definition list_callback ::
  "('v, 'b) codec \<Rightarrow> string \<Rightarrow> 'b \<Rightarrow> 'v list \<Rightarrow> store_error option \<times> 'v list" where
  "list_callback C key v acc =
     (case co_decode C v of None \<Rightarrow> (Some DecodeError, acc) | Some res \<Rightarrow> (None, acc @ [res]))"

definition results_list ::
  "('d, 'b) badger \<Rightarrow> (scan_result, 'b) codec \<Rightarrow> 'd \<Rightarrow> (store_error, scan_result list) result" where
  "results_list D C d =
     (case badger_for_each D resultsBucket (list_callback C) d [] of
        (None, rs) \<Rightarrow> Inr rs
      | (Some e, rs) \<Rightarrow> if e = ErrNotFound then Inr [] else Inl e)"

definition expired :: "('v, 'b) codec \<Rightarrow> ('v \<Rightarrow> int) \<Rightarrow> int \<Rightarrow> 'b \<Rightarrow> bool" where
  "expired C time_of cutoff v =
     (case co_decode C v of
        None \<Rightarrow> False
      | Some x \<Rightarrow> \<not> is_zero_time (time_of x) \<and> time_of x < cutoff)"

definition prune_callback ::
  "('d, 'b) badger \<Rightarrow> string \<Rightarrow> ('v, 'b) codec \<Rightarrow> ('v \<Rightarrow> int) \<Rightarrow> int \<Rightarrow> string \<Rightarrow> 'b \<Rightarrow> 'd
     \<Rightarrow> store_error option \<times> 'd" where
  "prune_callback D bucket C time_of cutoff key v d =
     (if expired C time_of cutoff v
      then (case badger_delete D bucket key d of Inl e \<Rightarrow> (Some e, d) | Inr d' \<Rightarrow> (None, d'))
      else (None, d))"

definition prune_bucket ::
  "('d, 'b) badger \<Rightarrow> string \<Rightarrow> ('v, 'b) codec \<Rightarrow> ('v \<Rightarrow> int) \<Rightarrow> int \<Rightarrow> 'd \<Rightarrow> store_error option \<times> 'd" where
  "prune_bucket D bucket C time_of cutoff d =
     badger_for_each D bucket (prune_callback D bucket C time_of cutoff) d d"

definition PruneOlderThan ::
  "('d, 'b) badger \<Rightarrow> (scan_result, 'b) codec \<Rightarrow> int \<Rightarrow> 'd \<Rightarrow> store_error option \<times> 'd" where
  "PruneOlderThan D C cutoff d = prune_bucket D resultsBucket C r_finished cutoff d"

section \<open>The contract of a store\<close>

definition plain_bucket :: "string \<Rightarrow> bool" where
  "plain_bucket b \<longleftrightarrow> CHR ''/'' \<notin> set b"

locale kv_store =
  fixes put :: "string \<Rightarrow> string \<Rightarrow> 'b \<Rightarrow> 'd \<Rightarrow> (store_error, 'd) result"
    and get :: "string \<Rightarrow> string \<Rightarrow> 'd \<Rightarrow> (store_error, 'b) result"
    and delete :: "string \<Rightarrow> string \<Rightarrow> 'd \<Rightarrow> (store_error, 'd) result"
  assumes put_get: "put b k v d = Inr d' \<Longrightarrow> get b k d' = Inr v"
    and put_get_other:
      "put b k v d = Inr d' \<Longrightarrow> plain_bucket b \<Longrightarrow> plain_bucket b' \<Longrightarrow> (b', k') \<noteq> (b, k)
         \<Longrightarrow> get b' k' d' = get b' k' d"
    and delete_get: "delete b k d = Inr d' \<Longrightarrow> get b k d' = Inl ErrNotFound"
    and delete_get_other:
      "delete b k d = Inr d' \<Longrightarrow> plain_bucket b \<Longrightarrow> plain_bucket b' \<Longrightarrow> (b', k') \<noteq> (b, k)
         \<Longrightarrow> get b' k' d' = get b' k' d"
begin

text \<open>A typed view: values of one codec written to and read from a bucket.\<close>

definition save_as :: "('v, 'b) codec \<Rightarrow> string \<Rightarrow> string \<Rightarrow> 'v \<Rightarrow> 'd \<Rightarrow> (store_error, 'd) result" where
  "save_as C b k v d = (case co_encode C v of None \<Rightarrow> Inl EncodeError | Some raw \<Rightarrow> put b k raw d)"

definition load_as :: "('v, 'b) codec \<Rightarrow> string \<Rightarrow> string \<Rightarrow> 'd \<Rightarrow> 'v option" where
  "load_as C b k d = (case get b k d of Inl e \<Rightarrow> None | Inr raw \<Rightarrow> co_decode C raw)"

lemma load_after_save:
  assumes "save_as C b k v d = Inr d'" "\<And>raw. co_encode C v = Some raw \<Longrightarrow> co_decode C raw = Some w"
  shows "load_as C b k d' = Some w"
  using assms by (auto simp: save_as_def load_as_def put_get split: option.splits)

lemma load_other_after_save:
  assumes "save_as C b k v d = Inr d'" "plain_bucket b" "plain_bucket b'" "(b', k') \<noteq> (b, k)"
  shows "load_as C' b' k' d' = load_as C' b' k' d"
  using assms by (auto simp: save_as_def load_as_def put_get_other split: option.splits)

end

section \<open>The documented behaviour of the database\<close>

locale badger_db =
  fixes D :: "('d, 'b) badger"
  assumes set_get: "bg_set D k v d = Inr d' \<Longrightarrow> bg_get D d' k = Inr v"
    and set_get_other: "bg_set D k v d = Inr d' \<Longrightarrow> k' \<noteq> k \<Longrightarrow> bg_get D d' k' = bg_get D d k'"
    and del_get: "bg_del D k d = Inr d' \<Longrightarrow> bg_get D d' k = Inl ErrKeyNotFound"
    and del_get_other: "bg_del D k d = Inr d' \<Longrightarrow> k' \<noteq> k \<Longrightarrow> bg_get D d' k' = bg_get D d k'"
    and items_sorted: "sorted_wrt (\<lambda>(k, v) (k', v'). bytes_less k k') (bg_items D d)"
    and items_get: "map_of (bg_items D d) k = (case bg_get D d k of
          Inl e \<Rightarrow> if e = ErrKeyNotFound then None else Some (Inl e) | Inr v \<Rightarrow> Some (Inr v))"

lemma makeKey_inject:
  assumes "plain_bucket b" "plain_bucket b'"
  shows "makeKey b k = makeKey b' k' \<longleftrightarrow> b = b' \<and> k = k'"
proof
  assume eq: "makeKey b k = makeKey b' k'"
  have split: "takeWhile (\<lambda>c. c \<noteq> CHR ''/'') (makeKey b k) = b" if "plain_bucket b" for b k
  proof -
    from that have "\<And>c. c \<in> set b \<Longrightarrow> c \<noteq> CHR ''/''" by (auto simp: plain_bucket_def)
    then show ?thesis by (simp add: makeKey_def takeWhile_append2)
  qed
  from eq split assms have "b = b'" by metis
  with eq show "b = b' \<and> k = k'" by (simp add: makeKey_def)
qed simp

sublocale badger_db \<subseteq> kv_store "badger_put D" "badger_get D" "badger_delete D"
proof
  show "badger_get D b k d' = Inr v" if "badger_put D b k v d = Inr d'" for b k v d d'
    using that set_get by (auto simp: badger_put_def badger_get_def split: if_splits sum.splits)
  show "badger_get D b' k' d' = badger_get D b' k' d"
    if "badger_put D b k v d = Inr d'" "plain_bucket b" "plain_bucket b'" "(b', k') \<noteq> (b, k)"
    for b k v d d' b' k'
  proof -
    from that have "makeKey b' k' \<noteq> makeKey b k" by (simp add: makeKey_inject)
    with that set_get_other show ?thesis
      by (auto simp: badger_put_def badger_get_def split: if_splits sum.splits)
  qed
  show "badger_get D b k d' = Inl ErrNotFound" if "badger_delete D b k d = Inr d'" for b k d d'
    using that del_get by (auto simp: badger_delete_def badger_get_def split: if_splits sum.splits)
  show "badger_get D b' k' d' = badger_get D b' k' d"
    if "badger_delete D b k d = Inr d'" "plain_bucket b" "plain_bucket b'" "(b', k') \<noteq> (b, k)"
    for b k d d' b' k'
  proof -
    from that have "makeKey b' k' \<noteq> makeKey b k" by (simp add: makeKey_inject)
    with that del_get_other show ?thesis
      by (auto simp: badger_delete_def badger_get_def split: if_splits sum.splits)
  qed
qed

text \<open>The contract's facts about the store's own operations, under the database's hypotheses.\<close>

context badger_db
begin

lemmas store_put_get = put_get
lemmas store_put_get_other = put_get_other
lemmas store_delete_get = delete_get
lemmas store_delete_get_other = delete_get_other
lemmas store_load_after_save = load_after_save
lemmas store_load_other_after_save = load_other_after_save

end

section \<open>What \<open>ForEach\<close> visits\<close>

definition bucket_items ::
  "('d, 'b) badger \<Rightarrow> string \<Rightarrow> 'd \<Rightarrow> (string \<times> (badger_error, 'b) result) list" where
  "bucket_items D bucket d = filter (\<lambda>(k, v). has_prefix k (bucket_prefix bucket)) (bg_items D d)"

lemma bytes_less_trans: "bytes_less s t \<Longrightarrow> bytes_less t u \<Longrightarrow> bytes_less s u"
  by (induction s t arbitrary: u rule: bytes_less.induct) (case_tac u; auto)+

lemma bytes_less_irrefl: "\<not> bytes_less s s"
  by (induction s) auto

text \<open>The keys with a given prefix are an interval.\<close>

lemma prefix_interval:
  "bytes_less k1 k2 \<Longrightarrow> bytes_less k2 k3 \<Longrightarrow> has_prefix k1 p \<Longrightarrow> has_prefix k3 p \<Longrightarrow> has_prefix k2 p"
proof (induction p arbitrary: k1 k2 k3)
  case (Cons c p)
  from Cons.prems obtain t1 t3 where k: "k1 = c # t1" "k3 = c # t3" "has_prefix t1 p" "has_prefix t3 p"
    by (cases k1; cases k3) auto
  from Cons.prems k obtain d t2 where k2: "k2 = d # t2" by (cases k2) auto
  from Cons.prems k k2 have "d = c" "bytes_less t1 t2" "bytes_less t2 t3" by auto
  with Cons.IH k k2 show ?case by auto
qed simp

lemma takeWhile_filter_sorted:
  assumes "sorted_wrt (\<lambda>x y. bytes_less (fst x) (fst y)) its"
    and "its = [] \<or> has_prefix (fst (hd its)) p"
  shows "takeWhile (\<lambda>x. has_prefix (fst x) p) its = filter (\<lambda>x. has_prefix (fst x) p) its"
  using assms
proof (induction its)
  case (Cons i its)
  then have pi: "has_prefix (fst i) p" by simp
  show ?case
  proof (cases "its = [] \<or> has_prefix (fst (hd its)) p")
    case True
    with Cons.IH Cons.prems(1) pi show ?thesis by simp
  next
    case False
    then obtain j its' where its: "its = j # its'" and nj: "\<not> has_prefix (fst j) p"
      by (cases its) auto
    have "\<not> has_prefix (fst x) p" if "x \<in> set its'" for x
      using Cons.prems(1) its that pi nj prefix_interval [of "fst i" "fst j" "fst x" p] by auto
    then have "filter (\<lambda>x. has_prefix (fst x) p) its' = []" by (simp add: filter_empty_conv)
    with nj its pi show ?thesis by simp
  qed
qed simp

lemma takeWhile_hd_no: "its \<noteq> [] \<Longrightarrow> \<not> P (hd its) \<Longrightarrow> takeWhile P its = []"
  by (cases its) auto

context badger_db
begin

text \<open>The loop visits the whole bucket when the database's first key is in it, and nothing otherwise.\<close>

lemma visited_cases:
  "visited D b d =
     (if bg_items D d \<noteq> [] \<and> has_prefix (fst (hd (bg_items D d))) (bucket_prefix b)
      then bucket_items D b d else [])"
  using takeWhile_filter_sorted [OF items_sorted [of d, unfolded case_prod_unfold], of "bucket_prefix b"]
    takeWhile_hd_no [of "bg_items D d" "\<lambda>x. has_prefix (fst x) (bucket_prefix b)"]
  by (cases "bg_items D d = []") (simp_all add: visited_def bucket_items_def case_prod_unfold)

lemma visited_smaller_key:
  assumes "bg_get D d k = Inr v" "bytes_less k (bucket_prefix b)"
  shows "visited D b d = []"
proof -
  have "map_of (bg_items D d) k = Some (Inr v)" using assms(1) items_get by simp
  then have k: "(k, Inr v) \<in> set (bg_items D d)" by (rule map_of_SomeD)
  then obtain i its where its: "bg_items D d = i # its" by (cases "bg_items D d") auto
  have "fst i = k \<or> bytes_less (fst i) k"
    using k items_sorted [of d] its by (auto simp: case_prod_unfold)
  then have lt: "bytes_less (fst i) (bucket_prefix b)" using assms(2) bytes_less_trans by blast
  have "\<not> bytes_less (p @ s) p" for p s by (induction p) auto
  with lt have "\<not> has_prefix (fst i) (bucket_prefix b)" by (auto simp: has_prefix_iff)
  then show ?thesis by (simp add: visited_cases its)
qed

end

section \<open>Listing and pruning results\<close>

text \<open>The values an error-free loop visits, all of them decoded, are the listing.\<close>

lemma iterate_list_callback:
  assumes "list_all2 (\<lambda>(k, v) res. \<exists>raw. v = Inr raw \<and> co_decode C raw = Some res) its rs"
  shows "iterate (list_callback C) n its acc = (None, acc @ rs)"
  using assms
proof (induction its arbitrary: rs acc)
  case (Cons i its)
  obtain k v where i: "i = (k, v)" by (cases i)
  from Cons.prems i obtain r rs' raw where rs: "rs = r # rs'" "v = Inr raw" "co_decode C raw = Some r"
    and tl: "list_all2 (\<lambda>(k, v) res. \<exists>raw. v = Inr raw \<and> co_decode C raw = Some res) its rs'"
    by (auto simp: list_all2_Cons1)
  show ?case using Cons.IH [OF tl] by (simp add: i rs list_callback_def)
qed simp

lemma results_list_visited:
  assumes "list_all2 (\<lambda>(k, v) res. \<exists>raw. v = Inr raw \<and> co_decode C raw = Some res)
             (visited D resultsBucket d) rs"
  shows "results_list D C d = Inr rs"
  using iterate_list_callback [OF assms, of "length (bucket_prefix resultsBucket)" "[]"]
  by (simp add: results_list_def badger_for_each_def resultsBucket_def)

lemma makeKey_drop:
  "has_prefix k (bucket_prefix b) \<Longrightarrow> makeKey b (drop (length (bucket_prefix b)) k) = k"
  by (auto simp: has_prefix_iff makeKey_def bucket_prefix_def)

context badger_db
begin

lemma prune_callback_get:
  assumes "prune_callback D b C time_of cutoff (drop (length (bucket_prefix b)) k) v d = (None, d')"
    and "has_prefix k (bucket_prefix b)"
  shows "bg_get D d' k' = (if k' = k \<and> expired C time_of cutoff v then Inl ErrKeyNotFound else bg_get D d k')"
  using assms makeKey_drop [OF assms(2)] del_get [of k d] del_get_other [of k d _ k']
  by (auto simp: prune_callback_def badger_delete_def split: if_splits sum.splits)

lemma iterate_prune_get:
  assumes "iterate (prune_callback D b C time_of cutoff) (length (bucket_prefix b)) its d = (None, d')"
    and "list_all (\<lambda>(k, v). has_prefix k (bucket_prefix b)) its"
  shows "bg_get D d' k' = (if \<exists>v. (k', Inr v) \<in> set its \<and> expired C time_of cutoff v
           then Inl ErrKeyNotFound else bg_get D d k')"
  using assms
proof (induction its arbitrary: d)
  case (Cons i its)
  obtain k v where i: "i = (k, v)" by (cases i)
  from Cons.prems(1) i obtain raw where v: "v = Inr raw" by (cases v) auto
  from Cons.prems(1) i v obtain d1 where
    1: "prune_callback D b C time_of cutoff (drop (length (bucket_prefix b)) k) raw d = (None, d1)"
    and 2: "iterate (prune_callback D b C time_of cutoff) (length (bucket_prefix b)) its d1 = (None, d')"
    by (auto split: prod.splits option.splits)
  from Cons.prems(2) i have p: "has_prefix k (bucket_prefix b)" by simp
  show ?case
    using Cons.IH [OF 2] Cons.prems(2) prune_callback_get [OF 1 p, of k'] by (auto simp: i v)
qed simp

lemma list_all_visited: "list_all (\<lambda>(k, v). has_prefix k (bucket_prefix b)) (visited D b d)"
  by (auto simp: visited_def list_all_iff dest: set_takeWhileD)

lemma visited_get: "(k, Inr v) \<in> set (visited D b d) \<Longrightarrow> bg_get D d k = Inr v"
proof -
  assume "(k, Inr v) \<in> set (visited D b d)"
  then have "(k, Inr v) \<in> set (bg_items D d)" by (auto simp: visited_def dest: set_takeWhileD)
  moreover have "distinct (map fst (bg_items D d))"
  proof -
    have "sorted_wrt (\<lambda>x y. bytes_less (fst x) (fst y)) its \<Longrightarrow> distinct (map fst its)"
      for its :: "(string \<times> (badger_error, 'b) result) list"
    proof (induction its)
      case (Cons i its)
      then have "fst i \<notin> fst ` set its" using bytes_less_irrefl by fastforce
      with Cons show ?case by simp
    qed simp
    with items_sorted [of d] show ?thesis by (simp add: case_prod_unfold)
  qed
  ultimately have "map_of (bg_items D d) k = Some (Inr v)" by simp
  then show ?thesis by (auto simp: items_get split: sum.splits if_splits)
qed

lemma prune_gets:
  assumes "prune_bucket D b C time_of cutoff d = (None, d')" "b \<noteq> []"
  shows "bg_get D d' k = (if \<exists>v. (k, Inr v) \<in> set (visited D b d) \<and> expired C time_of cutoff v
           then Inl ErrKeyNotFound else bg_get D d k)"
proof (rule iterate_prune_get [OF _ list_all_visited])
  show "iterate (prune_callback D b C time_of cutoff) (length (bucket_prefix b)) (visited D b d) d = (None, d')"
    using assms by (simp add: prune_bucket_def badger_for_each_def)
qed

end

section \<open>A database in memory\<close>

text \<open>
  A reference database that satisfies the documented behaviour: an association list of the values
  written, read out in key order.
\<close>

definition mem_set :: "string \<Rightarrow> 'b \<Rightarrow> 'b gomap \<Rightarrow> (badger_error, 'b gomap) result" where
  "mem_set k v m = Inr ((k, v) # filter (\<lambda>e. fst e \<noteq> k) m)"

definition mem_get :: "'b gomap \<Rightarrow> string \<Rightarrow> (badger_error, 'b) result" where
  "mem_get m k = (case map_of m k of Some v \<Rightarrow> Inr v | None \<Rightarrow> Inl ErrKeyNotFound)"

definition mem_del :: "string \<Rightarrow> 'b gomap \<Rightarrow> (badger_error, 'b gomap) result" where
  "mem_del k m = Inr (filter (\<lambda>e. fst e \<noteq> k) m)"

fun key_insert :: "string \<Rightarrow> 'v \<Rightarrow> (string \<times> 'v) list \<Rightarrow> (string \<times> 'v) list" where
  "key_insert k v [] = [(k, v)]"
| "key_insert k v ((k', v') # m) =
     (if k = k' then (k, v) # m
      else if bytes_less k k' then (k, v) # (k', v') # m else (k', v') # key_insert k v m)"

definition mem_items :: "'b gomap \<Rightarrow> (string \<times> (badger_error, 'b) result) list" where
  "mem_items m = foldr (\<lambda>(k, v) acc. key_insert k (Inr v) acc) m []"

definition mem_badger :: "('b gomap, 'b) badger" where
  "mem_badger = \<lparr>bg_set = mem_set, bg_get = mem_get, bg_del = mem_del, bg_items = mem_items\<rparr>"

lemma bytes_less_total: "s \<noteq> t \<Longrightarrow> \<not> bytes_less s t \<Longrightarrow> bytes_less t s"
proof (induction s t rule: bytes_less.induct)
  case (1 s)
  then show ?case by (cases s) auto
qed auto

lemma set_key_insert: "fst ` set (key_insert k v m) = insert k (fst ` set m)"
  by (induction k v m rule: key_insert.induct) auto

lemma sorted_key_insert:
  "sorted_wrt (\<lambda>x y. bytes_less (fst x) (fst y)) m
     \<Longrightarrow> sorted_wrt (\<lambda>x y. bytes_less (fst x) (fst y)) (key_insert k v m)"
proof (induction k v m rule: key_insert.induct)
  case (2 k v k' v' m)
  have "bytes_less k' (fst x)" if "bytes_less k' k" "x \<in> set (key_insert k v m)" for x
  proof -
    from that(2) have "fst x \<in> insert k (fst ` set m)" using set_key_insert [of k v m] by blast
    with that(1) "2.prems" show ?thesis by auto
  qed
  with 2 bytes_less_total [of k k'] show ?case by (auto dest: bytes_less_trans)
qed simp

lemma map_of_key_insert:
  "sorted_wrt (\<lambda>x y. bytes_less (fst x) (fst y)) m \<Longrightarrow> map_of (key_insert k v m) = (map_of m)(k \<mapsto> v)"
  by (induction k v m rule: key_insert.induct) (auto simp: fun_eq_iff bytes_less_irrefl)

lemma mem_items_facts:
  "sorted_wrt (\<lambda>x y. bytes_less (fst x) (fst y)) (mem_items m)"
  "map_of (mem_items m) k = map_option Inr (map_of m k)"
proof -
  show s: "sorted_wrt (\<lambda>x y. bytes_less (fst x) (fst y)) (mem_items m)" for m :: "'a gomap"
    by (induction m) (auto simp: mem_items_def sorted_key_insert)
  show "map_of (mem_items m) k = map_option Inr (map_of m k)"
  proof (induction m)
    case (Cons e m)
    obtain k' v' where e: "e = (k', v')" by (cases e)
    have "mem_items (e # m) = key_insert k' (Inr v') (mem_items m)" by (simp add: mem_items_def e)
    with Cons s [of m] show ?case by (simp add: map_of_key_insert e)
  qed (simp add: mem_items_def)
qed

lemma map_of_filter_key: "map_of (filter (\<lambda>e. fst e \<noteq> k) m) k' = (if k' = k then None else map_of m k')"
  by (induction m) auto

interpretation mem: badger_db mem_badger
  by unfold_locales
     (auto simp: mem_badger_def mem_set_def mem_get_def mem_del_def mem_items_facts map_of_filter_key
       case_prod_unfold split: option.splits)

section \<open>Properties\<close>

text \<open>The loop of \<open>ForEach\<close> visits exactly the bucket's entries, in key order, when the bucket is empty
  or holds the first key of the whole database; otherwise it visits nothing.\<close>

theorem for_each_visits:
  assumes "badger_db D"
  shows "visited D b d =
    (if bucket_items D b d = [] \<or> has_prefix (fst (hd (bg_items D d))) (bucket_prefix b)
     then bucket_items D b d else [])"
proof -
  have "bg_items D d = [] \<Longrightarrow> bucket_items D b d = []" by (simp add: bucket_items_def)
  then show ?thesis unfolding badger_db.visited_cases [OF assms, of b d]
    by (cases "bg_items D d = []") auto
qed

theorem for_each_visits_witness:
  "visited mem_badger ''results'' [(''results/1'', True)] =
    (if bucket_items mem_badger ''results'' [(''results/1'', True)] = []
        \<or> has_prefix (fst (hd (bg_items mem_badger [(''results/1'', True)]))) (bucket_prefix ''results'')
     then bucket_items mem_badger ''results'' [(''results/1'', True)] else [])"
  by (rule for_each_visits [OF mem.badger_db_axioms])

text \<open>C39 Once a single baseline is stored, no stored result is listed or exported any more, and none is
  ever pruned: the key of the baseline sorts first, and the loop stops at it.\<close>

theorem results_hidden_by_baselines:
  assumes "badger_db D" "badger_get D ''baselines'' k d = Inr v"
  shows "results_list D C d = Inr [] \<and> PruneOlderThan D C cutoff d = (None, d)"
proof -
  have g: "bg_get D d (makeKey ''baselines'' k) = Inr v"
    using assms(2) by (auto simp: badger_get_def split: if_splits sum.splits)
  have "bytes_less (makeKey ''baselines'' k) (bucket_prefix resultsBucket)"
    by (simp add: makeKey_def bucket_prefix_def resultsBucket_def)
  then have "visited D resultsBucket d = []" by (rule badger_db.visited_smaller_key [OF assms(1) g])
  then show ?thesis
    by (simp add: results_list_def PruneOlderThan_def prune_bucket_def badger_for_each_def resultsBucket_def)
qed

definition sample_result :: scan_result where
  "sample_result =
     \<lparr>r_scanner = ''system.uptime'', r_status = StatusSuccess, r_findings = [], r_started = 1, r_finished = 2,
      r_duration = 1, r_metadata = []\<rparr>"

definition sample_codec :: "(scan_result, bool) codec" where
  "sample_codec = \<lparr>co_encode = (\<lambda>r. Some True), co_decode = (\<lambda>b. Some sample_result)\<rparr>"

theorem results_hidden_by_baselines_witness:
  "results_list mem_badger sample_codec [(''results/1-a-ff'', True), (''baselines/a::m'', True)] = Inr []
   \<and> PruneOlderThan mem_badger sample_codec 100 [(''results/1-a-ff'', True), (''baselines/a::m'', True)]
     = (None, [(''results/1-a-ff'', True), (''baselines/a::m'', True)])"
proof (rule results_hidden_by_baselines [OF mem.badger_db_axioms])
  show "badger_get mem_badger ''baselines'' ''a::m'' [(''results/1-a-ff'', True), (''baselines/a::m'', True)] = Inr True"
    by (simp add: badger_get_def makeKey_def mem_badger_def mem_get_def)
qed

text \<open>A pruning that succeeds removes exactly the entries it visited whose result finished before the
  cutoff, and leaves every other key of the database as it was.\<close>

theorem prune_removes_expired:
  assumes "badger_db D" "PruneOlderThan D C cutoff d = (None, d')"
  shows "bg_get D d' k =
     (if \<exists>v. (k, Inr v) \<in> set (visited D resultsBucket d) \<and> expired C r_finished cutoff v
      then Inl ErrKeyNotFound else bg_get D d k)"
  using assms(2) unfolding PruneOlderThan_def
  by (rule badger_db.prune_gets [OF assms(1)]) (simp add: resultsBucket_def)

theorem prune_removes_expired_witness:
  "bg_get mem_badger [] ''results/1-a-ff'' =
     (if \<exists>v. (''results/1-a-ff'', Inr v) \<in> set (visited mem_badger resultsBucket [(''results/1-a-ff'', True)])
         \<and> expired sample_codec r_finished 100 v
      then Inl ErrKeyNotFound else bg_get mem_badger [(''results/1-a-ff'', True)] ''results/1-a-ff'')"
proof (rule prune_removes_expired [OF mem.badger_db_axioms])
  show "PruneOlderThan mem_badger sample_codec 100 [(''results/1-a-ff'', True)] = (None, [])"
    by (simp add: PruneOlderThan_def prune_bucket_def badger_for_each_def resultsBucket_def visited_def
        mem_badger_def mem_items_def bucket_prefix_def prune_callback_def expired_def sample_codec_def
        sample_result_def badger_delete_def makeKey_def mem_del_def is_zero_time_def zero_time_def)
qed

end
