(* ===== verification/Scheduler.thy ===== *)
theory Scheduler
  imports Storage
begin

text \<open>
  The job scheduler, \<open>internal/scheduler/scheduler.go\<close>: job configurations and schedules, the job
  record with its persisted state, one execution with its retries, and the manual run. The cron
  expression parser is a third-party package and a parameter, a parsed expression being its \<open>Next\<close>
  function. The world \<open>'w\<close> a plugin may change is read through its clock and advanced by sleeping.
  Errors that end in a log line or in the job's state are kept as constructors instead of their text.
\<close>

section \<open>Schedules\<close>

datatype sched_error =
    JobNameRequired
  | JobPluginRequired
  | ScheduleRequired
  | UnsupportedSchedule string
  | IntervalNotPositive
  | JobExists string

text \<open>\<open>scheduleSpec\<close>, tagged by its kind: the interval or the cron schedule, and the raw text.\<close>

datatype schedule_spec = IntervalSpec int string | CronSpec "int \<Rightarrow> int" string

fun spec_next :: "schedule_spec \<Rightarrow> int \<Rightarrow> int" where
  "spec_next (IntervalSpec interval raw) t = time_add t interval"
| "spec_next (CronSpec cron raw) t = cron t"

type_synonym cron_parser = "string \<Rightarrow> (int \<Rightarrow> int) option"

definition every_prefix :: string where
  "every_prefix = ''@every ''"

definition parseSchedule :: "cron_parser \<Rightarrow> string \<Rightarrow> (sched_error, schedule_spec) result" where
  "parseSchedule cron expr0 =
     (let expr1 = trim_space expr0 in
      if expr1 = [] then Inl ScheduleRequired
      else let expr = (if has_prefix expr1 every_prefix then trim_prefix expr1 every_prefix else expr1) in
        case parse_duration expr of
          None \<Rightarrow> (case cron expr of None \<Rightarrow> Inl (UnsupportedSchedule expr) | Some sched \<Rightarrow> Inr (CronSpec sched expr))
        | Some interval \<Rightarrow>
            if interval \<le> 0 then Inl IntervalNotPositive else Inr (IntervalSpec interval expr))"

section \<open>Jobs\<close>

record job_config =
  jc_name :: string
  jc_plugin :: string
  jc_schedule :: string
  jc_timeout :: int
  jc_max_retries :: int
  jc_backoff :: int
  jc_retry_max :: int
  jc_overlap :: bool
  jc_run_on_start :: bool

datatype job_error = LookupFailed manager_error | PluginError string | JobFailed | NilResult

record job_state =
  js_last_run :: int
  js_last_success :: int
  js_last_error :: int
  js_last_status :: status
  js_error_message :: "job_error option"
  js_failures :: int

definition empty_state :: job_state where
  "empty_state =
     \<lparr>js_last_run = zero_time, js_last_success = zero_time, js_last_error = zero_time,
      js_last_status = [], js_error_message = None, js_failures = 0\<rparr>"

record job =
  jb_cfg :: job_config
  jb_spec :: schedule_spec
  jb_closed :: bool \<comment> \<open>the channel \<open>stop\<close> is closed\<close>
  jb_running :: bool
  jb_started :: bool
  jb_state :: job_state
  jb_next :: int

definition computeNextRun :: "job \<Rightarrow> int \<Rightarrow> int" where
  "computeNextRun j now =
     (case jb_spec j of
        IntervalSpec interval raw \<Rightarrow>
          if \<not> is_zero_time (js_last_run (jb_state j))
             \<and> time_add (js_last_run (jb_state j)) interval > now
          then time_add (js_last_run (jb_state j)) interval
          else spec_next (jb_spec j) now
      | CronSpec cron raw \<Rightarrow> spec_next (jb_spec j) now)"

text \<open>The state \<open>updateState\<close> leaves in memory; \<open>err\<close> is nil exactly when it is \<open>None\<close>.\<close>

definition update_state :: "int \<Rightarrow> status \<Rightarrow> job_error option \<Rightarrow> job_state \<Rightarrow> job_state" where
  "update_state now st err s =
     (let s1 = s\<lparr>js_last_run := now, js_last_status := st\<rparr> in
      case err of
        Some e \<Rightarrow> s1\<lparr>js_last_error := now, js_error_message := Some e, js_failures := js_failures s + 1\<rparr>
      | None \<Rightarrow> s1\<lparr>js_last_success := now, js_error_message := None, js_failures := 0\<rparr>)"

section \<open>Persistence\<close>

definition state_bucket :: string where
  "state_bucket = ''scheduler_state''"

text \<open>A scheduler has a state store or none; every failure leaves things as they are.\<close>

definition loadState ::
  "('d, 'b) store_ops option \<Rightarrow> (job_state, 'b) codec \<Rightarrow> 'd \<Rightarrow> job \<Rightarrow> job" where
  "loadState store C d j =
     (case store of
        None \<Rightarrow> j
      | Some S \<Rightarrow>
          (case so_get S state_bucket (jc_name (jb_cfg j)) d of
             Inl e \<Rightarrow> j
           | Inr raw \<Rightarrow> (case co_decode C raw of None \<Rightarrow> j | Some st \<Rightarrow> j\<lparr>jb_state := st\<rparr>)))"

definition saveState ::
  "('d, 'b) store_ops option \<Rightarrow> (job_state, 'b) codec \<Rightarrow> job \<Rightarrow> 'd \<Rightarrow> 'd" where
  "saveState store C j d =
     (case store of
        None \<Rightarrow> d
      | Some S \<Rightarrow>
          (case co_encode C (jb_state j) of
             None \<Rightarrow> d
           | Some raw \<Rightarrow>
               (case so_put S state_bucket (jc_name (jb_cfg j)) raw d of Inl e \<Rightarrow> d | Inr d' \<Rightarrow> d')))"

definition updateState ::
  "('d, 'b) store_ops option \<Rightarrow> (job_state, 'b) codec \<Rightarrow> int \<Rightarrow> status \<Rightarrow> job_error option \<Rightarrow> job \<times> 'd
     \<Rightarrow> job \<times> 'd" where
  "updateState store C now st err jd =
     (let j' = (fst jd)\<lparr>jb_state := update_state now st err (jb_state (fst jd))\<rparr>
      in (j', saveState store C j' (snd jd)))"

section \<open>Adding a job\<close>

definition normalize_config :: "job_config \<Rightarrow> job_config" where
  "normalize_config cfg =
     cfg\<lparr>jc_timeout := (if jc_timeout cfg \<le> 0 then 2 * minute else jc_timeout cfg),
         jc_max_retries := (if jc_max_retries cfg < 0 then 0 else jc_max_retries cfg),
         jc_backoff := (if jc_backoff cfg \<le> 0 then 2 * second else jc_backoff cfg),
         jc_retry_max := (if jc_retry_max cfg \<le> 0 then 30 * second else jc_retry_max cfg)\<rparr>"

text \<open>The job \<open>AddJob\<close> would insert into a scheduler whose jobs are named \<open>names\<close>.\<close>

definition new_job ::
  "cron_parser \<Rightarrow> ('d, 'b) store_ops option \<Rightarrow> (job_state, 'b) codec \<Rightarrow> 'd \<Rightarrow> int \<Rightarrow> string set
     \<Rightarrow> job_config \<Rightarrow> (sched_error, job) result" where
  "new_job cron store C d now names cfg =
     (if jc_name cfg = [] then Inl JobNameRequired
      else if jc_plugin cfg = [] then Inl JobPluginRequired
      else case parseSchedule cron (jc_schedule cfg) of
        Inl e \<Rightarrow> Inl e
      | Inr spec \<Rightarrow>
          let cfg' = normalize_config cfg in
          if jc_name cfg' \<in> names then Inl (JobExists (jc_name cfg'))
          else let j = loadState store C d
                 \<lparr>jb_cfg = cfg', jb_spec = spec, jb_closed = False, jb_running = False,
                  jb_started = False, jb_state = empty_state, jb_next = zero_time\<rparr>
               in Inr (j\<lparr>jb_next := computeNextRun j now\<rparr>))"

section \<open>One execution\<close>

record 'w env =
  e_now :: "'w \<Rightarrow> int"
  e_sleep :: "int \<Rightarrow> 'w \<Rightarrow> 'w"

text \<open>
  \<open>runOnce\<close>: a panic of the plugin is recovered, and the function then returns its zero values.
\<close>

definition job_run_once ::
  "'w manager \<Rightarrow> job_config \<Rightarrow> int \<Rightarrow> 'w \<Rightarrow> (scan_result option \<times> job_error option) \<times> 'w" where
  "job_run_once m cfg deadline w =
     (case manager_get m (jc_plugin cfg) of
        Inl e \<Rightarrow> ((None, Some (LookupFailed e)), w)
      | Inr p \<Rightarrow>
          (case pl_run p deadline w of
             (Returned res err, w') \<Rightarrow> ((res, map_option PluginError err), w')
           | (Panicked msg, w') \<Rightarrow> ((None, None), w')))"

definition stamp_result :: "int \<Rightarrow> int \<Rightarrow> scan_result \<Rightarrow> scan_result" where
  "stamp_result started finished res =
     res\<lparr>r_started := started, r_finished := finished, r_duration := time_sub finished started\<rparr>"

text \<open>\<open>RetryBackoff * time.Duration(1<<attempt)\<close>, capped, in 64-bit arithmetic.\<close>

definition retry_backoff :: "job_config \<Rightarrow> nat \<Rightarrow> int" where
  "retry_backoff cfg attempt =
     (let backoff = mul64 (jc_backoff cfg) (shl64 1 attempt)
      in if backoff > jc_retry_max cfg then jc_retry_max cfg else backoff)"

function retry_loop ::
  "'w env \<Rightarrow> 'w manager \<Rightarrow> job_config \<Rightarrow> nat \<Rightarrow> job_error option \<Rightarrow> 'w
     \<Rightarrow> (scan_result option \<times> job_error option) \<times> 'w" where
  "retry_loop E m cfg attempt lastErr w =
     (if int attempt > jc_max_retries cfg
      then ((None, Some (case lastErr of None \<Rightarrow> JobFailed | Some e \<Rightarrow> e)), w)
      else
        let started = e_now E w;
            ((res, err), w1) = job_run_once m cfg (time_add (e_now E w) (jc_timeout cfg)) w
        in case (res, err) of
             (Some r, None) \<Rightarrow> ((Some (stamp_result started (e_now E w1) r), None), w1)
           | _ \<Rightarrow>
               let w2 = (if int attempt < jc_max_retries cfg then e_sleep E (retry_backoff cfg attempt) w1 else w1)
               in retry_loop E m cfg (Suc attempt) err w2)"
  by pat_completeness auto
termination
  by (relation "measure (\<lambda>(E, m, cfg, attempt, lastErr, w). nat (jc_max_retries cfg + 1 - int attempt))") auto

declare retry_loop.simps [simp del]

definition executeWithRetry ::
  "'w env \<Rightarrow> 'w manager \<Rightarrow> job_config \<Rightarrow> 'w \<Rightarrow> (scan_result option \<times> job_error option) \<times> 'w" where
  "executeWithRetry E m cfg w = retry_loop E m cfg 0 None w"

text \<open>
  \<open>executeJob\<close> in two halves: the overlap guard in front of \<open>executeWithRetry\<close>, and what follows it.
  \<open>begin_job\<close> is \<open>None\<close> when the execution is skipped. The second half returns the result handed to
  the callback, if any.
\<close>

definition begin_job :: "job \<Rightarrow> job option" where
  "begin_job j =
     (if jc_overlap (jb_cfg j) then Some j
      else if jb_running j then None else Some (j\<lparr>jb_running := True\<rparr>))"

definition end_running :: "job \<Rightarrow> job" where
  "end_running j = (if jc_overlap (jb_cfg j) then j else j\<lparr>jb_running := False\<rparr>)"

definition end_job ::
  "('d, 'b) store_ops option \<Rightarrow> (job_state, 'b) codec \<Rightarrow> int \<Rightarrow> scan_result option \<times> job_error option
     \<Rightarrow> job \<times> 'd \<Rightarrow> (job \<times> 'd) \<times> scan_result option" where
  "end_job store C now outcome jd =
     (let ((j', d'), out) =
        (case outcome of
           (res, Some e) \<Rightarrow> (updateState store C now StatusFailed (Some e) jd, None)
         | (None, None) \<Rightarrow> (updateState store C now StatusFailed (Some NilResult) jd, None)
         | (Some res, None) \<Rightarrow> (updateState store C now (r_status res) None jd, Some res))
      in ((end_running j', d'), out))"

definition executeJob ::
  "('d, 'b) store_ops option \<Rightarrow> (job_state, 'b) codec \<Rightarrow> 'w env \<Rightarrow> 'w manager \<Rightarrow> job \<times> 'd \<Rightarrow> 'w
     \<Rightarrow> ((job \<times> 'd) \<times> scan_result option) \<times> 'w" where
  "executeJob store C E m jd w =
     (case begin_job (fst jd) of
        None \<Rightarrow> ((jd, None), w)
      | Some j' \<Rightarrow>
          (case executeWithRetry E m (jb_cfg j') w of
             (outcome, w') \<Rightarrow> (end_job store C (e_now E w') outcome (j', snd jd), w')))"

text \<open>
  \<open>RunOnce\<close>, the manual trigger: the returned pointer and error, and the result handed to the
  callback. A recovered panic returns the zero values, nil and nil.
\<close>

definition RunOnce ::
  "'w env \<Rightarrow> 'w manager \<Rightarrow> string \<Rightarrow> int \<Rightarrow> 'w
     \<Rightarrow> (scan_result option \<times> job_error option) \<times> scan_result option \<times> 'w" where
  "RunOnce E m name timeout w =
     (case manager_get m name of
        Inl e \<Rightarrow> ((None, Some (LookupFailed e)), None, w)
      | Inr p \<Rightarrow>
          let timeout' = (if timeout \<le> 0 then 2 * minute else timeout);
              started = e_now E w
          in case pl_run p (time_add started timeout') w of
               (Panicked msg, w') \<Rightarrow> ((None, None), None, w')
             | (Returned res (Some err), w') \<Rightarrow> ((None, Some (PluginError err)), None, w')
             | (Returned None None, w') \<Rightarrow> ((None, Some NilResult), None, w')
             | (Returned (Some r) None, w') \<Rightarrow>
                 let r' = stamp_result started (e_now E w') r in ((Some r', None), Some r', w'))"

section \<open>Facts about schedules\<close>

lemma parseSchedule_interval_pos: "parseSchedule cron expr = Inr (IntervalSpec i raw) \<Longrightarrow> 0 < i"
  by (auto simp: parseSchedule_def Let_def split: if_splits option.splits)

definition spec_ok :: "schedule_spec \<Rightarrow> bool" where
  "spec_ok sp = (case sp of IntervalSpec i raw \<Rightarrow> 0 < i | CronSpec cron raw \<Rightarrow> \<forall>t. t < cron t)"

text \<open>The next run is in the future, and an interval job's at most one interval away.\<close>

lemma computeNextRun_future: "spec_ok (jb_spec j) \<Longrightarrow> now < computeNextRun j now"
  by (auto simp: spec_ok_def computeNextRun_def time_add_def split: schedule_spec.splits)

lemma computeNextRun_interval:
  assumes "jb_spec j = IntervalSpec i raw" "js_last_run (jb_state j) \<le> now" "0 < i"
  shows "computeNextRun j now \<le> now + i"
    and "\<not> is_zero_time (js_last_run (jb_state j)) \<Longrightarrow> js_last_run (jb_state j) + i \<le> computeNextRun j now"
    and "\<not> is_zero_time (js_last_run (jb_state j)) \<Longrightarrow> now < js_last_run (jb_state j) + i
           \<Longrightarrow> computeNextRun j now = js_last_run (jb_state j) + i"
  using assms by (auto simp: computeNextRun_def time_add_def)

section \<open>Facts about retries\<close>

lemma shl64_small: "n < 63 \<Longrightarrow> shl64 1 n = 2 ^ n"
proof -
  assume "n < 63"
  then have "(2 :: int) ^ n < 2 ^ 63" by (intro power_strict_increasing) simp_all
  moreover have "min_int64 \<le> 2 ^ n" by (rule order_trans [of _ 0]) (simp_all add: min_int64_def)
  ultimately have "wrap64 (2 ^ n) = 2 ^ n" by (intro wrap64_id) (simp_all add: max_int64_def)
  then show ?thesis by (simp add: shl64_def)
qed

lemma retry_backoff_le: "retry_backoff cfg a \<le> jc_retry_max cfg"
  by (simp add: retry_backoff_def Let_def)

lemma retry_backoff_exact:
  assumes "0 < jc_backoff cfg" "jc_backoff cfg * 2 ^ a \<le> max_int64"
  shows "retry_backoff cfg a = min (jc_backoff cfg * 2 ^ a) (jc_retry_max cfg)"
proof -
  have "1 * (2 :: int) ^ a \<le> jc_backoff cfg * 2 ^ a" using assms(1) by (intro mult_right_mono) simp_all
  with assms(2) have "(2 :: int) ^ a < 2 ^ 63" unfolding max_int64_def by linarith
  then have "a < 63" by (simp only: power_strict_increasing_iff)
  moreover have "wrap64 (jc_backoff cfg * 2 ^ a) = jc_backoff cfg * 2 ^ a"
  proof (rule wrap64_id)
    have "0 \<le> jc_backoff cfg * 2 ^ a" using assms(1) by simp
    then show "min_int64 \<le> jc_backoff cfg * 2 ^ a"
      by (rule order_trans [rotated]) (simp add: min_int64_def)
  qed (rule assms(2))
  ultimately have "mul64 (jc_backoff cfg) (shl64 1 a) = jc_backoff cfg * 2 ^ a"
    by (simp add: mul64_def shl64_small)
  then show ?thesis by (simp add: retry_backoff_def Let_def)
qed

definition run_at :: "'w env \<Rightarrow> 'w manager \<Rightarrow> job_config \<Rightarrow> 'w \<Rightarrow> (scan_result option \<times> job_error option) \<times> 'w" where
  "run_at E m cfg w = job_run_once m cfg (time_add (e_now E w) (jc_timeout cfg)) w"

fun succeeds :: "scan_result option \<times> job_error option \<Rightarrow> bool" where
  "succeeds (Some r, None) = True"
| "succeeds _ = False"

text \<open>The world an attempt starts in when all before it failed.\<close>

fun world_at :: "'w env \<Rightarrow> 'w manager \<Rightarrow> job_config \<Rightarrow> nat \<Rightarrow> 'w \<Rightarrow> 'w" where
  "world_at E m cfg 0 w = w"
| "world_at E m cfg (Suc n) w =
     (let w1 = snd (run_at E m cfg (world_at E m cfg n w))
      in if int n < jc_max_retries cfg then e_sleep E (retry_backoff cfg n) w1 else w1)"

definition attempt_outcome ::
  "'w env \<Rightarrow> 'w manager \<Rightarrow> job_config \<Rightarrow> nat \<Rightarrow> 'w \<Rightarrow> scan_result option \<times> job_error option" where
  "attempt_outcome E m cfg n w = fst (run_at E m cfg (world_at E m cfg n w))"

lemma retry_loop_fail_step:
  assumes "int a \<le> jc_max_retries cfg" "\<not> succeeds (attempt_outcome E m cfg a w)"
  shows "retry_loop E m cfg a lastErr (world_at E m cfg a w)
       = retry_loop E m cfg (Suc a) (snd (attempt_outcome E m cfg a w)) (world_at E m cfg (Suc a) w)"
proof -
  obtain res err w1 where r: "run_at E m cfg (world_at E m cfg a w) = ((res, err), w1)"
    by (metis surj_pair)
  with assms(2) have "res = None \<or> (\<exists>e. err = Some e)"
    by (cases res; cases err) (auto simp: attempt_outcome_def)
  with r assms(1) show ?thesis
    by (subst retry_loop.simps)
       (auto simp: attempt_outcome_def run_at_def Let_def split: option.splits)
qed

lemma retry_loop_skip:
  assumes "\<forall>i<k. \<not> succeeds (attempt_outcome E m cfg i w)" "int k \<le> jc_max_retries cfg + 1"
  shows "executeWithRetry E m cfg w
       = retry_loop E m cfg k (if k = 0 then None else snd (attempt_outcome E m cfg (k - 1) w)) (world_at E m cfg k w)"
  using assms
proof (induction k)
  case 0
  then show ?case by (simp add: executeWithRetry_def)
next
  case (Suc k)
  then have "executeWithRetry E m cfg w
      = retry_loop E m cfg k (if k = 0 then None else snd (attempt_outcome E m cfg (k - 1) w)) (world_at E m cfg k w)"
    by auto
  also have "\<dots> = retry_loop E m cfg (Suc k) (snd (attempt_outcome E m cfg k w)) (world_at E m cfg (Suc k) w)"
    using Suc.prems by (intro retry_loop_fail_step) auto
  finally show ?case by simp
qed

text \<open>The first successful attempt ends the loop; without one the last attempt's error is returned.\<close>

lemma executeWithRetry_success:
  assumes "int k \<le> jc_max_retries cfg" "\<forall>i<k. \<not> succeeds (attempt_outcome E m cfg i w)"
    and "run_at E m cfg (world_at E m cfg k w) = ((Some r, None), w1)"
  shows "executeWithRetry E m cfg w
       = ((Some (stamp_result (e_now E (world_at E m cfg k w)) (e_now E w1) r), None), w1)"
proof -
  have "executeWithRetry E m cfg w
       = retry_loop E m cfg k (if k = 0 then None else snd (attempt_outcome E m cfg (k - 1) w)) (world_at E m cfg k w)"
    using assms by (intro retry_loop_skip) auto
  also have "\<dots> = ((Some (stamp_result (e_now E (world_at E m cfg k w)) (e_now E w1) r), None), w1)"
    using assms(1,3) by (subst retry_loop.simps) (simp add: run_at_def Let_def)
  finally show ?thesis .
qed

lemma executeWithRetry_failure:
  assumes "jc_max_retries cfg = int n" "\<forall>i\<le>n. \<not> succeeds (attempt_outcome E m cfg i w)"
  shows "executeWithRetry E m cfg w
       = ((None, Some (case snd (attempt_outcome E m cfg n w) of None \<Rightarrow> JobFailed | Some e \<Rightarrow> e)),
          world_at E m cfg (Suc n) w)"
proof -
  have "executeWithRetry E m cfg w
       = retry_loop E m cfg (Suc n) (if Suc n = 0 then None else snd (attempt_outcome E m cfg (Suc n - 1) w)) (world_at E m cfg (Suc n) w)"
    using assms by (intro retry_loop_skip) auto
  then show ?thesis using assms(1) by (subst (asm) retry_loop.simps) simp
qed

lemma executeWithRetry_never_nil:
  "fst (executeWithRetry E m cfg w) \<noteq> (None, None)
   \<and> (snd (fst (executeWithRetry E m cfg w)) = None \<longleftrightarrow> (\<exists>r. fst (fst (executeWithRetry E m cfg w)) = Some r))"
proof -
  have "snd (fst (retry_loop E m cfg a le w)) = None \<longleftrightarrow> (\<exists>r. fst (fst (retry_loop E m cfg a le w)) = Some r)"
    for a le w
  proof (induction E m cfg a le w rule: retry_loop.induct)
    case (1 E m cfg a le w)
    then show ?case
      by (subst (1 2) retry_loop.simps) (auto simp: Let_def split: prod.splits option.splits)
  qed
  then show ?thesis unfolding executeWithRetry_def by (metis fst_conv option.distinct(1) snd_conv)
qed

section \<open>Facts about a job's state\<close>

definition job_state_inv :: "job_state \<Rightarrow> bool" where
  "job_state_inv s \<longleftrightarrow>
     0 \<le> js_failures s
     \<and> (js_failures s = 0 \<longleftrightarrow> js_error_message s = None)
     \<and> (if js_failures s = 0 then js_last_run s = js_last_success s else js_last_run s = js_last_error s)"

lemma job_state_inv_empty [inv_intros]: "job_state_inv empty_state"
  by (simp add: job_state_inv_def empty_state_def)

lemma job_state_inv_update [inv_intros]: "job_state_inv s \<Longrightarrow> job_state_inv (update_state now st err s)"
  by (auto simp: job_state_inv_def update_state_def Let_def split: option.splits)

definition update_states :: "(int \<times> status \<times> job_error option) list \<Rightarrow> job_state \<Rightarrow> job_state" where
  "update_states evs s = foldl (\<lambda>s (now, st, err). update_state now st err s) s evs"

lemma update_states_snoc [simp]:
  "update_states (evs @ [(now, st, err)]) s = update_state now st err (update_states evs s)"
  by (simp add: update_states_def)

lemma update_state_run [run_simps]:
  "js_last_run (update_state now st err s) = now"
  "js_failures (update_state now st err s) = (if err = None then 0 else js_failures s + 1)"
  by (auto simp: update_state_def Let_def split: option.splits)

lemma failures_count:
  "js_failures (update_states evs empty_state)
     = int (length (takeWhile (\<lambda>(now, st, err). err \<noteq> None) (rev evs)))"
proof (induction evs rule: rev_induct)
  case (snoc e evs)
  then show ?case by (cases e) (auto simp: run_simps)
qed (simp add: update_states_def empty_state_def)

lemma end_job_simps [run_simps]:
  "jb_cfg (fst (fst (end_job store C now out jd))) = jb_cfg (fst jd)"
  "jb_spec (fst (fst (end_job store C now out jd))) = jb_spec (fst jd)"
  "jb_next (fst (fst (end_job store C now out jd))) = jb_next (fst jd)"
  "jb_closed (fst (fst (end_job store C now out jd))) = jb_closed (fst jd)"
  "jb_started (fst (fst (end_job store C now out jd))) = jb_started (fst jd)"
  "jb_running (fst (fst (end_job store C now out jd))) = (jc_overlap (jb_cfg (fst jd)) \<and> jb_running (fst jd))"
  "js_last_run (jb_state (fst (fst (end_job store C now out jd)))) = now"
  by (cases out; auto simp: end_job_def updateState_def end_running_def run_simps Let_def split: option.splits)+

lemma loadState_simps [run_simps]:
  "jb_cfg (loadState store C d j) = jb_cfg j" "jb_spec (loadState store C d j) = jb_spec j"
  "jb_closed (loadState store C d j) = jb_closed j" "jb_running (loadState store C d j) = jb_running j"
  "jb_started (loadState store C d j) = jb_started j"
  by (auto simp: loadState_def split: option.splits sum.splits)

lemma new_job_simps:
  assumes "new_job cron store C d now names cfg = Inr j"
  shows "jb_cfg j = normalize_config cfg" "\<not> jb_closed j" "\<not> jb_running j" "\<not> jb_started j"
    "parseSchedule cron (jc_schedule cfg) = Inr (jb_spec j)"
    "jc_name cfg \<noteq> []" "jc_plugin cfg \<noteq> []" "jc_name cfg \<notin> names"
  using assms
  by (auto simp: new_job_def Let_def normalize_config_def run_simps split: if_splits sum.splits)

text \<open>A state that was saved is the one the next process loads.\<close>

lemma state_bucket_plain: "plain_bucket state_bucket"
  by (simp add: plain_bucket_def state_bucket_def)

section \<open>Properties\<close>

text \<open>C22 An execution makes the attempts \<open>0, 1, \<dots>, MaxRetries\<close>, sleeping between them, until one succeeds:
  it returns the first success, stamped with the times around that attempt, and when there is none the
  error of the last attempt, or \<open>job failed\<close> if that one returned neither a result nor an error.\<close>

theorem retry_returns_first_success:
  assumes "jc_max_retries cfg = int n"
  shows "case find (\<lambda>k. succeeds (attempt_outcome E m cfg k w)) [0..<Suc n] of
       Some k \<Rightarrow>
         \<exists>r. attempt_outcome E m cfg k w = (Some r, None) \<and>
           (let w1 = snd (run_at E m cfg (world_at E m cfg k w)) in
            executeWithRetry E m cfg w
              = ((Some (stamp_result (e_now E (world_at E m cfg k w)) (e_now E w1) r), None), w1))
     | None \<Rightarrow>
         executeWithRetry E m cfg w
           = ((None, Some (case snd (attempt_outcome E m cfg n w) of None \<Rightarrow> JobFailed | Some e \<Rightarrow> e)),
              world_at E m cfg (Suc n) w)"
proof (cases "find (\<lambda>k. succeeds (attempt_outcome E m cfg k w)) [0..<Suc n]")
  case None
  then have "\<forall>i\<le>n. \<not> succeeds (attempt_outcome E m cfg i w)" by (auto simp: find_None_iff less_Suc_eq_le simp del: upt_Suc)
  with assms None show ?thesis by (simp add: executeWithRetry_failure del: upt_Suc)
next
  case (Some k)
  then obtain i where i: "i < Suc n" "succeeds (attempt_outcome E m cfg i w)" "k = i"
    "\<forall>j<i. \<not> succeeds (attempt_outcome E m cfg j w)"
    by (auto simp: find_Some_iff simp del: upt_Suc)
  obtain out w1 where r: "run_at E m cfg (world_at E m cfg k w) = (out, w1)" by (metis prod.collapse)
  with i have "succeeds out" by (simp add: attempt_outcome_def)
  then obtain res where out: "out = (Some res, None)" by (cases out rule: succeeds.cases) auto
  have "executeWithRetry E m cfg w
      = ((Some (stamp_result (e_now E (world_at E m cfg k w)) (e_now E w1) res), None), w1)"
    using assms i r out by (intro executeWithRetry_success) auto
  with Some r out show ?thesis by (simp add: attempt_outcome_def del: upt_Suc)
qed

definition sample_plugin :: "int plugin" where
  "sample_plugin =
     \<lparr>pl_name = ''p'', pl_run = (\<lambda>deadline w. (if w < 5 then Returned None (Some ''down'') else Returned (Some sample_result) None, w + 1))\<rparr>"

definition sample_env :: "int env" where
  "sample_env = \<lparr>e_now = id, e_sleep = (\<lambda>d w. w + d)\<rparr>"

definition sample_job_config :: job_config where
  "sample_job_config =
     \<lparr>jc_name = ''j'', jc_plugin = ''p'', jc_schedule = ''1s'', jc_timeout = minute, jc_max_retries = int 3,
      jc_backoff = 2, jc_retry_max = 100, jc_overlap = False, jc_run_on_start = True\<rparr>"

theorem retry_returns_first_success_witness:
  "case find (\<lambda>k. succeeds (attempt_outcome sample_env [(''p'', sample_plugin)] sample_job_config k 0)) [0..<Suc 3] of
       Some k \<Rightarrow>
         \<exists>r. attempt_outcome sample_env [(''p'', sample_plugin)] sample_job_config k 0 = (Some r, None) \<and>
           (let w1 = snd (run_at sample_env [(''p'', sample_plugin)] sample_job_config
                  (world_at sample_env [(''p'', sample_plugin)] sample_job_config k 0)) in
            executeWithRetry sample_env [(''p'', sample_plugin)] sample_job_config 0
              = ((Some (stamp_result (e_now sample_env (world_at sample_env [(''p'', sample_plugin)] sample_job_config k 0))
                    (e_now sample_env w1) r), None), w1))
     | None \<Rightarrow>
         executeWithRetry sample_env [(''p'', sample_plugin)] sample_job_config 0
           = ((None, Some (case snd (attempt_outcome sample_env [(''p'', sample_plugin)] sample_job_config 3 0) of
                 None \<Rightarrow> JobFailed | Some e \<Rightarrow> e)),
              world_at sample_env [(''p'', sample_plugin)] sample_job_config (Suc 3) 0)"
  by (rule retry_returns_first_success) (simp add: sample_job_config_def)

text \<open>As long as the doubled backoff fits an \<open>int64\<close>, the sleep before the next attempt is the backoff
  doubled for each attempt so far, at most the configured maximum, and positive.\<close>

theorem backoff_doubles:
  assumes "0 < jc_backoff cfg" "0 < jc_retry_max cfg" "jc_backoff cfg * 2 ^ a \<le> max_int64"
  shows "retry_backoff cfg a = min (jc_backoff cfg * 2 ^ a) (jc_retry_max cfg) \<and> 0 < retry_backoff cfg a"
  using assms by (simp add: retry_backoff_exact)

theorem backoff_doubles_witness:
  "retry_backoff sample_job_config 5 = min (jc_backoff sample_job_config * 2 ^ 5) (jc_retry_max sample_job_config)
   \<and> 0 < retry_backoff sample_job_config 5"
  by (rule backoff_doubles) (simp_all add: sample_job_config_def max_int64_def)



text \<open>A job that \<open>AddJob\<close> accepts is due in the future, whatever state it was loaded with; an interval
  job whose last run is not in the future is due within one interval, and not before an interval has
  passed since that run.\<close>

theorem new_job_due:
  assumes "new_job cron store C d now names cfg = Inr j"
    and "\<And>expr sched t. cron expr = Some sched \<Longrightarrow> t < sched t"
  shows "now < jb_next j \<and>
    (case jb_spec j of
       CronSpec next raw \<Rightarrow> True
     | IntervalSpec i raw \<Rightarrow>
         now < js_last_run (jb_state j) \<or>
         jb_next j \<le> now + i \<and>
         (is_zero_time (js_last_run (jb_state j)) \<or> js_last_run (jb_state j) + i \<le> jb_next j))"
proof -
  from assms(1) obtain j0 where j: "j = j0\<lparr>jb_next := computeNextRun j0 now\<rparr>"
    by (auto simp: new_job_def Let_def split: if_splits sum.splits)
  with new_job_simps(5) [OF assms(1)] have spec: "parseSchedule cron (jc_schedule cfg) = Inr (jb_spec j0)"
    by simp
  have ok: "spec_ok (jb_spec j0)"
    using spec assms(2) parseSchedule_interval_pos
    by (cases "jb_spec j0")
       (auto simp: spec_ok_def parseSchedule_def Let_def split: if_splits option.splits)
  have "now < jb_next j" using computeNextRun_future [OF ok] by (simp add: j)
  moreover have "jb_next j \<le> now + i \<and> (is_zero_time (js_last_run (jb_state j)) \<or> js_last_run (jb_state j) + i \<le> jb_next j)"
    if "jb_spec j = IntervalSpec i raw" "js_last_run (jb_state j) \<le> now" for i raw
    using computeNextRun_interval [of j0 i raw now] that ok by (auto simp: j spec_ok_def)
  ultimately show ?thesis by (cases "jb_spec j") (auto simp: not_less)
qed

lemma sample_schedule: "parseSchedule cron ''1s'' = Inr (IntervalSpec second ''1s'')"
proof -
  have "show_nat 1 = ''1''" by code_simp
  then have "parse_duration ''1s'' = Some second"
    using parse_duration_unit [of "''s''" 1000000000 1]
    by (simp add: unit_map_def is_dot_or_digit_def is_digit_def max_int64_def second_def)
  then show ?thesis
    by (simp add: parseSchedule_def trim_space_def trim_left_def is_space_def every_prefix_def has_prefix_def second_def)
qed

definition no_codec :: "('v, 'b) codec" where
  "no_codec = \<lparr>co_encode = (\<lambda>v. None), co_decode = (\<lambda>b. None)\<rparr>"

definition sample_job :: job where
  "sample_job =
     \<lparr>jb_cfg = normalize_config sample_job_config, jb_spec = IntervalSpec second ''1s'', jb_closed = False,
      jb_running = False, jb_started = False, jb_state = empty_state, jb_next = second\<rparr>"

lemma sample_new_job:
  "''j'' \<notin> names \<Longrightarrow> new_job cron None C d 0 names sample_job_config = Inr sample_job"
proof -
  have c: "jc_name sample_job_config = ''j''" "jc_plugin sample_job_config = ''p''"
    "jc_schedule sample_job_config = ''1s''" "jc_name (normalize_config sample_job_config) = ''j''"
    by (simp_all add: sample_job_config_def normalize_config_def)
  assume "''j'' \<notin> names"
  then show ?thesis
    by (simp add: new_job_def c sample_schedule loadState_def computeNextRun_def Let_def sample_job_def
        empty_state_def is_zero_time_def time_add_def)
qed

theorem new_job_due_witness:
  "(0 :: int) < jb_next sample_job \<and>
    (case jb_spec sample_job of
       CronSpec next raw \<Rightarrow> True
     | IntervalSpec i raw \<Rightarrow>
         0 < js_last_run (jb_state sample_job) \<or>
         jb_next sample_job \<le> 0 + i \<and>
         (is_zero_time (js_last_run (jb_state sample_job))
          \<or> js_last_run (jb_state sample_job) + i \<le> jb_next sample_job))"
  by (rule new_job_due [OF sample_new_job [where names = "{}" and cron = "\<lambda>e. None" and d = "()"
        and C = "no_codec :: (job_state, bool) codec"]]) simp_all

text \<open>The state a job is left with survives a restart: when the database accepts the write and the
  encoder the state, a job of the same name that is added later starts from exactly that state.\<close>

theorem job_state_survives_restart:
  assumes "badger_db D" "jc_name (jb_cfg j) \<noteq> []" "jc_name (jb_cfg j2) = jc_name (jb_cfg j)"
    and "\<And>s. \<exists>raw. co_encode C s = Some raw \<and> co_decode C raw = Some s"
    and "\<And>k v d. \<exists>d'. bg_set D k v d = Inr d'"
  shows "loadState (Some (badger_store D)) C (snd (updateState (Some (badger_store D)) C now st err (j, d))) j2
       = j2\<lparr>jb_state := update_state now st err (jb_state j)\<rparr>"
proof -
  let ?s = "update_state now st err (jb_state j)"
  obtain raw where raw: "co_encode C ?s = Some raw" "co_decode C raw = Some ?s" using assms(4) by blast
  obtain d' where set: "bg_set D (makeKey state_bucket (jc_name (jb_cfg j))) raw d = Inr d'" using assms(5) by blast
  have put: "badger_put D state_bucket (jc_name (jb_cfg j)) raw d = Inr d'"
    using assms(2) set by (simp add: badger_put_def state_bucket_def)
  have "snd (updateState (Some (badger_store D)) C now st err (j, d)) = d'"
    using raw put by (simp add: updateState_def saveState_def badger_store_def)
  with badger_db.store_put_get [OF assms(1) put] raw assms(3) show ?thesis
    by (simp add: loadState_def badger_store_def)
qed

definition identity_codec :: "('v, 'v) codec" where
  "identity_codec = \<lparr>co_encode = Some, co_decode = Some\<rparr>"

theorem job_state_survives_restart_witness:
  "loadState (Some (badger_store mem_badger)) identity_codec
     (snd (updateState (Some (badger_store mem_badger)) identity_codec 7 StatusFailed (Some JobFailed) (sample_job, [])))
     sample_job
   = sample_job\<lparr>jb_state := update_state 7 StatusFailed (Some JobFailed) (jb_state sample_job)\<rparr>"
  by (rule job_state_survives_restart [OF mem.badger_db_axioms])
     (simp_all add: sample_job_def normalize_config_def sample_job_config_def identity_codec_def mem_badger_def mem_set_def)

end
