(* ===== verification/SchedulerRun.thy ===== *)
theory SchedulerRun
  imports Scheduler
begin

text \<open>
  The running scheduler, \<open>Scheduler\<close> and \<open>runJob\<close> of \<open>internal/scheduler/scheduler.go\<close>, as a
  transition system: the jobs on the heap, the map of the current ones, the persisted states, the
  goroutines with the place each is at, and the results handed to the callback. Operations that hold
  the mutex are single steps; an execution is two, the overlap guard and what follows the plugin's
  run, whose outcome is any. \<open>ReplaceJobs\<close> is one step: the daemon calls it from one goroutine. The
  store is shared, so its contents may change between any two steps.
\<close>

section \<open>State\<close>

datatype phase = AtTop | RunningAtStart | Waiting int | RunningOnTimer | Exited

fun executing :: "phase \<Rightarrow> bool" where
  "executing RunningAtStart = True"
| "executing RunningOnTimer = True"
| "executing _ = False"

record 'd sched =
  sc_now :: int
  sc_heap :: "job list"
  sc_jobs :: "nat gomap"
  sc_db :: 'd
  sc_gos :: "(nat \<times> phase) list"
  sc_cancelled :: bool
  sc_out :: "scan_result list"

definition sched_init :: "int \<Rightarrow> 'd \<Rightarrow> 'd sched" where
  "sched_init now d =
     \<lparr>sc_now = now, sc_heap = [], sc_jobs = [], sc_db = d, sc_gos = [], sc_cancelled = False, sc_out = []\<rparr>"

section \<open>Operations\<close>

definition ListJobs :: "nat range_order \<Rightarrow> 'd sched \<Rightarrow> job_config list" where
  "ListJobs order s = map (\<lambda>(n, i). jb_cfg (sc_heap s ! i)) (order (sc_jobs s))"

definition JobState :: "'d sched \<Rightarrow> string \<Rightarrow> job_state option" where
  "JobState s name = map_option (\<lambda>i. jb_state (sc_heap s ! i)) (map_of (sc_jobs s) name)"

definition NextRun :: "'d sched \<Rightarrow> string \<Rightarrow> int option" where
  "NextRun s name = map_option (\<lambda>i. jb_next (sc_heap s ! i)) (map_of (sc_jobs s) name)"

definition AddJob ::
  "cron_parser \<Rightarrow> ('d, 'b) store_ops option \<Rightarrow> (job_state, 'b) codec \<Rightarrow> job_config \<Rightarrow> 'd sched
     \<Rightarrow> (sched_error, 'd sched) result" where
  "AddJob cron store C cfg s =
     (case new_job cron store C (sc_db s) (sc_now s) (fst ` set (sc_jobs s)) cfg of
        Inl e \<Rightarrow> Inl e
      | Inr j \<Rightarrow>
          Inr (s\<lparr>sc_heap := sc_heap s @ [j],
                 sc_jobs := obj_set (sc_jobs s) (jc_name (jb_cfg j)) (length (sc_heap s))\<rparr>))"

definition start_one :: "nat \<Rightarrow> 'd sched \<Rightarrow> 'd sched" where
  "start_one i s =
     (if jb_started (sc_heap s ! i) then s
      else s\<lparr>sc_heap := (sc_heap s)[i := (sc_heap s ! i)\<lparr>jb_started := True\<rparr>],
             sc_gos := sc_gos s @ [(i, AtTop)]\<rparr>)"

definition Start :: "nat range_order \<Rightarrow> 'd sched \<Rightarrow> 'd sched" where
  "Start order s = foldl (\<lambda>s (n, i). start_one i s) s (order (sc_jobs s))"

text \<open>\<open>None\<close> is the panic of closing a closed channel.\<close>

definition stop_one :: "nat \<Rightarrow> 'd sched \<Rightarrow> 'd sched option" where
  "stop_one i s =
     (let j = sc_heap s ! i in
      if \<not> jb_started j then Some s
      else if jb_closed j then None
      else Some (s\<lparr>sc_heap := (sc_heap s)[i := j\<lparr>jb_closed := True, jb_started := False\<rparr>]\<rparr>))"

fun stop_all :: "nat gomap \<Rightarrow> 'd sched \<Rightarrow> 'd sched option" where
  "stop_all [] s = Some s"
| "stop_all ((n, i) # rest) s = (case stop_one i s of None \<Rightarrow> None | Some s' \<Rightarrow> stop_all rest s')"

definition Stop :: "nat range_order \<Rightarrow> 'd sched \<Rightarrow> 'd sched option" where
  "Stop order s = stop_all (order (sc_jobs s)) s"

text \<open>The loop of \<open>ReplaceJobs\<close> over the new configurations, which the first error ends.\<close>

fun add_all ::
  "cron_parser \<Rightarrow> ('d, 'b) store_ops option \<Rightarrow> (job_state, 'b) codec \<Rightarrow> job_config list \<Rightarrow> 'd sched
     \<Rightarrow> sched_error option \<times> 'd sched" where
  "add_all cron store C [] s = (None, s)"
| "add_all cron store C (cfg # cfgs) s =
     (case AddJob cron store C cfg s of
        Inl e \<Rightarrow> (Some e, s)
      | Inr s' \<Rightarrow> add_all cron store C cfgs s')"

definition ReplaceJobs ::
  "cron_parser \<Rightarrow> ('d, 'b) store_ops option \<Rightarrow> (job_state, 'b) codec \<Rightarrow> nat range_order \<Rightarrow> job_config list
     \<Rightarrow> 'd sched \<Rightarrow> (sched_error option \<times> 'd sched) option" where
  "ReplaceJobs cron store C order cfgs s =
     (case Stop order s of
        None \<Rightarrow> None
      | Some s1 \<Rightarrow>
          (case add_all cron store C cfgs (s1\<lparr>sc_jobs := []\<rparr>) of
             (Some e, s2) \<Rightarrow> Some (Some e, s2)
           | (None, s2) \<Rightarrow> Some (None, Start order s2)))"

section \<open>One goroutine\<close>

text \<open>From the top of the loop to the \<open>select\<close>.\<close>

definition enter_wait :: "job \<Rightarrow> int \<Rightarrow> job \<times> phase" where
  "enter_wait j now =
     (if is_zero_time (jb_next j)
      then (let next = computeNextRun j now in (j\<lparr>jb_next := next\<rparr>, Waiting next))
      else (j, Waiting (jb_next j)))"

definition runs_at_start :: "job \<Rightarrow> bool" where
  "runs_at_start j \<longleftrightarrow> jc_run_on_start (jb_cfg j) \<and> is_zero_time (js_last_run (jb_state j))"

inductive go ::
  "('d, 'b) store_ops option \<Rightarrow> (job_state, 'b) codec \<Rightarrow> bool \<Rightarrow> int
     \<Rightarrow> job \<times> 'd \<times> phase \<Rightarrow> job \<times> 'd \<times> phase \<times> scan_result list \<Rightarrow> bool"
  for store C cancelled now where
  GoStart: "runs_at_start j \<Longrightarrow> begin_job j = Some j'
     \<Longrightarrow> go store C cancelled now (j, d, AtTop) (j', d, RunningAtStart, [])"
| GoSkip: "runs_at_start j \<Longrightarrow> begin_job j = None \<Longrightarrow> enter_wait j now = (j', ph')
     \<Longrightarrow> go store C cancelled now (j, d, AtTop) (j', d, ph', [])"
| GoWait: "\<not> runs_at_start j \<Longrightarrow> enter_wait j now = (j', ph')
     \<Longrightarrow> go store C cancelled now (j, d, AtTop) (j', d, ph', [])"
| GoStarted: "end_job store C now outcome (j, d) = ((j1, d'), out) \<Longrightarrow> enter_wait j1 now = (j', ph')
     \<Longrightarrow> go store C cancelled now (j, d, RunningAtStart) (j', d', ph', case out of Some r \<Rightarrow> [r] | None \<Rightarrow> [])"
| GoCancelled: "cancelled \<Longrightarrow> go store C cancelled now (j, d, Waiting t) (j, d, Exited, [])"
| GoStopped: "jb_closed j \<Longrightarrow> go store C cancelled now (j, d, Waiting t) (j, d, Exited, [])"
| GoFire: "t \<le> now \<Longrightarrow> begin_job j = Some j'
     \<Longrightarrow> go store C cancelled now (j, d, Waiting t) (j', d, RunningOnTimer, [])"
| GoFireSkip: "t \<le> now \<Longrightarrow> begin_job j = None \<Longrightarrow> j' = j\<lparr>jb_next := computeNextRun j now\<rparr>
     \<Longrightarrow> go store C cancelled now (j, d, Waiting t) (j', d, AtTop, [])"
| GoFired: "end_job store C now outcome (j, d) = ((j1, d'), out) \<Longrightarrow> j' = j1\<lparr>jb_next := computeNextRun j1 now\<rparr>
     \<Longrightarrow> go store C cancelled now (j, d, RunningOnTimer) (j', d', AtTop, case out of Some r \<Rightarrow> [r] | None \<Rightarrow> [])"

inductive_cases go_cases: "go store C cancelled now (j, d, ph) (j', d', ph', out)"
inductive_simps go_waiting: "go store C cancelled now (j, d, Waiting t) (j', d', ph', out)"
inductive_simps go_on_timer: "go store C cancelled now (j, d, RunningOnTimer) (j', d', ph', out)"
inductive_simps go_exited: "go store C cancelled now (j, d, Exited) (j', d', ph', out)"

section \<open>The system\<close>

inductive sched_step ::
  "cron_parser \<Rightarrow> ('d, 'b) store_ops option \<Rightarrow> (job_state, 'b) codec \<Rightarrow> 'd sched \<Rightarrow> 'd sched \<Rightarrow> bool"
  for cron store C where
  StepAdd: "AddJob cron store C cfg s = Inr t \<Longrightarrow> sched_step cron store C s t"
| StepStart: "mset (order (sc_jobs s)) = mset (sc_jobs s) \<Longrightarrow> sched_step cron store C s (Start order s)"
| StepStop: "mset (order (sc_jobs s)) = mset (sc_jobs s) \<Longrightarrow> Stop order s = Some t \<Longrightarrow> sched_step cron store C s t"
| StepReplace: "(\<And>m. mset (order m) = mset m) \<Longrightarrow> ReplaceJobs cron store C order cfgs s = Some (e, t)
     \<Longrightarrow> sched_step cron store C s t"
| StepTick: "sc_now s \<le> now \<Longrightarrow> sched_step cron store C s (s\<lparr>sc_now := now\<rparr>)"
| StepCancel: "sched_step cron store C s (s\<lparr>sc_cancelled := True\<rparr>)"
| StepManual: "sched_step cron store C s (s\<lparr>sc_out := sc_out s @ [r]\<rparr>)"
| StepStore: "sched_step cron store C s (s\<lparr>sc_db := d\<rparr>)"
| StepGo: "g < length (sc_gos s) \<Longrightarrow> sc_gos s ! g = (i, ph)
     \<Longrightarrow> go store C (sc_cancelled s) (sc_now s) (sc_heap s ! i, sc_db s, ph) (j', d', ph', out)
     \<Longrightarrow> t = s\<lparr>sc_heap := (sc_heap s)[i := j'], sc_db := d', sc_gos := (sc_gos s)[g := (i, ph')],
               sc_out := sc_out s @ out\<rparr>
     \<Longrightarrow> sched_step cron store C s t"

inductive sched_reachable ::
  "cron_parser \<Rightarrow> ('d, 'b) store_ops option \<Rightarrow> (job_state, 'b) codec \<Rightarrow> 'd sched \<Rightarrow> bool"
  for cron store C where
  ReachInit: "sched_reachable cron store C (sched_init now d)"
| ReachStep: "sched_reachable cron store C s \<Longrightarrow> sched_step cron store C s t \<Longrightarrow> sched_reachable cron store C t"

section \<open>Counting executions\<close>

definition exec_count :: "(nat \<times> phase) list \<Rightarrow> nat \<Rightarrow> nat" where
  "exec_count gs i = length (filter (\<lambda>(k, ph). k = i \<and> executing ph) gs)"

lemma exec_count_append [simp]:
  "exec_count (gs @ [(k, AtTop)]) i = exec_count gs i"
  by (simp add: exec_count_def)

lemma exec_count_update:
  assumes "g < length gs" "gs ! g = (k, ph)"
  shows "exec_count (gs[g := (k, ph')]) i + (if k = i \<and> executing ph then 1 else 0)
       = exec_count gs i + (if k = i \<and> executing ph' then 1 else 0)"
proof -
  from assms(1) obtain xs y ys where gs: "gs = xs @ y # ys" "length xs = g"
    by (metis id_take_nth_drop length_take min.absorb2 less_imp_le)
  with assms(2) have "gs = xs @ (k, ph) # ys" by (simp add: nth_append)
  with gs(2) show ?thesis by (auto simp: exec_count_def list_update_append)
qed

section \<open>The invariant\<close>

definition sched_inv :: "'d sched \<Rightarrow> bool" where
  "sched_inv s \<longleftrightarrow>
     list_all (\<lambda>(i, ph). i < length (sc_heap s)) (sc_gos s)
     \<and> (\<forall>i < length (sc_heap s). \<not> jc_overlap (jb_cfg (sc_heap s ! i)) \<longrightarrow>
          exec_count (sc_gos s) i = (if jb_running (sc_heap s ! i) then 1 else 0))
     \<and> keys_distinct (sc_jobs s)
     \<and> (\<forall>n i. map_of (sc_jobs s) n = Some i \<longrightarrow>
          i < length (sc_heap s) \<and> jc_name (jb_cfg (sc_heap s ! i)) = n)"

lemma sched_invI:
  assumes "list_all (\<lambda>(i, ph). i < length (sc_heap s)) (sc_gos s)"
    and "\<And>i. i < length (sc_heap s) \<Longrightarrow> \<not> jc_overlap (jb_cfg (sc_heap s ! i)) \<Longrightarrow>
          exec_count (sc_gos s) i = (if jb_running (sc_heap s ! i) then 1 else 0)"
    and "keys_distinct (sc_jobs s)"
    and "\<And>n i. map_of (sc_jobs s) n = Some i \<Longrightarrow>
          i < length (sc_heap s) \<and> jc_name (jb_cfg (sc_heap s ! i)) = n"
  shows "sched_inv s"
  using assms by (auto simp: sched_inv_def)

text \<open>
  What a goroutine's step does to its job: the configuration stays, and the running flag of a job
  that may not overlap follows the goroutine into and out of the execution.
\<close>

lemma begin_job_Some:
  "begin_job j = Some j' \<Longrightarrow> jb_cfg j' = jb_cfg j \<and>
     (\<not> jc_overlap (jb_cfg j) \<longrightarrow> \<not> jb_running j \<and> jb_running j')"
  by (auto simp: begin_job_def split: if_splits)

lemma enter_wait_simps:
  "enter_wait j now = (j', ph) \<Longrightarrow> jb_cfg j' = jb_cfg j \<and> jb_running j' = jb_running j
     \<and> jb_state j' = jb_state j \<and> jb_spec j' = jb_spec j \<and> ph = Waiting (jb_next j') \<and> \<not> executing ph"
  by (auto simp: enter_wait_def Let_def split: if_splits)

lemma end_job_running:
  "end_job store C now outcome (j, d) = ((j1, d'), out) \<Longrightarrow>
     jb_cfg j1 = jb_cfg j \<and> jb_spec j1 = jb_spec j \<and> js_last_run (jb_state j1) = now \<and>
     (\<not> jc_overlap (jb_cfg j) \<longrightarrow> \<not> jb_running j1)"
  using end_job_simps [of store C now outcome "(j, d)"] by simp

definition running_follows :: "job \<Rightarrow> phase \<Rightarrow> job \<Rightarrow> phase \<Rightarrow> bool" where
  "running_follows j ph j' ph' \<longleftrightarrow>
     jb_cfg j' = jb_cfg j \<and>
     (\<not> jc_overlap (jb_cfg j) \<longrightarrow>
       (if executing ph' then \<not> executing ph \<and> \<not> jb_running j \<and> jb_running j'
        else if executing ph then \<not> jb_running j' else jb_running j' = jb_running j))"

lemma go_running_follows:
  "go store C cancelled now (j, d, ph) (j', d', ph', out) \<Longrightarrow> running_follows j ph j' ph'"
proof (induction "(j, d, ph)" "(j', d', ph', out)" arbitrary: j d ph j' d' ph' out rule: go.induct)
  case (GoStart j j' d)
  then show ?case by (simp add: running_follows_def begin_job_Some)
next
  case (GoSkip j j' ph' d)
  then show ?case by (simp add: running_follows_def enter_wait_simps)
next
  case (GoWait j j' ph' d)
  then show ?case by (simp add: running_follows_def enter_wait_simps)
next
  case (GoStarted outcome j d j1 d' out j' ph')
  then show ?case using end_job_running [OF GoStarted(1)] enter_wait_simps [OF GoStarted(2)]
    by (simp add: running_follows_def)
next
  case (GoFire t j j' d)
  then show ?case by (simp add: running_follows_def begin_job_Some)
next
  case (GoFired outcome j d j1 d' out j')
  then show ?case using end_job_running [OF GoFired(1)] by (simp add: running_follows_def)
qed (simp_all add: running_follows_def)

lemma go_job:
  assumes "go store C cancelled now (j, d, ph) (j', d', ph', out)"
  shows "jb_cfg j' = jb_cfg j"
    and "\<not> jc_overlap (jb_cfg j) \<Longrightarrow>
      (if executing ph' then \<not> executing ph \<and> \<not> jb_running j \<and> jb_running j'
       else if executing ph then \<not> jb_running j' else jb_running j' = jb_running j)"
  using go_running_follows [OF assms] unfolding running_follows_def by blast+

lemma sched_inv_init [inv_intros]: "sched_inv (sched_init now d)"
  by (rule sched_invI) (simp_all add: sched_init_def)

lemma sched_inv_go:
  assumes inv: "sched_inv s" and g: "g < length (sc_gos s)" "sc_gos s ! g = (i, ph)"
    and go: "go store C (sc_cancelled s) (sc_now s) (sc_heap s ! i, sc_db s, ph) (j', d', ph', out)"
    and t: "t = s\<lparr>sc_heap := (sc_heap s)[i := j'], sc_db := d', sc_gos := (sc_gos s)[g := (i, ph')],
               sc_out := sc_out s @ out\<rparr>"
  shows "sched_inv t"
proof (rule sched_invI)
  have "(i, ph) \<in> set (sc_gos s)" using g by (metis nth_mem)
  with inv have i: "i < length (sc_heap s)" by (auto simp: sched_inv_def list_all_iff)
  have sub: "set ((sc_gos s)[g := (i, ph')]) \<subseteq> insert (i, ph') (set (sc_gos s))" by (rule set_update_subset_insert)
  show "list_all (\<lambda>(i, ph). i < length (sc_heap t)) (sc_gos t)"
    using inv i sub unfolding list_all_iff by (auto simp: sched_inv_def list_all_iff t)
  show "exec_count (sc_gos t) k = (if jb_running (sc_heap t ! k) then 1 else 0)"
    if "k < length (sc_heap t)" "\<not> jc_overlap (jb_cfg (sc_heap t ! k))" for k
  proof (cases "k = i")
    case True
    with i that go_job(1) [OF go] have ov: "\<not> jc_overlap (jb_cfg (sc_heap s ! i))" by (simp add: t)
    with inv i have "exec_count (sc_gos s) i = (if jb_running (sc_heap s ! i) then 1 else 0)"
      by (simp add: sched_inv_def)
    with exec_count_update [OF g, of ph' i] go_job(2) [OF go ov] i True show ?thesis
      by (auto simp: t split: if_splits)
  next
    case False
    with that inv exec_count_update [OF g, of ph' k] show ?thesis by (simp add: t sched_inv_def)
  qed
  show "keys_distinct (sc_jobs t)" using inv by (simp add: t sched_inv_def)
  show "k < length (sc_heap t) \<and> jc_name (jb_cfg (sc_heap t ! k)) = n"
    if "map_of (sc_jobs t) n = Some k" for n k
    using that inv i go_job(1) [OF go] by (cases "k = i") (auto simp: t sched_inv_def)
qed

lemma exec_count_new:
  assumes "list_all (\<lambda>(i, ph). i < n) gs" "n \<le> k"
  shows "exec_count gs k = 0"
  using assms by (induction gs) (auto simp: exec_count_def)

lemma sched_inv_add [inv_intros]:
  assumes inv: "sched_inv s" and add: "AddJob cron store C cfg s = Inr t"
  shows "sched_inv t"
proof (rule sched_invI)
  from add obtain j where j: "new_job cron store C (sc_db s) (sc_now s) (fst ` set (sc_jobs s)) cfg = Inr j"
    and t: "t = s\<lparr>sc_heap := sc_heap s @ [j],
                 sc_jobs := obj_set (sc_jobs s) (jc_name (jb_cfg j)) (length (sc_heap s))\<rparr>"
    by (auto simp: AddJob_def split: sum.splits)
  have gs: "list_all (\<lambda>(i, ph). i < length (sc_heap s)) (sc_gos s)" using inv by (simp add: sched_inv_def)
  then show "list_all (\<lambda>(i, ph). i < length (sc_heap t)) (sc_gos t)"
    by (auto simp: t list_all_iff)
  show "exec_count (sc_gos t) k = (if jb_running (sc_heap t ! k) then 1 else 0)"
    if "k < length (sc_heap t)" "\<not> jc_overlap (jb_cfg (sc_heap t ! k))" for k
  proof (cases "k = length (sc_heap s)")
    case True
    then show ?thesis using exec_count_new [OF gs] new_job_simps(3) [OF j] by (simp add: t nth_append)
  next
    case False
    with that inv show ?thesis by (simp add: t sched_inv_def nth_append)
  qed
  show "keys_distinct (sc_jobs t)" using inv by (simp add: t sched_inv_def distinct_obj_set)
  show "k < length (sc_heap t) \<and> jc_name (jb_cfg (sc_heap t ! k)) = n"
    if "map_of (sc_jobs t) n = Some k" for n k
    using that inv by (auto simp: t sched_inv_def nth_append split: if_splits)
qed

lemma sched_inv_start_one:
  assumes inv: "sched_inv s" and i: "i < length (sc_heap s)"
  shows "sched_inv (start_one i s) \<and> length (sc_heap (start_one i s)) = length (sc_heap s)
       \<and> sc_jobs (start_one i s) = sc_jobs s"
proof (cases "jb_started (sc_heap s ! i)")
  case False
  define t where "t = start_one i s"
  from False have t': "t = s\<lparr>sc_heap := (sc_heap s)[i := (sc_heap s ! i)\<lparr>jb_started := True\<rparr>],
      sc_gos := sc_gos s @ [(i, AtTop)]\<rparr>" by (simp add: t_def start_one_def)
  have "sched_inv t"
  proof (rule sched_invI)
    show "list_all (\<lambda>(i, ph). i < length (sc_heap t)) (sc_gos t)"
      using inv i by (simp add: t' sched_inv_def)
    show "exec_count (sc_gos t) k = (if jb_running (sc_heap t ! k) then 1 else 0)"
      if "k < length (sc_heap t)" "\<not> jc_overlap (jb_cfg (sc_heap t ! k))" for k
      using that inv i by (cases "k = i") (auto simp: t' sched_inv_def)
    show "keys_distinct (sc_jobs t)" using inv by (simp add: t' sched_inv_def)
    show "k < length (sc_heap t) \<and> jc_name (jb_cfg (sc_heap t ! k)) = n"
      if "map_of (sc_jobs t) n = Some k" for n k
      using that inv i by (cases "k = i") (auto simp: t' sched_inv_def)
  qed
  moreover have "length (sc_heap t) = length (sc_heap s)" "sc_jobs t = sc_jobs s" by (simp_all add: t')
  ultimately show ?thesis by (simp add: t_def)
qed (use inv in \<open>simp add: start_one_def\<close>)

lemma sched_inv_start [inv_intros]:
  assumes "sched_inv s" "mset (order (sc_jobs s)) = mset (sc_jobs s)"
  shows "sched_inv (Start order s)"
proof -
  have "sched_inv (foldl (\<lambda>s (n, i). start_one i s) s xs)"
    if "sched_inv s" "\<forall>(n, i) \<in> set xs. i < length (sc_heap s)" for xs and s :: "'a sched"
    using that
  proof (induction xs arbitrary: s)
    case (Cons x xs)
    obtain n i where x: "x = (n, i)" by (cases x)
    have "sched_inv (start_one i s) \<and> length (sc_heap (start_one i s)) = length (sc_heap s)"
      using Cons.prems sched_inv_start_one x by fastforce
    with Cons x show ?case by auto
  qed simp
  moreover have "set (order (sc_jobs s)) = set (sc_jobs s)" using assms(2) by (metis set_mset_mset)
  moreover have "i < length (sc_heap s)" if "(n, i) \<in> set (sc_jobs s)" for n i
    using that assms(1) by (simp add: sched_inv_def)
  ultimately show ?thesis using assms(1) unfolding Start_def by blast
qed

lemma sched_inv_stop_one:
  assumes inv: "sched_inv s" and i: "i < length (sc_heap s)" and t: "stop_one i s = Some t"
  shows "sched_inv t \<and> length (sc_heap t) = length (sc_heap s)"
proof (cases "jb_started (sc_heap s ! i)")
  case True
  with t have t': "t = s\<lparr>sc_heap := (sc_heap s)[i := (sc_heap s ! i)\<lparr>jb_closed := True, jb_started := False\<rparr>]\<rparr>"
    by (auto simp: stop_one_def Let_def split: if_splits)
  have "sched_inv t"
  proof (rule sched_invI)
    show "list_all (\<lambda>(i, ph). i < length (sc_heap t)) (sc_gos t)" using inv by (simp add: t' sched_inv_def)
    show "exec_count (sc_gos t) k = (if jb_running (sc_heap t ! k) then 1 else 0)"
      if "k < length (sc_heap t)" "\<not> jc_overlap (jb_cfg (sc_heap t ! k))" for k
      using that inv i by (cases "k = i") (auto simp: t' sched_inv_def)
    show "keys_distinct (sc_jobs t)" using inv by (simp add: t' sched_inv_def)
    show "k < length (sc_heap t) \<and> jc_name (jb_cfg (sc_heap t ! k)) = n"
      if "map_of (sc_jobs t) n = Some k" for n k
      using that inv i by (cases "k = i") (auto simp: t' sched_inv_def)
  qed
  then show ?thesis by (simp add: t')
qed (use assms in \<open>simp add: stop_one_def Let_def\<close>)

lemma sched_inv_stop [inv_intros]:
  assumes "sched_inv s" "mset (order (sc_jobs s)) = mset (sc_jobs s)" "Stop order s = Some t"
  shows "sched_inv t"
proof -
  have "sched_inv t" if "stop_all xs s = Some t" "sched_inv s" "\<forall>(n, i) \<in> set xs. i < length (sc_heap s)"
    for xs and s :: "'a sched"
    using that
  proof (induction xs s rule: stop_all.induct)
    case (2 n i rest s)
    then obtain s' where s': "stop_one i s = Some s'" "stop_all rest s' = Some t"
      by (auto split: option.splits)
    with 2 sched_inv_stop_one [OF _ _ s'(1)] show ?case by auto
  qed simp
  moreover have "set (order (sc_jobs s)) = set (sc_jobs s)" using assms(2) by (metis set_mset_mset)
  moreover have "i < length (sc_heap s)" if "(n, i) \<in> set (sc_jobs s)" for n i
    using that assms(1) by (simp add: sched_inv_def)
  ultimately show ?thesis using assms(1,3) unfolding Stop_def by blast
qed

lemma sched_inv_add_all:
  "sched_inv s \<Longrightarrow> add_all cron store C cfgs s = (e, t) \<Longrightarrow> sched_inv t"
  by (induction cron store C cfgs s rule: add_all.induct) (auto split: sum.splits intro: sched_inv_add)

lemma sched_inv_replace [inv_intros]:
  assumes "sched_inv s" "\<And>m. mset (order m) = mset m" "ReplaceJobs cron store C order cfgs s = Some (e, t)"
  shows "sched_inv t"
proof -
  from assms(3) obtain s1 e2 s2 where s1: "Stop order s = Some s1"
    and s2: "add_all cron store C cfgs (s1\<lparr>sc_jobs := []\<rparr>) = (e2, s2)"
    and t: "t = (case e2 of Some _ \<Rightarrow> s2 | None \<Rightarrow> Start order s2)"
    by (auto simp: ReplaceJobs_def split: option.splits prod.splits)
  have "sched_inv s1" using assms(1,2) s1 by (rule sched_inv_stop)
  then have "sched_inv (s1\<lparr>sc_jobs := []\<rparr>)" by (auto simp: sched_inv_def)
  then have "sched_inv s2" using s2 by (rule sched_inv_add_all)
  then show ?thesis using assms(2) by (auto simp: t split: option.splits intro: sched_inv_start)
qed

lemma sched_inv_step [inv_intros]:
  "sched_step cron store C s t \<Longrightarrow> sched_inv s \<Longrightarrow> sched_inv t"
proof (induction rule: sched_step.induct)
  case (StepGo g s i ph j' d' ph' out t)
  then show ?case by (blast intro: sched_inv_go)
next
  case (StepTick s now)
  then show ?case by (simp add: sched_inv_def)
next
  case (StepCancel s)
  then show ?case by (simp add: sched_inv_def)
next
  case (StepManual s r)
  then show ?case by (simp add: sched_inv_def)
next
  case (StepStore s d)
  then show ?case by (simp add: sched_inv_def)
qed (auto intro: inv_intros)

lemma sched_reachable_inv: "sched_reachable cron store C s \<Longrightarrow> sched_inv s"
  by (induction rule: sched_reachable.induct) (auto intro: inv_intros)

section \<open>Properties\<close>

text \<open>C5 In every state the scheduler can reach, however jobs are added, started, stopped and replaced, at
  most one goroutine executes a job that does not allow overlap, and its flag says whether one does.\<close>

theorem no_overlap:
  assumes "sched_reachable cron store C s" "i < length (sc_heap s)" "\<not> jc_overlap (jb_cfg (sc_heap s ! i))"
  shows "exec_count (sc_gos s) i \<le> 1 \<and> (exec_count (sc_gos s) i = 1 \<longleftrightarrow> jb_running (sc_heap s ! i))"
  using sched_reachable_inv [OF assms(1)] assms(2,3) by (simp add: sched_inv_def)

definition one_job :: "unit sched" where
  "one_job = (sched_init 0 ())\<lparr>sc_heap := [sample_job], sc_jobs := [(''j'', 0)]\<rparr>"

lemma one_job_add: "AddJob cron None C sample_job_config (sched_init 0 ()) = Inr one_job"
  using sample_new_job [of "{}" cron C "()"]
  by (simp add: AddJob_def sched_init_def one_job_def) (simp add: sample_job_def normalize_config_def sample_job_config_def)

lemma one_job_reachable: "sched_reachable cron None C one_job"
  by (rule sched_reachable.ReachStep [OF sched_reachable.ReachInit [of _ _ _ 0] sched_step.StepAdd [OF one_job_add]])

lemma sample_job_simps [simp]:
  "jb_running sample_job = False" "jb_started sample_job = False" "jb_closed sample_job = False"
  "jb_state sample_job = empty_state" "jc_overlap (jb_cfg sample_job) = False"
  "jc_name (jb_cfg sample_job) = ''j''" "jc_run_on_start (jb_cfg sample_job)"
  by (simp_all add: sample_job_def normalize_config_def sample_job_config_def)

theorem no_overlap_witness:
  "exec_count (sc_gos one_job) 0 \<le> 1 \<and> (exec_count (sc_gos one_job) 0 = 1 \<longleftrightarrow> jb_running (sc_heap one_job ! 0))"
  by (rule no_overlap [OF one_job_reachable [where cron = "\<lambda>e. None" and C = "no_codec :: (job_state, bool) codec"]])
     (simp_all add: one_job_def sched_init_def)

text \<open>Replacing the jobs while one is executing starts it a second time: a state can be reached in which
  two goroutines execute two jobs of the same name and plugin, neither of which allows overlap.\<close>

theorem replace_overlaps:
  "\<exists>s :: unit sched. sched_reachable cron None C s \<and>
     (\<exists>i j. i \<noteq> j \<and> exec_count (sc_gos s) i = 1 \<and> exec_count (sc_gos s) j = 1
        \<and> jb_cfg (sc_heap s ! i) = jb_cfg (sc_heap s ! j) \<and> \<not> jc_overlap (jb_cfg (sc_heap s ! i)))"
proof -
  let ?run = "sample_job\<lparr>jb_started := True, jb_running := True\<rparr>"
  define s1 where "s1 = one_job\<lparr>sc_heap := [sample_job\<lparr>jb_started := True\<rparr>], sc_gos := [(0, AtTop)]\<rparr>"
  define s2 where "s2 = s1\<lparr>sc_heap := [?run], sc_gos := [(0, RunningAtStart)]\<rparr>"
  define s3 where "s3 = s2\<lparr>sc_heap := [?run\<lparr>jb_closed := True, jb_started := False\<rparr>, sample_job\<lparr>jb_started := True\<rparr>],
      sc_jobs := [(''j'', 1)], sc_gos := [(0, RunningAtStart), (1, AtTop)]\<rparr>"
  define s4 where "s4 = s3\<lparr>sc_heap := [?run\<lparr>jb_closed := True, jb_started := False\<rparr>, ?run],
      sc_gos := [(0, RunningAtStart), (1, RunningAtStart)]\<rparr>"
  note defs = one_job_def sched_init_def
  have top: "go None C False 0 (sample_job\<lparr>jb_started := True\<rparr>, (), AtTop) (?run, (), RunningAtStart, [])"
    by (rule go.GoStart) (simp_all add: runs_at_start_def empty_state_def is_zero_time_def begin_job_def)
  have "Start id one_job = s1" by (simp add: s1_def defs Start_def start_one_def)
  then have r1: "sched_reachable cron None C s1"
    using sched_step.StepStart [of id one_job] one_job_reachable by (metis id_apply sched_reachable.ReachStep)
  have "sched_step cron None C s1 s2"
    by (rule sched_step.StepGo [where g = 0 and i = 0, OF _ _ _ refl [THEN trans]])
       (use top in \<open>simp_all add: s1_def s2_def defs\<close>)
  with r1 have r2: "sched_reachable cron None C s2" by (rule sched_reachable.ReachStep)
  have "ReplaceJobs cron None C id [sample_job_config] s2 = Some (None, s3)"
    using sample_new_job [of "{}" cron C "()"]
    by (simp add: ReplaceJobs_def Stop_def stop_one_def Let_def AddJob_def Start_def start_one_def s1_def s2_def s3_def defs)
  then have "sched_step cron None C s2 s3" by (intro sched_step.StepReplace [where order = id]) simp_all
  with r2 have r3: "sched_reachable cron None C s3" by (rule sched_reachable.ReachStep)
  have "sched_step cron None C s3 s4"
    by (rule sched_step.StepGo [where g = 1 and i = 1, OF _ _ _ refl [THEN trans]])
       (use top in \<open>simp_all add: s1_def s2_def s3_def s4_def defs\<close>)
  with r3 have "sched_reachable cron None C s4" by (rule sched_reachable.ReachStep)
  moreover have "exec_count (sc_gos s4) 0 = 1" "exec_count (sc_gos s4) 1 = 1"
    "jb_cfg (sc_heap s4 ! 0) = jb_cfg (sc_heap s4 ! 1)" "\<not> jc_overlap (jb_cfg (sc_heap s4 ! 0))"
    by (simp_all add: s4_def exec_count_def)
  ultimately show ?thesis by (intro exI [of _ s4] conjI exI [of _ 0] exI [of _ 1]) simp_all
qed


definition timed_job :: job where
  "timed_job = sample_job\<lparr>jb_started := True, jb_running := True\<rparr>"


end
