(* ===== verification/ResultCache.thy ===== *)
theory ResultCache
  imports Scanner
begin

text \<open>
  The in-memory results the API serves, \<open>internal/state/results.go\<close>: the latest result of every
  scanner and a bounded history. The specification is the log of all results ever added.
\<close>

section \<open>The cache\<close>

record result_cache =
  rc_latest :: "scan_result gomap"
  rc_history :: "scan_result list"
  rc_limit :: int

definition NewResultCache :: "int \<Rightarrow> result_cache" where
  "NewResultCache limit =
     (let limit' = (if limit \<le> 0 then 50 else limit)
      in \<lparr>rc_latest = [], rc_history = [], rc_limit = limit'\<rparr>)"

definition cache_add :: "scan_result \<Rightarrow> result_cache \<Rightarrow> result_cache" where
  "cache_add res c =
     (let latest = obj_set (rc_latest c) (r_scanner res) res;
          history = rc_history c @ [res];
          history' = (if int (length history) > rc_limit c
                      then drop (nat (int (length history) - rc_limit c)) history else history)
      in c\<lparr>rc_latest := latest, rc_history := history'\<rparr>)"

section \<open>Summaries\<close>

record result_summary =
  rs_scanner :: string
  rs_status :: status
  rs_findings :: nat
  rs_started :: int
  rs_finished :: int
  rs_duration :: int
  rs_metadata :: "string gomap"

record finding_summary =
  fd_scanner :: string
  fd_severity :: severity
  fd_category :: string
  fd_description :: string
  fd_occurred :: int
  fd_evidence :: "string gomap"

text \<open>The entries whose dynamic type is \<open>string\<close>; the order of a map's entries has no meaning.\<close>

definition string_entries :: "dyn gomap \<Rightarrow> string gomap" where
  "string_entries m = List.map_filter (\<lambda>(k, v). case v of DynStr s \<Rightarrow> Some (k, s) | _ \<Rightarrow> None) m"

definition summarize :: "scan_result \<Rightarrow> result_summary" where
  "summarize res =
     \<lparr>rs_scanner = r_scanner res, rs_status = r_status res, rs_findings = length (r_findings res),
      rs_started = r_started res, rs_finished = r_finished res, rs_duration = r_duration res,
      rs_metadata = string_entries (r_metadata res)\<rparr>"

definition cache_latest :: "scan_result range_order \<Rightarrow> result_cache \<Rightarrow> result_summary list" where
  "cache_latest order c = map (\<lambda>(k, res). summarize res) (order (rc_latest c))"

definition cache_history :: "result_cache \<Rightarrow> result_summary list" where
  "cache_history c = map summarize (rc_history c)"

definition finding_summary_of :: "scan_result \<Rightarrow> finding \<Rightarrow> finding_summary" where
  "finding_summary_of res f =
     \<lparr>fd_scanner = r_scanner res, fd_severity = f_severity f, fd_category = f_category f,
      fd_description = f_description f, fd_occurred = r_finished res,
      fd_evidence = string_entries (f_evidence f)\<rparr>"

definition FindingsHistory :: "result_cache \<Rightarrow> finding_summary list" where
  "FindingsHistory c =
     concat (map (\<lambda>res. map (finding_summary_of res) (r_findings res)) (rc_history c))"

section \<open>The specification\<close>

definition log_last :: "scan_result list \<Rightarrow> string \<Rightarrow> scan_result option" where
  "log_last rs name = find (\<lambda>r. r_scanner r = name) (rev rs)"

definition last_n :: "nat \<Rightarrow> 'a list \<Rightarrow> 'a list" where
  "last_n n xs = drop (length xs - n) xs"

text \<open>\<open>cache_of limit rs\<close>: a new cache to which the results \<open>rs\<close> were added.\<close>

definition cache_of :: "int \<Rightarrow> scan_result list \<Rightarrow> result_cache" where
  "cache_of limit rs = foldl (\<lambda>c r. cache_add r c) (NewResultCache limit) rs"

definition cache_abs :: "result_cache \<Rightarrow> scan_result list \<Rightarrow> bool" where
  "cache_abs c rs \<longleftrightarrow>
     0 < rc_limit c \<and> keys_distinct (rc_latest c) \<and> map_of (rc_latest c) = log_last rs \<and>
     rc_history c = last_n (nat (rc_limit c)) rs"

lemma last_n_snoc:
  "0 < n \<Longrightarrow> (let h = last_n n xs @ [x] in if length h > n then drop (length h - n) h else h) = last_n n (xs @ [x])"
  by (auto simp: last_n_def Let_def Suc_diff_le)

lemma length_last_n [simp]: "length (last_n n xs) = min n (length xs)"
  by (auto simp: last_n_def)

lemma set_last_n: "set (last_n n xs) \<subseteq> set xs"
  by (simp add: last_n_def set_drop_subset)

lemma log_last_snoc: "log_last (rs @ [r]) = (log_last rs)(r_scanner r \<mapsto> r)"
  by (auto simp: log_last_def fun_eq_iff)

lemma cache_abs_new [inv_intros]: "cache_abs (NewResultCache limit) []"
  by (simp add: cache_abs_def NewResultCache_def last_n_def log_last_def fun_eq_iff)

lemma cache_abs_add [inv_intros]:
  assumes "cache_abs c rs"
  shows "cache_abs (cache_add r c) (rs @ [r])"
proof -
  let ?h = "rc_history c @ [r]"
  have l: "0 < nat (rc_limit c)" using assms by (simp add: cache_abs_def)
  have "rc_history (cache_add r c)
      = (if length ?h > nat (rc_limit c) then drop (length ?h - nat (rc_limit c)) ?h else ?h)"
    using l by (auto simp: cache_add_def Let_def nat_diff_distrib nat_add_distrib)
  also have "\<dots> = last_n (nat (rc_limit c)) (rs @ [r])"
    using last_n_snoc [OF l, of rs r] assms by (simp only: cache_abs_def Let_def)
  finally have h: "rc_history (cache_add r c) = last_n (nat (rc_limit c)) (rs @ [r])" .
  have "rc_latest (cache_add r c) = obj_set (rc_latest c) (r_scanner r) r"
    "rc_limit (cache_add r c) = rc_limit c"
    by (simp_all add: cache_add_def Let_def)
  with h assms show ?thesis by (simp add: cache_abs_def log_last_snoc distinct_obj_set)
qed

lemma cache_of_Nil [simp]: "cache_of limit [] = NewResultCache limit"
  by (simp add: cache_of_def)

lemma cache_of_snoc [simp]: "cache_of limit (rs @ [r]) = cache_add r (cache_of limit rs)"
  by (simp add: cache_of_def)

lemma cache_of_abs: "cache_abs (cache_of limit rs) rs"
  by (induction rs rule: rev_induct) (simp_all add: inv_intros)

lemma cache_add_limit [simp]: "rc_limit (cache_add r c) = rc_limit c"
  by (simp add: cache_add_def Let_def)

lemma cache_of_limit: "rc_limit (cache_of limit rs) = (if limit \<le> 0 then 50 else limit)"
  by (induction rs rule: rev_induct) (simp_all add: NewResultCache_def)

lemma map_of_string_entries:
  "keys_distinct m \<Longrightarrow> map_of (string_entries m) k = (case map_of m k of Some (DynStr s) \<Rightarrow> Some s | _ \<Rightarrow> None)"
proof (induction m)
  case (Cons e m)
  have "k \<notin> fst ` set m \<Longrightarrow> map_of m k = None" by (simp add: map_of_eq_None_iff)
  with Cons show ?case
    by (cases e; cases "snd e") (auto simp: string_entries_def map_filter_simps)
qed (simp add: string_entries_def map_filter_simps)

lemma length_FindingsHistory:
  "length (FindingsHistory c) = sum_list (map (\<lambda>res. length (r_findings res)) (rc_history c))"
  by (simp add: FindingsHistory_def length_concat comp_def)

lemma FindingsHistory_sources:
  "fd \<in> set (FindingsHistory c) \<Longrightarrow>
     \<exists>res f. res \<in> set (rc_history c) \<and> f \<in> set (r_findings res) \<and> fd = finding_summary_of res f"
  by (auto simp: FindingsHistory_def)

section \<open>Properties\<close>

text \<open>Whatever results are added to a new cache, its history is the summaries of the last \<open>limit\<close> of
  them (50 when the limit is not positive) in the order they came, its findings are those of these
  results, and the latest result it holds for a scanner is the last one ever added for it.\<close>

theorem cache_serves_log:
  "cache_history (cache_of limit rs) = map summarize (last_n (nat (if limit \<le> 0 then 50 else limit)) rs)
   \<and> FindingsHistory (cache_of limit rs)
       = concat (map (\<lambda>res. map (finding_summary_of res) (r_findings res))
           (last_n (nat (if limit \<le> 0 then 50 else limit)) rs))
   \<and> map_of (rc_latest (cache_of limit rs)) = log_last rs \<and> keys_distinct (rc_latest (cache_of limit rs))"
  using cache_of_abs [of limit rs]
  by (simp add: cache_abs_def cache_of_limit cache_history_def FindingsHistory_def)

end
