(* ===== verification/Detection.thy ===== *)
theory Detection
  imports Config Storage
begin

text \<open>
  Detection, \<open>internal/detection/\<close>: the threshold rules (\<open>rules.go\<close>), the correlation of scanners
  (\<open>correlation.go\<close>) and the statistical baselines with their persisted state (\<open>baseline.go\<close>).
  Floating-point operations round one by one, as Go's do on a machine without fused multiply-add.
  The texts \<open>"zscore=\<dots>"\<close> and the like, which every caller discards, are kept as constructors.
\<close>

section \<open>Rules\<close>

record rule =
  rl_name :: string
  rl_scanner :: string
  rl_metric :: string
  rl_operator :: string
  rl_threshold :: f64
  rl_severity :: severity
  rl_description :: string

definition compare :: "f64 \<Rightarrow> string \<Rightarrow> f64 \<Rightarrow> bool" where
  "compare value opr threshold =
     (let o' = to_lower opr in
      if o' = ''gt'' then f_lt threshold value
      else if o' = ''gte'' then f_le threshold value
      else if o' = ''lt'' then f_lt value threshold
      else if o' = ''lte'' then f_le value threshold
      else if o' = ''eq'' then f_eq value threshold
      else False)"

definition rule_finding :: "rule \<Rightarrow> f64 \<Rightarrow> finding" where
  "rule_finding ru value =
     \<lparr>f_id = ''rule_'' @ to_lower (rl_name ru), f_severity = rl_severity ru, f_category = ''rule'',
      f_description = (if rl_description ru = []
        then ''Rule '' @ rl_name ru @ '' triggered for '' @ rl_metric ru else rl_description ru),
      f_evidence = [(''metric'', DynStr (rl_metric ru)), (''value'', DynFloat value),
        (''threshold'', DynFloat (rl_threshold ru)), (''operator'', DynStr (rl_operator ru))],
      f_remediation = ''Review rule configuration and system state.''\<rparr>"

text \<open>One turn of the loop: the finding of a rule that applies and holds.\<close>

definition eval_rule :: "scan_result \<Rightarrow> rule \<Rightarrow> finding option" where
  "eval_rule res ru =
     (if rl_scanner ru \<noteq> r_scanner res \<and> rl_scanner ru \<noteq> ''*'' then None
      else case map_of (r_metadata res) (rl_metric ru) of
        None \<Rightarrow> None
      | Some raw \<Rightarrow>
          (case toFloat raw of
             None \<Rightarrow> None
           | Some value \<Rightarrow>
               if \<not> compare value (rl_operator ru) (rl_threshold ru) then None
               else Some (rule_finding ru value)))"

definition Evaluate :: "rule list \<Rightarrow> scan_result \<Rightarrow> finding list" where
  "Evaluate rules res = List.map_filter (eval_rule res) rules"

section \<open>Correlation\<close>

record correlator =
  co_window :: int
  co_min :: int
  co_cooldown :: int
  co_events :: "(int \<times> string) list"
  co_last :: int

definition NewCorrelator :: "int \<Rightarrow> int \<Rightarrow> int \<Rightarrow> correlator" where
  "NewCorrelator window0 min0 cooldown0 =
     (let window = (if window0 \<le> 0 then 5 * minute else window0);
          minScan = (if min0 < 1 then 2 else min0);
          cooldown = (if cooldown0 \<le> 0 then window else cooldown0)
      in \<lparr>co_window = window, co_min = minScan, co_cooldown = cooldown, co_events = [], co_last = zero_time\<rparr>)"

definition correlator_prune :: "int \<Rightarrow> correlator \<Rightarrow> correlator" where
  "correlator_prune now c =
     (let cutoff = time_add now (- co_window c)
      in c\<lparr>co_events := filter (\<lambda>(t, sc). cutoff < t) (co_events c)\<rparr>)"

definition unique_scanners :: "(int \<times> string) list \<Rightarrow> string list" where
  "unique_scanners evs = remdups (map snd evs)"

definition correlation_finding :: "nat \<Rightarrow> int \<Rightarrow> finding" where
  "correlation_finding n window =
     \<lparr>f_id = ''correlation_multi_scanner'', f_severity = SeverityHigh, f_category = ''correlation'',
      f_description = ''Multiple scanners reported findings within correlation window.'',
      f_evidence = [(''unique_scanners'', DynInt (int n)), (''window'', DynStr (duration_string window))],
      f_remediation = ''Investigate combined signals for coordinated activity.''\<rparr>"

definition correlator_add :: "int \<Rightarrow> scan_result \<Rightarrow> correlator \<Rightarrow> finding list \<times> correlator" where
  "correlator_add now res c =
     (if r_findings res = [] then ([], c)
      else
        let c1 = correlator_prune now (c\<lparr>co_events := co_events c @ [(now, r_scanner res)]\<rparr>);
            n = length (unique_scanners (co_events c1))
        in if int n < co_min c1 then ([], c1)
           else if time_sub now (co_last c1) < co_cooldown c1 then ([], c1)
           else ([correlation_finding n (co_window c1)], c1\<lparr>co_last := now\<rparr>))"

section \<open>Baselines\<close>

record baseline =
  bl_scanner :: string
  bl_metric :: string
  bl_count :: int
  bl_mean :: f64
  bl_m2 :: f64
  bl_min :: f64
  bl_max :: f64
  bl_samples :: "f64 list"
  bl_updated :: int
  bl_drift :: int
  bl_last :: f64

definition baselineBucket :: string where "baselineBucket = ''baselines''"
definition maxSamples :: nat where "maxSamples = 200"
definition minSamples :: int where "minSamples = 10"

definition baselineKey :: "string \<Rightarrow> string \<Rightarrow> string" where
  "baselineKey scanner metric = scanner @ ''::'' @ metric"

datatype baseline_error = NamesRequired | BaselineStore store_error | BaselineDecode | BaselineEncode

definition baseline_get ::
  "('d, 'b) store_ops \<Rightarrow> (baseline, 'b) codec \<Rightarrow> string \<Rightarrow> string \<Rightarrow> 'd \<Rightarrow> (baseline_error, baseline) result" where
  "baseline_get S C scanner metric d =
     (case so_get S baselineBucket (baselineKey scanner metric) d of
        Inl e \<Rightarrow> Inl (BaselineStore e)
      | Inr raw \<Rightarrow> (case co_decode C raw of None \<Rightarrow> Inl BaselineDecode | Some b \<Rightarrow> Inr b))"

definition baseline_put ::
  "('d, 'b) store_ops \<Rightarrow> (baseline, 'b) codec \<Rightarrow> baseline \<Rightarrow> 'd \<Rightarrow> (baseline_error, 'd) result" where
  "baseline_put S C b d =
     (case co_encode C b of
        None \<Rightarrow> Inl BaselineEncode
      | Some raw \<Rightarrow>
          (case so_put S baselineBucket (baselineKey (bl_scanner b) (bl_metric b)) raw d of
             Inl e \<Rightarrow> Inl (BaselineStore e) | Inr d' \<Rightarrow> Inr d'))"

definition new_baseline :: "string \<Rightarrow> string \<Rightarrow> f64 \<Rightarrow> baseline" where
  "new_baseline scanner metric value =
     \<lparr>bl_scanner = scanner, bl_metric = metric, bl_count = 0, bl_mean = Fin 0, bl_m2 = Fin 0,
      bl_min = value, bl_max = value, bl_samples = [], bl_updated = zero_time, bl_drift = 0, bl_last = Fin 0\<rparr>"

text \<open>What \<open>Update\<close> does to the record: Welford's recurrence, the extrema and the sample window.\<close>

definition baseline_step :: "int \<Rightarrow> f64 \<Rightarrow> baseline \<Rightarrow> baseline" where
  "baseline_step now value b =
     (let count = bl_count b + 1;
          delta = f_sub value (bl_mean b);
          mean = f_add (bl_mean b) (f_div delta (f_of_int count));
          delta2 = f_sub value mean;
          m2 = f_add (bl_m2 b) (f_mul delta delta2);
          samples = bl_samples b @ [value]
      in b\<lparr>bl_count := count, bl_mean := mean, bl_m2 := m2,
           bl_min := (if f_lt value (bl_min b) then value else bl_min b),
           bl_max := (if f_lt (bl_max b) value then value else bl_max b),
           bl_samples := (if length samples > maxSamples then drop (length samples - maxSamples) samples else samples),
           bl_updated := now, bl_last := value\<rparr>)"

definition baseline_update ::
  "('d, 'b) store_ops \<Rightarrow> (baseline, 'b) codec \<Rightarrow> int \<Rightarrow> string \<Rightarrow> string \<Rightarrow> f64 \<Rightarrow> 'd
     \<Rightarrow> (baseline_error, baseline \<times> 'd) result" where
  "baseline_update S C now scanner metric value d =
     (if scanner = [] \<or> metric = [] then Inl NamesRequired
      else
        let found = baseline_get S C scanner metric d in
        case found of
          Inl e \<Rightarrow>
            if e \<noteq> BaselineStore ErrNotFound then Inl e
            else let b = baseline_step now value (new_baseline scanner metric value)
                 in bind_res (baseline_put S C b d) (\<lambda>d'. Inr (b, d'))
        | Inr b0 \<Rightarrow>
            let b = baseline_step now value b0 in bind_res (baseline_put S C b d) (\<lambda>d'. Inr (b, d')))"

section \<open>Anomalies\<close>

definition zScore :: "baseline \<Rightarrow> f64 \<Rightarrow> f64" where
  "zScore b value =
     (if bl_count b < 2 then Fin 0
      else let variance = f_div (bl_m2 b) (f_of_int (bl_count b - 1)) in
        if f_le variance (Fin 0) then Fin 0
        else let stddev = f_sqrt variance in
          if f_eq stddev (Fin 0) then Fin 0
          else f_div (f_sub value (bl_mean b)) stddev)"

text \<open>\<open>sort.Float64s\<close>: NaN before every other value.\<close>

definition f_less :: "f64 \<Rightarrow> f64 \<Rightarrow> bool" where
  "f_less a b \<longleftrightarrow> f_lt a b \<or> (a = NaN \<and> b \<noteq> NaN)"

fun f_insert :: "f64 \<Rightarrow> f64 list \<Rightarrow> f64 list" where
  "f_insert x [] = [x]"
| "f_insert x (y # ys) = (if f_less y x then y # f_insert x ys else x # y # ys)"

definition sort_floats :: "f64 list \<Rightarrow> f64 list" where
  "sort_floats xs = foldr f_insert xs []"

text \<open>\<open>percentile\<close> at \<open>p\<close>, a number between 0 and 100; the rank is finite.\<close>

definition fin_val :: "f64 \<Rightarrow> rat" where
  "fin_val x = (case x of Fin q \<Rightarrow> q | _ \<Rightarrow> 0)"

definition percentile :: "f64 list \<Rightarrow> f64 \<Rightarrow> f64" where
  "percentile xs p =
     (if xs = [] then Fin 0
      else if f_le p (Fin 0) then hd xs
      else if f_le (Fin 100) p then List.last xs
      else
        let rank = f_mul (f_div p (Fin 100)) (f_of_int (int (length xs) - 1));
            lower = nat \<lfloor>fin_val rank\<rfloor>;
            upper = nat \<lceil>fin_val rank\<rceil>
        in if lower = upper then xs ! lower
           else let weight = f_sub rank (f_of_int (int lower))
                in f_add (f_mul (xs ! lower) (f_sub (Fin 1) weight)) (f_mul (xs ! upper) weight))"

definition quartiles :: "f64 list \<Rightarrow> f64 \<times> f64" where
  "quartiles samples =
     (if samples = [] then (Fin 0, Fin 0)
      else let s = sort_floats samples in (percentile s (Fin 25), percentile s (Fin 75)))"

datatype anomaly_reason = InsufficientSamples | ZScoreReason f64 | IqrOutlier f64 f64 | WithinBaseline

definition judge :: "baseline \<Rightarrow> f64 \<Rightarrow> bool \<times> anomaly_reason" where
  "judge b value =
     (if bl_count b < minSamples then (False, InsufficientSamples)
      else let z = zScore b value in
        if f_le (Fin 3) (f_abs z) then (True, ZScoreReason z)
        else
          let (q1, q3) = quartiles (bl_samples b);
              iqr = f_sub q3 q1;
              low = f_sub q1 (f_mul (Fin (3 / 2)) iqr);
              high = f_add q3 (f_mul (Fin (3 / 2)) iqr)
          in if f_lt value low \<or> f_lt high value then (True, IqrOutlier low high) else (False, WithinBaseline))"

definition IsAnomaly ::
  "('d, 'b) store_ops \<Rightarrow> (baseline, 'b) codec \<Rightarrow> string \<Rightarrow> string \<Rightarrow> f64 \<Rightarrow> 'd
     \<Rightarrow> (baseline_error, bool \<times> anomaly_reason) result" where
  "IsAnomaly S C scanner metric value d =
     bind_res (baseline_get S C scanner metric d) (\<lambda>b. Inr (judge b value))"

text \<open>\<open>Some\<close> a reason is \<open>"drift:"\<close> in front of it, \<open>None\<close> is \<open>"no_drift"\<close>.\<close>

definition DetectDrift ::
  "('d, 'b) store_ops \<Rightarrow> (baseline, 'b) codec \<Rightarrow> int \<Rightarrow> string \<Rightarrow> string \<Rightarrow> f64 \<Rightarrow> int \<Rightarrow> 'd
     \<Rightarrow> (baseline_error, bool \<times> anomaly_reason option \<times> 'd) result" where
  "DetectDrift S C now scanner metric value consecutive0 d =
     (let consecutive = (if consecutive0 < 1 then 1 else consecutive0) in
      bind_res (baseline_get S C scanner metric d) (\<lambda>b.
      bind_res (IsAnomaly S C scanner metric value d) (\<lambda>(anomaly, reason).
      let b' = b\<lparr>bl_drift := (if anomaly then bl_drift b + 1 else 0), bl_last := value, bl_updated := now\<rparr>
      in bind_res (baseline_put S C b' d) (\<lambda>d'.
         if bl_drift b' \<ge> consecutive then Inr (True, Some reason, d') else Inr (False, None, d')))))"

section \<open>Listing and pruning baselines\<close>

text \<open>A nil slice, which the JSON encoder prints as \<open>null\<close>, is \<open>None\<close>.\<close>

definition list_baselines ::
  "('d, 'b) badger \<Rightarrow> (baseline, 'b) codec \<Rightarrow> 'd \<Rightarrow> (store_error, baseline list option) result" where
  "list_baselines D C d =
     (case badger_for_each D baselineBucket (list_callback C) d [] of
        (None, bs) \<Rightarrow> Inr (if bs = [] then None else Some bs)
      | (Some e, bs) \<Rightarrow> if e = ErrNotFound then Inr (Some []) else Inl e)"

definition prune_baselines ::
  "('d, 'b) badger \<Rightarrow> (baseline, 'b) codec \<Rightarrow> int \<Rightarrow> 'd \<Rightarrow> store_error option \<times> 'd" where
  "prune_baselines D C cutoff d = prune_bucket D baselineBucket C bl_updated cutoff d"

section \<open>Facts about rules\<close>

lemma eval_rule_Some_iff:
  "eval_rule res ru = Some f \<longleftrightarrow>
     (rl_scanner ru = r_scanner res \<or> rl_scanner ru = ''*'') \<and>
     (\<exists>raw value. map_of (r_metadata res) (rl_metric ru) = Some raw \<and> toFloat raw = Some value \<and>
        compare value (rl_operator ru) (rl_threshold ru) \<and> f = rule_finding ru value)"
  by (auto simp: eval_rule_def split: option.splits)

lemma set_Evaluate: "f \<in> set (Evaluate rules res) \<longleftrightarrow> (\<exists>ru \<in> set rules. eval_rule res ru = Some f)"
  by (induction rules) (auto simp: Evaluate_def map_filter_simps split: option.splits)

lemma Evaluate_append: "Evaluate (rs @ rs') res = Evaluate rs res @ Evaluate rs' res"
  by (simp add: Evaluate_def map_filter_def)

lemma compare_NaN: "\<not> compare NaN opr t"
  by (simp add: compare_def Let_def f_le_def f_eq_def)

section \<open>Facts about the correlator\<close>

text \<open>
  The specification: the log of all reports with findings. A run of the correlator over timed results
  collects the times at which it reported.
\<close>

definition report_log :: "(int \<times> scan_result) list \<Rightarrow> (int \<times> string) list" where
  "report_log ins = map (\<lambda>(t, res). (t, r_scanner res)) (filter (\<lambda>(t, res). r_findings res \<noteq> []) ins)"

fun correlator_in :: "int \<times> scan_result \<Rightarrow> correlator \<times> int list \<Rightarrow> correlator \<times> int list" where
  "correlator_in (now, res) (c, fired) =
     (case correlator_add now res c of (fs, c') \<Rightarrow> (c', if fs = [] then fired else fired @ [now]))"

definition correlator_run :: "(int \<times> scan_result) list \<Rightarrow> correlator \<Rightarrow> correlator \<times> int list" where
  "correlator_run ins c = foldl (\<lambda>st i. correlator_in i st) (c, []) ins"

lemma correlator_run_snoc [simp]: "correlator_run (ins @ [i]) c = correlator_in i (correlator_run ins c)"
  by (simp add: correlator_run_def)

text \<open>The reports within the window that ends at a time, and their distinct scanners.\<close>

definition in_window :: "int \<Rightarrow> int \<Rightarrow> (int \<times> string) list \<Rightarrow> (int \<times> string) list" where
  "in_window win now lg = filter (\<lambda>(t, sc). now - win < t) lg"

definition should_fire :: "correlator \<Rightarrow> int \<Rightarrow> (int \<times> string) list \<Rightarrow> int \<Rightarrow> bool" where
  "should_fire c now lg lastf \<longleftrightarrow>
     int (card (snd ` set (in_window (co_window c) now lg))) \<ge> co_min c \<and> time_sub now lastf \<ge> co_cooldown c"

lemma length_unique_scanners: "length (unique_scanners evs) = card (snd ` set evs)"
  by (simp add: unique_scanners_def length_remdups_card_conv)

lemma correlator_add_params [simp]:
  "co_window (snd (correlator_add now res c)) = co_window c"
  "co_min (snd (correlator_add now res c)) = co_min c"
  "co_cooldown (snd (correlator_add now res c)) = co_cooldown c"
  by (simp_all add: correlator_add_def correlator_prune_def Let_def)

lemma correlator_add_findings:
  assumes "r_findings res \<noteq> []"
  shows "co_events (snd (correlator_add now res c)) = in_window (co_window c) now (co_events c @ [(now, r_scanner res)])"
    and "fst (correlator_add now res c) \<noteq> [] \<longleftrightarrow>
      should_fire c now (co_events c @ [(now, r_scanner res)]) (co_last c)"
    and "co_last (snd (correlator_add now res c))
      = (if fst (correlator_add now res c) \<noteq> [] then now else co_last c)"
  using assms
  by (auto simp: correlator_add_def correlator_prune_def Let_def in_window_def time_add_def should_fire_def
      length_unique_scanners)

lemma in_window_shrink:
  "now \<le> now' \<Longrightarrow> in_window win now' (in_window win now lg @ lg') = in_window win now' (lg @ lg')"
  by (auto simp: in_window_def filter_append intro: filter_cong)

lemma report_log_snoc:
  "report_log (ins @ [(t, res)]) = report_log ins @ (if r_findings res = [] then [] else [(t, r_scanner res)])"
  by (simp add: report_log_def)

lemma correlator_run_params:
  "co_window (fst (correlator_run ins c)) = co_window c"
  "co_min (fst (correlator_run ins c)) = co_min c"
  "co_cooldown (fst (correlator_run ins c)) = co_cooldown c"
proof -
  have "co_window (fst (correlator_run ins c)) = co_window c \<and> co_min (fst (correlator_run ins c)) = co_min c
    \<and> co_cooldown (fst (correlator_run ins c)) = co_cooldown c"
  proof (induction ins rule: rev_induct)
    case (snoc i ins)
    obtain t res where i: "i = (t, res)" by (cases i)
    obtain c1 fs where "correlator_run ins c = (c1, fs)" by (metis prod.collapse)
    moreover obtain fs2 c2 where "correlator_add t res c1 = (fs2, c2)" by (metis prod.collapse)
    ultimately show ?case
      using snoc i correlator_add_params [of t res c1] by simp
  qed (simp add: correlator_run_def)
  then show "co_window (fst (correlator_run ins c)) = co_window c"
    "co_min (fst (correlator_run ins c)) = co_min c" "co_cooldown (fst (correlator_run ins c)) = co_cooldown c"
    by auto
qed

definition last_or :: "'a \<Rightarrow> 'a list \<Rightarrow> 'a" where
  "last_or d xs = (if xs = [] then d else List.last xs)"

text \<open>What the correlator keeps suffices: its events stand for the whole log at every later time.\<close>

lemma correlator_run_state:
  assumes "sorted (map fst ins)" "co_events c = []" "\<forall>i \<in> set ins. fst i \<le> now"
  shows "in_window (co_window c) now (co_events (fst (correlator_run ins c)) @ lg)
       = in_window (co_window c) now (report_log ins @ lg)
     \<and> co_last (fst (correlator_run ins c)) = last_or (co_last c) (snd (correlator_run ins c))"
  using assms
proof (induction ins arbitrary: now lg rule: rev_induct)
  case Nil
  then show ?case by (simp add: correlator_run_def report_log_def last_or_def)
next
  case (snoc i ins)
  obtain t res where i: "i = (t, res)" by (cases i)
  obtain c1 fired where r: "correlator_run ins c = (c1, fired)" by (metis prod.collapse)
  from snoc.prems i have pre: "sorted (map fst ins)" "\<forall>i \<in> set ins. fst i \<le> t" "t \<le> now"
    by (auto simp: sorted_append)
  note IH = snoc.IH [OF pre(1) snoc.prems(2) pre(2), unfolded r fst_conv snd_conv]
  have w: "co_window c1 = co_window c" using correlator_run_params(1) [of ins c] r by simp
  show ?case
  proof (cases "r_findings res = []")
    case True
    then have "correlator_add t res c1 = ([], c1)" by (simp add: correlator_add_def)
    moreover have "\<forall>i \<in> set ins. fst i \<le> now" using pre by auto
    note IH' = snoc.IH [OF pre(1) snoc.prems(2) this, unfolded r fst_conv snd_conv]
    ultimately show ?thesis using IH' True by (simp add: i r report_log_snoc)
  next
    case False
    obtain fs c2 where a: "correlator_add t res c1 = (fs, c2)" by (metis prod.collapse)
    from correlator_add_findings(1) [OF False, of t c1] a w
    have "co_events c2 = in_window (co_window c) t (co_events c1 @ [(t, r_scanner res)])" by simp
    also have "\<dots> = in_window (co_window c) t (report_log ins @ [(t, r_scanner res)])" using IH by blast
    finally have "in_window (co_window c) now (co_events c2 @ lg)
        = in_window (co_window c) now ((report_log ins @ [(t, r_scanner res)]) @ lg)"
      using pre(3) in_window_shrink by metis
    moreover have "co_last c2 = (if fs \<noteq> [] then t else co_last c1)"
      using correlator_add_findings(3) [OF False, of t c1] a by simp
    ultimately show ?thesis
      using IH False by (auto simp: i r a report_log_snoc last_or_def)
  qed
qed

text \<open>The correlator reports on a result exactly when the specification says so.\<close>

lemma correlator_reports_iff:
  assumes "sorted (map fst (ins @ [(now, res)]))" "co_events c = []" "r_findings res \<noteq> []"
    and "correlator_run ins c = (c1, fired)"
  shows "fst (correlator_add now res c1) \<noteq> []
     \<longleftrightarrow> should_fire c now (report_log (ins @ [(now, res)])) (last_or (co_last c) fired)"
proof -
  have pre: "sorted (map fst ins)" "\<forall>i \<in> set ins. fst i \<le> now" using assms(1) by (auto simp: sorted_append)
  note st = correlator_run_state [OF pre(1) assms(2) pre(2), unfolded assms(4) fst_conv snd_conv,
      of "[(now, r_scanner res)]"]
  have "co_window c1 = co_window c" "co_min c1 = co_min c" "co_cooldown c1 = co_cooldown c"
    using correlator_run_params [of ins c] assms(4) by auto
  with st show ?thesis
    using correlator_add_findings(2) [OF assms(3), of now c1] assms(3)
    by (simp add: should_fire_def report_log_snoc)
qed

text \<open>Two reports are a cooldown apart.\<close>

lemma correlator_fired_apart:
  assumes "sorted (map fst ins)" "co_events c = []"
  shows "sorted_wrt (\<lambda>t t'. co_cooldown c \<le> time_sub t' t) (snd (correlator_run ins c))
     \<and> sorted (snd (correlator_run ins c)) \<and> set (snd (correlator_run ins c)) \<subseteq> set (map fst ins)"
  using assms(1)
proof (induction ins rule: rev_induct)
  case (snoc i ins)
  obtain t res where i: "i = (t, res)" by (cases i)
  obtain c1 fired where r: "correlator_run ins c = (c1, fired)" by (metis prod.collapse)
  from snoc.prems i have pre: "sorted (map fst ins)" "\<forall>i \<in> set ins. fst i \<le> t" by (auto simp: sorted_append)
  note IH = snoc.IH [OF pre(1), unfolded r snd_conv]
  show ?case
  proof (cases "fst (correlator_add t res c1) = []")
    case True
    with IH show ?thesis by (auto simp: i r split: prod.splits)
  next
    case False
    then have f: "r_findings res \<noteq> []" by (auto simp: correlator_add_def)
    have "should_fire c t (report_log (ins @ [(t, res)])) (last_or (co_last c) fired)"
      using correlator_reports_iff [OF _ assms(2) f r] snoc.prems i False by simp
    then have cd: "co_cooldown c \<le> time_sub t (last_or (co_last c) fired)" by (simp add: should_fire_def)
    have "co_cooldown c \<le> time_sub t u" if "u \<in> set fired" for u
    proof -
      have ne: "fired \<noteq> []" using that by auto
      then have "u \<le> List.last fired" using IH that
        by (metis append_butlast_last_id in_set_conv_nth rotate1.simps(2) set_ConsD set_rotate1 sorted_append list.set_intros(1) order_refl)
      then have "time_sub t (List.last fired) \<le> time_sub t u"
        by (auto simp: time_sub_def min_int64_def max_int64_def)
      with cd ne show ?thesis by (simp add: last_or_def)
    qed
    with IH pre False show ?thesis
      by (auto simp: i r sorted_wrt_append sorted_append split: prod.splits)
  qed
qed (simp add: correlator_run_def)

section \<open>Facts about baselines\<close>

definition codec_keeps :: "('v, 'b) codec \<Rightarrow> 'v \<Rightarrow> bool" where
  "codec_keeps C v \<longleftrightarrow> (\<forall>raw. co_encode C v = Some raw \<longrightarrow> co_decode C raw = Some v)"

definition baseline_steps :: "(int \<times> f64) list \<Rightarrow> baseline \<Rightarrow> baseline" where
  "baseline_steps vs b = foldl (\<lambda>b (now, v). baseline_step now v b) b vs"

lemma baseline_steps_snoc [simp]: "baseline_steps (vs @ [(now, v)]) b = baseline_step now v (baseline_steps vs b)"
  by (simp add: baseline_steps_def)

lemma baseline_step_simps [run_simps]:
  "bl_scanner (baseline_step now v b) = bl_scanner b"
  "bl_metric (baseline_step now v b) = bl_metric b"
  "bl_drift (baseline_step now v b) = bl_drift b"
  "bl_count (baseline_step now v b) = bl_count b + 1"
  "bl_last (baseline_step now v b) = v"
  "bl_min (baseline_step now v b) = (if f_lt v (bl_min b) then v else bl_min b)"
  "bl_max (baseline_step now v b) = (if f_lt (bl_max b) v then v else bl_max b)"
  by (simp_all add: baseline_step_def Let_def)

text \<open>
  After the values \<open>vs\<close>, the first of which created the record, the count, the extrema, the window of
  samples and the last value are those of \<open>vs\<close>.
\<close>

lemma baseline_steps_summary:
  assumes "vs \<noteq> []" "list_all (\<lambda>(now, v). is_finite v) vs"
  shows "bl_count (baseline_steps vs (new_baseline sc m (snd (hd vs)))) = int (length vs)
     \<and> bl_samples (baseline_steps vs (new_baseline sc m (snd (hd vs)))) = drop (length vs - maxSamples) (map snd vs)
     \<and> bl_min (baseline_steps vs (new_baseline sc m (snd (hd vs)))) = Fin (Min ((fin_val \<circ> snd) ` set vs))
     \<and> bl_max (baseline_steps vs (new_baseline sc m (snd (hd vs)))) = Fin (Max ((fin_val \<circ> snd) ` set vs))
     \<and> bl_last (baseline_steps vs (new_baseline sc m (snd (hd vs)))) = snd (List.last vs)"
  using assms
proof (induction vs rule: rev_nonempty_induct)
  case (single x)
  then show ?case
    by (cases x; cases "snd x")
      (auto simp: baseline_steps_def run_simps new_baseline_def is_finite_def fin_val_def baseline_step_def
        Let_def maxSamples_def)
next
  case (snoc x vs)
  let ?b = "baseline_steps vs (new_baseline sc m (snd (hd vs)))"
  obtain now v where x: "x = (now, v)" by (cases x)
  with snoc.prems obtain q where v: "v = Fin q" by (cases v) (auto simp: is_finite_def)
  from snoc.prems have "list_all (\<lambda>(now, v). is_finite v) vs" by simp
  from snoc.IH [OF this] have IH: "bl_count ?b = int (length vs)"
    "bl_samples ?b = drop (length vs - maxSamples) (map snd vs)"
    "bl_min ?b = Fin (Min ((fin_val \<circ> snd) ` set vs))" "bl_max ?b = Fin (Max ((fin_val \<circ> snd) ` set vs))" by auto
  have fin: "finite ((fin_val \<circ> snd) ` set vs)" "(fin_val \<circ> snd) ` set vs \<noteq> {}" using snoc.hyps by auto
  have set: "(fin_val \<circ> snd) ` set (vs @ [x]) = insert q ((fin_val \<circ> snd) ` set vs)"
    by (auto simp: x v fin_val_def)
  have hd: "hd (vs @ [x]) = hd vs" using snoc.hyps by simp
  have "bl_samples (baseline_step now v ?b) = drop (length (vs @ [x]) - maxSamples) (map snd (vs @ [x]))"
  proof (cases "length vs < maxSamples")
    case True
    with IH show ?thesis by (simp add: baseline_step_def Let_def x)
  next
    case False
    then have "length (bl_samples ?b) = maxSamples" "Suc (length vs - maxSamples) = Suc (length vs) - maxSamples"
      by (simp_all add: IH)
    with False show ?thesis by (simp add: baseline_step_def Let_def x IH(2))
  qed
  moreover have "(if q < Min ((fin_val \<circ> snd) ` set vs) then q else Min ((fin_val \<circ> snd) ` set vs))
      = Min (insert q ((fin_val \<circ> snd) ` set vs))"
    unfolding Min_insert [OF fin] by simp
  moreover have "(if Max ((fin_val \<circ> snd) ` set vs) < q then q else Max ((fin_val \<circ> snd) ` set vs))
      = Max (insert q ((fin_val \<circ> snd) ` set vs))"
    unfolding Max_insert [OF fin] by simp
  ultimately have mm: "(if f_lt v (bl_min ?b) then v else bl_min ?b) = Fin (Min ((fin_val \<circ> snd) ` set (vs @ [x])))"
    "(if f_lt (bl_max ?b) v then v else bl_max ?b) = Fin (Max ((fin_val \<circ> snd) ` set (vs @ [x])))"
    and sm: "bl_samples (baseline_step now v ?b) = drop (length (vs @ [x]) - maxSamples) (map snd (vs @ [x]))"
    unfolding IH(3,4) set v f_lt.simps by (simp_all only: if_distrib [of Fin, symmetric])
  have "baseline_steps (vs @ [x]) (new_baseline sc m (snd (hd (vs @ [x])))) = baseline_step now v ?b"
    unfolding hd by (simp add: x)
  moreover have "snd (List.last (vs @ [x])) = v" by (simp add: x)
  ultimately show ?case
    using mm sm IH(1) by (simp only: baseline_step_simps) simp
qed

lemma baseline_put_get:
  assumes "badger_db D" "baseline_put (badger_store D) C b d = Inr d'" "codec_keeps C b"
  shows "baseline_get (badger_store D) C (bl_scanner b) (bl_metric b) d' = Inr b"
proof -
  from assms(2) obtain raw where raw: "co_encode C b = Some raw"
    and put: "badger_put D baselineBucket (baselineKey (bl_scanner b) (bl_metric b)) raw d = Inr d'"
    by (auto simp: baseline_put_def badger_store_def split: option.splits sum.splits)
  from badger_db.store_put_get [OF assms(1) put] raw assms(3) show ?thesis
    by (simp add: baseline_get_def badger_store_def codec_keeps_def)
qed

text \<open>A run of \<open>Update\<close> on one metric, stopping at the first error.\<close>

fun update_values ::
  "('d, 'b) store_ops \<Rightarrow> (baseline, 'b) codec \<Rightarrow> string \<Rightarrow> string \<Rightarrow> (int \<times> f64) list \<Rightarrow> 'd
     \<Rightarrow> (baseline_error, 'd) result" where
  "update_values S C sc m [] d = Inr d"
| "update_values S C sc m ((now, v) # vs) d =
     (case baseline_update S C now sc m v d of
        Inl e \<Rightarrow> Inl e
      | Inr (b, d') \<Rightarrow> update_values S C sc m vs d')"

lemma update_values_append:
  "update_values S C sc m (vs @ vs') d
     = (case update_values S C sc m vs d of Inl e \<Rightarrow> Inl e | Inr d' \<Rightarrow> update_values S C sc m vs' d')"
  by (induction S C sc m vs d rule: update_values.induct) (auto split: sum.splits)

lemma baseline_update_get:
  assumes db: "badger_db D" and keeps: "\<And>b. codec_keeps C b"
    and up: "baseline_update (badger_store D) C now sc m v d = Inr (b', d')"
    and own: "\<And>b. baseline_get (badger_store D) C sc m d = Inr b \<Longrightarrow> bl_scanner b = sc \<and> bl_metric b = m"
  shows "baseline_get (badger_store D) C sc m d' = Inr b'" "bl_scanner b' = sc" "bl_metric b' = m"
    and "b' = baseline_step now v (case baseline_get (badger_store D) C sc m d of
           Inl e \<Rightarrow> new_baseline sc m v | Inr b \<Rightarrow> b)"
proof -
  let ?g = "baseline_get (badger_store D) C sc m d"
  let ?b = "case ?g of Inl e \<Rightarrow> new_baseline sc m v | Inr b \<Rightarrow> b"
  have names: "bl_scanner ?b = sc" "bl_metric ?b = m"
    using own by (auto simp: new_baseline_def split: sum.split)
  from up have "bind_res (baseline_put (badger_store D) C (baseline_step now v ?b) d)
      (\<lambda>d'. Inr (baseline_step now v ?b, d')) = Inr (b', d')"
    by (auto simp: baseline_update_def Let_def split: if_splits sum.splits)
  then have put: "baseline_put (badger_store D) C b' d = Inr d'" and b': "b' = baseline_step now v ?b"
    by (auto simp: bind_res_Inr_iff)
  show "b' = baseline_step now v ?b" by (rule b')
  show n: "bl_scanner b' = sc" "bl_metric b' = m" unfolding b' using names by (simp_all add: run_simps)
  show "baseline_get (badger_store D) C sc m d' = Inr b'"
    using baseline_put_get [OF db put keeps] n by simp
qed

text \<open>The record a store holds after a run of updates is the record of the values.\<close>

lemma update_values_get:
  assumes db: "badger_db D" and keeps: "\<And>b. codec_keeps C b" and vs: "vs \<noteq> []"
    and none: "baseline_get (badger_store D) C sc m d = Inl (BaselineStore ErrNotFound)"
    and up: "update_values (badger_store D) C sc m vs d = Inr d'"
  shows "baseline_get (badger_store D) C sc m d' = Inr (baseline_steps vs (new_baseline sc m (snd (hd vs))))"
proof -
  have "baseline_get (badger_store D) C sc m d' = Inr (baseline_steps vs (new_baseline sc m (snd (hd vs))))
     \<and> bl_scanner (baseline_steps vs (new_baseline sc m (snd (hd vs)))) = sc
     \<and> bl_metric (baseline_steps vs (new_baseline sc m (snd (hd vs)))) = m"
    using vs up
  proof (induction vs arbitrary: d' rule: rev_nonempty_induct)
    case (single x)
    obtain now v where x: "x = (now, v)" by (cases x)
    from single x obtain b where u: "baseline_update (badger_store D) C now sc m v d = Inr (b, d')"
      by (auto split: sum.splits)
    have own: "\<And>b. baseline_get (badger_store D) C sc m d = Inr b \<Longrightarrow> bl_scanner b = sc \<and> bl_metric b = m"
      by (simp add: none)
    from baseline_update_get [OF db keeps u own] none show ?case
      by (simp add: x baseline_steps_def)
  next
    case (snoc x vs)
    obtain now v where x: "x = (now, v)" by (cases x)
    from snoc.prems x obtain d1 b where d1: "update_values (badger_store D) C sc m vs d = Inr d1"
      and u: "baseline_update (badger_store D) C now sc m v d1 = Inr (b, d')"
      by (auto simp: update_values_append split: sum.splits)
    let ?b = "baseline_steps vs (new_baseline sc m (snd (hd vs)))"
    from snoc.IH [OF d1] have g: "baseline_get (badger_store D) C sc m d1 = Inr ?b"
      "bl_scanner ?b = sc" "bl_metric ?b = m" by auto
    have own: "\<And>b. baseline_get (badger_store D) C sc m d1 = Inr b \<Longrightarrow> bl_scanner b = sc \<and> bl_metric b = m"
      using g by auto
    from baseline_update_get [OF db keeps u own] g snoc.hyps show ?case by (simp add: x)
  qed
  then show ?thesis by blast
qed

section \<open>Facts about drift\<close>

lemma DetectDrift_Inr:
  assumes "DetectDrift S C now sc m v k d = Inr (drift, reason, d')"
  obtains b b' where "baseline_get S C sc m d = Inr b"
    and "b' = b\<lparr>bl_drift := (if fst (judge b v) then bl_drift b + 1 else 0), bl_last := v, bl_updated := now\<rparr>"
    and "baseline_put S C b' d = Inr d'"
    and "drift \<longleftrightarrow> max 1 k \<le> bl_drift b'" and "drift \<Longrightarrow> reason = Some (snd (judge b v))"
proof -
  from assms obtain b where g: "baseline_get S C sc m d = Inr b"
    by (auto simp: DetectDrift_def Let_def bind_res_Inr_iff)
  obtain an re where j: "judge b v = (an, re)" by (cases "judge b v")
  define b' where "b' = b\<lparr>bl_drift := (if an then bl_drift b + 1 else 0), bl_last := v, bl_updated := now\<rparr>"
  have kk: "(if k < 1 then 1 else k) = max 1 k" by auto
  from assms have "bind_res (baseline_put S C b' d) (\<lambda>d'.
      if max 1 k \<le> bl_drift b' then Inr (True, Some re, d') else Inr (False, None, d')) = Inr (drift, reason, d')"
    unfolding DetectDrift_def IsAnomaly_def Let_def g j bind_res.simps prod.case kk b'_def [symmetric] .
  then obtain d1 where put: "baseline_put S C b' d = Inr d1"
    and r: "(if max 1 k \<le> bl_drift b' then Inr (True, Some re, d1) else Inr (False, None, d1))
      = (Inr (drift, reason, d') :: (baseline_error, bool \<times> anomaly_reason option \<times> 'a) result)"
    unfolding bind_res_Inr_iff by blast
  from r have "d1 = d'" "drift \<longleftrightarrow> max 1 k \<le> bl_drift b'" "drift \<Longrightarrow> reason = Some re"
    by (auto split: if_splits)
  with that g j put show ?thesis by (simp add: b'_def)
qed

lemma judge_cong:
  "bl_count b' = bl_count b \<Longrightarrow> bl_m2 b' = bl_m2 b \<Longrightarrow> bl_mean b' = bl_mean b \<Longrightarrow> bl_samples b' = bl_samples b
     \<Longrightarrow> judge b' v = judge b v"
  by (simp add: judge_def zScore_def Let_def)

text \<open>A run of \<open>DetectDrift\<close> on one metric, with the verdict of each call.\<close>

fun detect_values ::
  "('d, 'b) store_ops \<Rightarrow> (baseline, 'b) codec \<Rightarrow> string \<Rightarrow> string \<Rightarrow> int \<Rightarrow> (int \<times> f64) list \<Rightarrow> 'd
     \<Rightarrow> (baseline_error, bool list \<times> 'd) result" where
  "detect_values S C sc m k [] d = Inr ([], d)"
| "detect_values S C sc m k ((now, v) # vs) d =
     (case DetectDrift S C now sc m v k d of
        Inl e \<Rightarrow> Inl e
      | Inr (drift, reason, d') \<Rightarrow>
          bind_res (detect_values S C sc m k vs d') (\<lambda>(ds, d''). Inr (drift # ds, d'')))"

lemma detect_values_append:
  "detect_values S C sc m k (vs @ vs') d
     = bind_res (detect_values S C sc m k vs d) (\<lambda>(ds, d').
       bind_res (detect_values S C sc m k vs' d') (\<lambda>(ds', d''). Inr (ds @ ds', d'')))"
proof (induction S C sc m k vs d rule: detect_values.induct)
  case (1 S C sc m k d)
  show ?case by (cases "detect_values S C sc m k vs' d") auto
next
  case (2 S C sc m k now v vs d)
  show ?case
  proof (cases "DetectDrift S C now sc m v k d")
    case (Inr t)
    obtain drift reason d' where t: "t = (drift, reason, d')" by (cases t)
    note IH = 2 [OF Inr [unfolded t] refl refl]
    show ?thesis
    proof (cases "detect_values S C sc m k vs d'")
      case r: (Inr u)
      then show ?thesis using IH Inr t
        by (cases u; cases "detect_values S C sc m k vs' (snd u)") auto
    qed (use IH Inr t in simp)
  qed simp
qed

lemma detect_values_snoc:
  assumes "detect_values S C sc m k (vs @ [(now, v)]) d = Inr (ds, d')"
  obtains ds1 d1 drift reason where "detect_values S C sc m k vs d = Inr (ds1, d1)"
    and "DetectDrift S C now sc m v k d1 = Inr (drift, reason, d')" and "ds = ds1 @ [drift]"
proof -
  from assms obtain ds1 d1 where 1: "detect_values S C sc m k vs d = Inr (ds1, d1)"
    and r: "bind_res (detect_values S C sc m k [(now, v)] d1) (\<lambda>(ds', d''). Inr (ds1 @ ds', d'')) = Inr (ds, d')"
    by (auto simp: detect_values_append bind_res_Inr_iff simp del: detect_values.simps)
  from r obtain drift reason d2 where "DetectDrift S C now sc m v k d1 = Inr (drift, reason, d2)"
    "ds = ds1 @ [drift]" "d2 = d'"
    by (cases "DetectDrift S C now sc m v k d1") auto
  with 1 that show ?thesis by blast
qed

text \<open>The counter is the number of anomalous values at the end of the run.\<close>

definition trailing :: "('a \<Rightarrow> bool) \<Rightarrow> 'a list \<Rightarrow> nat" where
  "trailing P xs = length (takeWhile P (rev xs))"

lemma trailing_snoc [simp]: "trailing P (xs @ [x]) = (if P x then Suc (trailing P xs) else 0)"
  by (simp add: trailing_def)

lemma trailing_Nil [simp]: "trailing P [] = 0"
  by (simp add: trailing_def)

lemma detect_values_get:
  assumes db: "badger_db D" and keeps: "\<And>b. codec_keeps C b"
    and b0: "baseline_get (badger_store D) C sc m d = Inr b0" "bl_scanner b0 = sc" "bl_metric b0 = m" "bl_drift b0 = 0"
    and run: "detect_values (badger_store D) C sc m k vs d = Inr (ds, d')"
  shows "(\<exists>b. baseline_get (badger_store D) C sc m d' = Inr b \<and> bl_scanner b = sc \<and> bl_metric b = m
       \<and> bl_drift b = int (trailing (\<lambda>(now, v). fst (judge b0 v)) vs)
       \<and> (\<forall>v. judge b v = judge b0 v))
     \<and> length ds = length vs
     \<and> (\<forall>i < length vs. ds ! i \<longleftrightarrow> max 1 k \<le> int (trailing (\<lambda>(now, v). fst (judge b0 v)) (take (Suc i) vs)))"
  using run
proof (induction vs arbitrary: ds d' rule: rev_induct)
  case Nil
  with b0 show ?case by simp
next
  case (snoc x vs)
  obtain now v where x: "x = (now, v)" by (cases x)
  from snoc.prems [unfolded x] obtain ds1 d1 drift reason where
    1: "detect_values (badger_store D) C sc m k vs d = Inr (ds1, d1)"
    and 2: "DetectDrift (badger_store D) C now sc m v k d1 = Inr (drift, reason, d')"
    and ds: "ds = ds1 @ [drift]"
    by (rule detect_values_snoc)
  from snoc.IH [OF 1] obtain b where b: "baseline_get (badger_store D) C sc m d1 = Inr b"
    "bl_scanner b = sc" "bl_metric b = m" "bl_drift b = int (trailing (\<lambda>(now, v). fst (judge b0 v)) vs)"
    "\<forall>v. judge b v = judge b0 v"
    and len: "length ds1 = length vs"
    and nth: "\<forall>i < length vs. ds1 ! i \<longleftrightarrow> max 1 k \<le> int (trailing (\<lambda>(now, v). fst (judge b0 v)) (take (Suc i) vs))"
    by auto
  from 2 obtain b' where
    b': "b' = b\<lparr>bl_drift := (if fst (judge b v) then bl_drift b + 1 else 0), bl_last := v, bl_updated := now\<rparr>"
    and put: "baseline_put (badger_store D) C b' d1 = Inr d'" and drift: "drift \<longleftrightarrow> max 1 k \<le> bl_drift b'"
    by (rule DetectDrift_Inr) (use b(1) in auto)
  have n: "bl_scanner b' = sc" "bl_metric b' = m" by (simp_all add: b' b)
  have "baseline_get (badger_store D) C sc m d' = Inr b'" using baseline_put_get [OF db put keeps] n by simp
  moreover have d: "bl_drift b' = int (trailing (\<lambda>(now, v). fst (judge b0 v)) (vs @ [x]))"
    using b(4,5) by (simp add: b' x)
  moreover have "judge b' u = judge b0 u" for u
  proof -
    have "judge b' u = judge b u" by (rule judge_cong) (simp_all add: b')
    with b(5) show ?thesis by simp
  qed
  moreover have "ds ! i \<longleftrightarrow> max 1 k \<le> int (trailing (\<lambda>(now, v). fst (judge b0 v)) (take (Suc i) (vs @ [x])))"
    if "i < length (vs @ [x])" for i
    using that nth len drift d by (cases "i = length vs") (simp_all add: ds nth_append)
  ultimately show ?case using n len ds by simp
qed

section \<open>Properties\<close>

text \<open>C27 A correlator fed with results in time order reports on one exactly when the results with findings
  inside the window that ends there come from enough different scanners and the cooldown has passed
  since its last report; so pruning the old events never changes a verdict, and reports are at least a
  cooldown apart.\<close>

theorem correlator_reports_correctly:
  assumes "sorted (map fst (ins @ [(now, res)]))" "r_findings res \<noteq> []"
    and "correlator_run ins (NewCorrelator window minScan cooldown) = (c1, fired)"
  shows "(fst (correlator_add now res c1) \<noteq> []
     \<longleftrightarrow> should_fire (NewCorrelator window minScan cooldown) now (report_log (ins @ [(now, res)]))
           (last_or zero_time fired))
     \<and> sorted_wrt (\<lambda>t t'. co_cooldown (NewCorrelator window minScan cooldown) \<le> time_sub t' t) fired"
proof
  have ev: "co_events (NewCorrelator window minScan cooldown) = []"
    and last: "co_last (NewCorrelator window minScan cooldown) = zero_time"
    by (simp_all add: NewCorrelator_def Let_def)
  show "fst (correlator_add now res c1) \<noteq> []
     \<longleftrightarrow> should_fire (NewCorrelator window minScan cooldown) now (report_log (ins @ [(now, res)])) (last_or zero_time fired)"
    using correlator_reports_iff [OF assms(1) ev assms(2,3)] by (simp add: last)
  have "sorted (map fst ins)" using assms(1) by (simp add: sorted_append)
  from correlator_fired_apart [OF this ev] assms(3)
  show "sorted_wrt (\<lambda>t t'. co_cooldown (NewCorrelator window minScan cooldown) \<le> time_sub t' t) fired" by simp
qed

definition alarm_result :: "string \<Rightarrow> scan_result" where
  "alarm_result name =
     sample_result\<lparr>r_scanner := name, r_findings :=
       [\<lparr>f_id = ''f'', f_severity = SeverityHigh, f_category = ''c'', f_description = ''d'', f_evidence = [],
         f_remediation = []\<rparr>]\<rparr>"

theorem correlator_reports_correctly_witness:
  "(fst (correlator_add 9 (alarm_result ''b'')
       (fst (correlator_run [(5, alarm_result ''a'')] (NewCorrelator 100 2 50)))) \<noteq> []
     \<longleftrightarrow> should_fire (NewCorrelator 100 2 50) 9 (report_log ([(5, alarm_result ''a'')] @ [(9, alarm_result ''b'')]))
           (last_or zero_time (snd (correlator_run [(5, alarm_result ''a'')] (NewCorrelator 100 2 50)))))
     \<and> sorted_wrt (\<lambda>t t'. co_cooldown (NewCorrelator 100 2 50) \<le> time_sub t' t)
         (snd (correlator_run [(5, alarm_result ''a'')] (NewCorrelator 100 2 50)))"
  by (rule correlator_reports_correctly) (simp_all add: alarm_result_def)

text \<open>C29 After a run of successful updates of a metric that had no baseline, the stored baseline counts the
  values, holds the last 200 of them, their minimum, their maximum and the last one.\<close>

theorem baseline_summarizes_values:
  assumes "badger_db D" "\<And>b. codec_keeps C b" "vs \<noteq> []" "list_all (\<lambda>(now, v). is_finite v) vs"
    and "baseline_get (badger_store D) C sc m d = Inl (BaselineStore ErrNotFound)"
    and "update_values (badger_store D) C sc m vs d = Inr d'"
  shows "\<exists>b. baseline_get (badger_store D) C sc m d' = Inr b
    \<and> bl_count b = int (length vs)
    \<and> bl_samples b = drop (length vs - 200) (map snd vs)
    \<and> bl_min b = Fin (Min ((fin_val \<circ> snd) ` set vs)) \<and> bl_max b = Fin (Max ((fin_val \<circ> snd) ` set vs))
    \<and> bl_last b = snd (List.last vs)"
  using update_values_get [OF assms(1) assms(2) assms(3) assms(5) assms(6)]
    baseline_steps_summary [OF assms(3,4), of sc m]
  by (auto simp: maxSamples_def)


theorem baseline_summarizes_values_witness:
  "\<exists>b. baseline_get (badger_store mem_badger) \<lparr>co_encode = Some, co_decode = Some\<rparr> ''s'' ''m''
      [(''baselines/s::m'', baseline_step 1 (Fin 4) (new_baseline ''s'' ''m'' (Fin 4)))] = Inr b
    \<and> bl_count b = int (length [(1 :: int, Fin 4)])
    \<and> bl_samples b = drop (length [(1 :: int, Fin 4)] - 200) (map snd [(1 :: int, Fin 4)])
    \<and> bl_min b = Fin (Min ((fin_val \<circ> snd) ` set [(1 :: int, Fin 4)]))
    \<and> bl_max b = Fin (Max ((fin_val \<circ> snd) ` set [(1 :: int, Fin 4)]))
    \<and> bl_last b = snd (List.last [(1 :: int, Fin 4)])"
proof (rule baseline_summarizes_values [where d = "[]", OF mem.badger_db_axioms])
  show "baseline_get (badger_store mem_badger) \<lparr>co_encode = Some, co_decode = Some\<rparr> ''s'' ''m'' []
      = Inl (BaselineStore ErrNotFound)"
    by (simp add: baseline_get_def badger_store_def badger_get_def mem_badger_def mem_get_def baselineBucket_def baselineKey_def)
  then show "update_values (badger_store mem_badger) \<lparr>co_encode = Some, co_decode = Some\<rparr> ''s'' ''m'' [(1, Fin 4)] []
      = Inr [(''baselines/s::m'', baseline_step 1 (Fin 4) (new_baseline ''s'' ''m'' (Fin 4)))]"
    by (simp add: baseline_update_def baseline_put_def badger_store_def badger_put_def mem_badger_def mem_set_def
        makeKey_def baselineBucket_def baselineKey_def run_simps new_baseline_def Let_def)
qed (simp_all add: codec_keeps_def is_finite_def)

text \<open>C28 Over a run of drift checks of one metric the verdicts are those of the counter specification: a check
  reports drift exactly when it and the checks right before it were anomalous, \<open>consecutive\<close> of them at
  least (one, when the parameter is below one), each judged against the same recorded statistics.\<close>

theorem drift_after_consecutive:
  assumes "badger_db D" "\<And>b. codec_keeps C b"
    and "baseline_get (badger_store D) C sc m d = Inr b0" "bl_scanner b0 = sc" "bl_metric b0 = m" "bl_drift b0 = 0"
    and "detect_values (badger_store D) C sc m k vs d = Inr (verdicts, d')"
  shows "verdicts =
    map (\<lambda>i. max 1 k \<le> int (trailing (\<lambda>(now, v). fst (judge b0 v)) (take (Suc i) vs))) [0..<length vs]"
  using detect_values_get [OF assms] by (intro nth_equalityI) auto

definition young_baseline :: baseline where
  "young_baseline = new_baseline ''s'' ''m'' (Fin 4)"

theorem drift_after_consecutive_witness:
  "[False] = map (\<lambda>i. max 1 3 \<le>
     int (trailing (\<lambda>(now, v). fst (judge young_baseline v)) (take (Suc i) [(9 :: int, Fin 5)]))) [0..<length [(9 :: int, Fin 5)]]"
proof (rule drift_after_consecutive [OF mem.badger_db_axioms, where C = "\<lparr>co_encode = Some, co_decode = Some\<rparr>"])
  show g: "baseline_get (badger_store mem_badger) \<lparr>co_encode = Some, co_decode = Some\<rparr> ''s'' ''m''
      [(''baselines/s::m'', young_baseline)] = Inr young_baseline"
    by (simp add: baseline_get_def badger_store_def badger_get_def mem_badger_def mem_get_def baselineBucket_def
        baselineKey_def makeKey_def)
  have j: "judge young_baseline (Fin 5) = (False, InsufficientSamples)"
    by (simp add: judge_def young_baseline_def new_baseline_def minSamples_def)
  show "detect_values (badger_store mem_badger) \<lparr>co_encode = Some, co_decode = Some\<rparr> ''s'' ''m'' 3 [(9, Fin 5)]
      [(''baselines/s::m'', young_baseline)]
      = Inr ([False], [(''baselines/s::m'', young_baseline\<lparr>bl_drift := 0, bl_last := Fin 5, bl_updated := 9\<rparr>)])"
    using g by (simp add: DetectDrift_def IsAnomaly_def j baseline_put_def badger_store_def badger_put_def
        mem_badger_def mem_set_def makeKey_def baselineBucket_def baselineKey_def Let_def)
      (simp add: young_baseline_def new_baseline_def)
qed (simp_all add: codec_keeps_def young_baseline_def new_baseline_def)

end
