(* ===== verification/Signatures.thy ===== *)
theory Signatures
  imports Config Storage
begin

text \<open>
  The status of the signature updates and where it is kept, \<open>internal/signatures/store.go\<close>. What the
  updater hands to the API is a status or an error; the updater itself is in \<open>SigUpdate\<close>.
\<close>

record source_status =
  ss_source :: string
  ss_url :: string
  ss_path :: string
  ss_bytes :: int
  ss_updated :: int
  ss_duration :: string
  ss_error :: string

record sig_status =
  sig_last_run :: int
  sig_next_run :: int
  sig_airgap :: bool
  sig_airgap_path :: string
  sig_sources :: "source_status gomap"

definition signaturesBucket :: string where "signaturesBucket = ''signatures''"
definition signaturesStatusKey :: string where "signaturesStatusKey = ''status''"

definition empty_sig_status :: sig_status where
  "empty_sig_status =
     \<lparr>sig_last_run = zero_time, sig_next_run = zero_time, sig_airgap = False, sig_airgap_path = [], sig_sources = []\<rparr>"

definition SaveStatus ::
  "('d, 'b) store_ops \<Rightarrow> (sig_status, 'b) codec \<Rightarrow> sig_status \<Rightarrow> 'd \<Rightarrow> (store_error, 'd) result" where
  "SaveStatus S C st d =
     (case co_encode C st of
        None \<Rightarrow> Inl EncodeError
      | Some raw \<Rightarrow> so_put S signaturesBucket signaturesStatusKey raw d)"

definition LoadStatus ::
  "('d, 'b) store_ops \<Rightarrow> (sig_status, 'b) codec \<Rightarrow> 'd \<Rightarrow> (store_error, sig_status) result" where
  "LoadStatus S C d =
     (case so_get S signaturesBucket signaturesStatusKey d of
        Inl e \<Rightarrow> if e = ErrNotFound then Inr empty_sig_status else Inl e
      | Inr raw \<Rightarrow> (case co_decode C raw of None \<Rightarrow> Inl DecodeError | Some st \<Rightarrow> Inr st))"

lemma LoadStatus_SaveStatus:
  assumes "badger_db D" "SaveStatus (badger_store D) C st d = Inr d'"
    and "\<And>raw. co_encode C st = Some raw \<Longrightarrow> co_decode C raw = Some st"
  shows "LoadStatus (badger_store D) C d' = Inr st"
  using assms badger_db.store_put_get [OF assms(1)]
  by (auto simp: SaveStatus_def LoadStatus_def badger_store_def split: option.splits)

end
