(* ===== verification/ApiServer.thy ===== *)
theory ApiServer
  imports HttpMux SchedulerRun ResultCache Detection Signatures WebApi
begin

text \<open>
  The HTTP API, \<open>internal/api/server.go\<close>: the routes, the token check in front of every handler, the
  handlers with the documents they send, the metrics text and the CSV exports. The handlers read the
  components they hold; only the manual trigger changes the world. Time formatting and the texts of
  errors that come from other packages are parameters (\<open>formats\<close>); the document of a plugin's own
  result is one too, since its metadata may hold any value.
\<close>

section \<open>The server and its parameters\<close>

record formats =
  fo_json_time :: "int \<Rightarrow> string" \<comment> \<open>the JSON form of \<open>time.Time\<close>\<close>
  fo_rfc3339 :: "int \<Rightarrow> string"
  fo_error :: "job_error \<Rightarrow> string" \<comment> \<open>\<open>err.Error()\<close>\<close>
  fo_store_error :: "store_error \<Rightarrow> string"
  fo_result :: "scan_result \<Rightarrow> json option" \<comment> \<open>\<open>None\<close> when the encoder fails\<close>
  fo_baseline :: "baseline \<Rightarrow> json option"

record ('w, 'd) api =
  ap_token :: string
  ap_euid0 :: bool
  ap_mgr :: "'w manager"
  ap_plugin_order :: "'w plugin range_order"
  ap_sched :: "'d sched"
  ap_job_order :: "nat range_order"
  ap_cache :: result_cache
  ap_latest_order :: "scan_result range_order"
  ap_baselines :: "(store_error, baseline list option) result option" \<comment> \<open>the listing, or no manager\<close>
  ap_results :: "(store_error, scan_result list) result option"
  ap_signatures :: "(store_error, sig_status) result option"
  ap_update :: "(string, sig_status) result option" \<comment> \<open>what a triggered update would return\<close>

section \<open>Documents\<close>

text \<open>Go encodes a map with its keys sorted.\<close>

definition map_doc :: "('a \<Rightarrow> json) \<Rightarrow> 'a gomap \<Rightarrow> json" where
  "map_doc f m = JObj (foldr (\<lambda>(k, v) acc. key_insert k (f v) acc) m [])"

definition jint :: "int \<Rightarrow> json" where "jint i = JNum (of_int i)"

definition error_doc :: "string \<Rightarrow> json" where
  "error_doc msg = JObj [(''error'', JStr msg)]"

definition opt_strings :: "string \<Rightarrow> string gomap \<Rightarrow> (string \<times> json) list" where
  "opt_strings k m = (if m = [] then [] else [(k, map_doc JStr m)])"

definition summary_doc :: "formats \<Rightarrow> result_summary \<Rightarrow> json" where
  "summary_doc F s =
     JObj ([(''scanner_name'', JStr (rs_scanner s)), (''status'', JStr (rs_status s)),
       (''findings'', jint (int (rs_findings s))), (''started_at'', JStr (fo_json_time F (rs_started s))),
       (''finished_at'', JStr (fo_json_time F (rs_finished s))), (''duration'', jint (rs_duration s))]
       @ opt_strings ''metadata'' (rs_metadata s))"

definition finding_doc :: "formats \<Rightarrow> finding_summary \<Rightarrow> json" where
  "finding_doc F f =
     JObj ([(''scanner_name'', JStr (fd_scanner f)), (''severity'', JStr (fd_severity f)),
       (''category'', JStr (fd_category f)), (''description'', JStr (fd_description f)),
       (''occurred_at'', JStr (fo_json_time F (fd_occurred f)))]
       @ opt_strings ''evidence'' (fd_evidence f))"

definition job_doc :: "job_config \<Rightarrow> json" where
  "job_doc c =
     JObj [(''Name'', JStr (jc_name c)), (''Plugin'', JStr (jc_plugin c)), (''Schedule'', JStr (jc_schedule c)),
       (''Timeout'', jint (jc_timeout c)), (''MaxRetries'', jint (jc_max_retries c)),
       (''RetryBackoff'', jint (jc_backoff c)), (''RetryMax'', jint (jc_retry_max c)),
       (''AllowOverlap'', JBool (jc_overlap c)), (''RunOnStart'', JBool (jc_run_on_start c))]"

definition state_doc :: "formats \<Rightarrow> job_state \<Rightarrow> json" where
  "state_doc F s =
     JObj [(''last_run'', JStr (fo_json_time F (js_last_run s))),
       (''last_success'', JStr (fo_json_time F (js_last_success s))),
       (''last_error'', JStr (fo_json_time F (js_last_error s))), (''last_status'', JStr (js_last_status s)),
       (''last_error_message'', JStr (case js_error_message s of None \<Rightarrow> [] | Some e \<Rightarrow> fo_error F e)),
       (''consecutive_failures'', jint (js_failures s))]"

definition source_doc :: "formats \<Rightarrow> source_status \<Rightarrow> json" where
  "source_doc F s =
     JObj [(''source'', JStr (ss_source s)), (''url'', JStr (ss_url s)), (''path'', JStr (ss_path s)),
       (''bytes'', jint (ss_bytes s)), (''updated_at'', JStr (fo_json_time F (ss_updated s))),
       (''duration'', JStr (ss_duration s)), (''error'', JStr (ss_error s))]"

definition sig_doc :: "formats \<Rightarrow> sig_status \<Rightarrow> json" where
  "sig_doc F s =
     JObj [(''last_run'', JStr (fo_json_time F (sig_last_run s))),
       (''next_run'', JStr (fo_json_time F (sig_next_run s))), (''airgap_mode'', JBool (sig_airgap s)),
       (''airgap_import_path'', JStr (sig_airgap_path s)),
       (''sources'', map_doc (source_doc F) (sig_sources s))]"

text \<open>A list of documents, if every element encodes.\<close>

fun docs :: "('a \<Rightarrow> json option) \<Rightarrow> 'a list \<Rightarrow> json list option" where
  "docs f [] = Some []"
| "docs f (x # xs) =
     (case (f x, docs f xs) of (Some j, Some js) \<Rightarrow> Some (j # js) | _ \<Rightarrow> None)"

section \<open>Responses\<close>

text \<open>\<open>writeJSON\<close>: the status is sent first, an encoder failure then leaves the body empty.\<close>

definition writeJSON :: "int \<Rightarrow> json option \<Rightarrow> http_response" where
  "writeJSON code doc =
     \<lparr>hs_status = code, hs_type = ''application/json'', hs_location = [],
      hs_body = (case doc of Some j \<Rightarrow> JsonBody j | None \<Rightarrow> NoBody)\<rparr>"

definition text_response :: "string \<Rightarrow> string \<Rightarrow> http_response" where
  "text_response ctype txt = \<lparr>hs_status = 200, hs_type = ctype, hs_location = [], hs_body = TextBody txt\<rparr>"

section \<open>CSV\<close>

text \<open>\<open>encoding/csv\<close>: when a field is quoted, and a record.\<close>

definition csv_needs_quotes :: "string \<Rightarrow> bool" where
  "csv_needs_quotes s \<longleftrightarrow>
     s \<noteq> [] \<and> (s = [CHR 0x5C, CHR ''.''] \<or> list_ex (\<lambda>c. c \<in> {CHR '','', CHR 0x22, CHR 0x0D, CHR 0x0A}) s
       \<or> is_space (hd s))"

definition csv_field :: "string \<Rightarrow> string" where
  "csv_field s =
     (if csv_needs_quotes s
      then CHR 0x22 # concat (map (\<lambda>c. if c = CHR 0x22 then [c, c] else [c]) s) @ [CHR 0x22] else s)"

fun csv_record :: "string list \<Rightarrow> string" where
  "csv_record [] = [newline]"
| "csv_record [s] = csv_field s @ [newline]"
| "csv_record (s # t # ss) = csv_field s @ '','' @ csv_record (t # ss)"

definition writeCSV :: "string list \<Rightarrow> string list list \<Rightarrow> http_response" where
  "writeCSV headers rows = text_response ''text/csv'' (concat (map csv_record (headers # rows)))"

text \<open>\<open>%f\<close>: six decimals of the exact value, ties to even.\<close>

definition fmt_f6 :: "f64 \<Rightarrow> string" where
  "fmt_f6 x =
     (case x of
        NaN \<Rightarrow> ''NaN'' | PosInf \<Rightarrow> ''+Inf'' | NegInf \<Rightarrow> ''-Inf''
      | Fin q \<Rightarrow>
          let n = nat (round_half_even (\<bar>q\<bar> * 1000000));
              m = show_nat (n div 1000000) @ ''.'' @ pad_zeros 6 (show_nat (n mod 1000000))
          in if q < 0 then CHR ''-'' # m else m)"

definition resultsToRows :: "formats \<Rightarrow> scan_result list \<Rightarrow> string list list" where
  "resultsToRows F rs =
     map (\<lambda>r. [r_scanner r, r_status r, show_nat (length (r_findings r)), fo_rfc3339 F (r_started r),
       fo_rfc3339 F (r_finished r), duration_string (r_duration r)]) rs"

definition baselinesToRows :: "formats \<Rightarrow> baseline list \<Rightarrow> string list list" where
  "baselinesToRows F bs =
     map (\<lambda>b. [bl_scanner b, bl_metric b, show_int (bl_count b), fmt_f6 (bl_mean b), fmt_f6 (bl_min b),
       fmt_f6 (bl_max b), fo_rfc3339 F (bl_updated b)]) bs"

section \<open>Metrics\<close>

definition metric_gauges :: "('w, 'd) api \<Rightarrow> (string \<times> int) list" where
  "metric_gauges A =
     [(''arcsent_up'', 1), (''arcsent_running_as_root'', if ap_euid0 A then 1 else 0),
      (''arcsent_plugins_total'', int (length (manager_list (ap_plugin_order A) (ap_mgr A)))),
      (''arcsent_jobs_total'', int (length (ListJobs (ap_job_order A) (ap_sched A)))),
      (''arcsent_results_total'', int (length (cache_history (ap_cache A)))),
      (''arcsent_findings_total'', int (length (FindingsHistory (ap_cache A))))]
     @ (case ap_signatures A of
          Some (Inr st) \<Rightarrow>
            [(''arcsent_signatures_sources_total'', int (length (sig_sources st))),
             (''arcsent_signatures_sources_ok_total'',
                int (length (filter (\<lambda>(k, src). ss_error src = []) (sig_sources st))))]
            @ (if is_zero_time (sig_last_run st) then []
               else [(''arcsent_signatures_last_run_timestamp_seconds'', sig_last_run st div 1000000000)])
            @ (if is_zero_time (sig_next_run st) then []
               else [(''arcsent_signatures_next_run_timestamp_seconds'', sig_next_run st div 1000000000)])
        | _ \<Rightarrow> [])"

definition writeGauge :: "string \<times> int \<Rightarrow> string" where
  "writeGauge g = fst g @ '' '' @ show_int (snd g) @ [newline]"

definition buildMetrics :: "('w, 'd) api \<Rightarrow> string" where
  "buildMetrics A = concat (map writeGauge (metric_gauges A))"

section \<open>Handlers\<close>

datatype api_route =
    RHealth | RStatus | RScanners | RTrigger | RResultsLatest | RResultsHistory | RFindings | RBaselines
  | RExportResults | RExportBaselines | RSignaturesStatus | RSignaturesUpdate | RMetrics

definition api_paths :: "(string \<times> api_route) list" where
  "api_paths =
     [(''/health'', RHealth), (''/status'', RStatus), (''/scanners'', RScanners),
      (''/scanners/trigger/'', RTrigger), (''/results/latest'', RResultsLatest),
      (''/results/history'', RResultsHistory), (''/findings'', RFindings), (''/baselines'', RBaselines),
      (''/export/results'', RExportResults), (''/export/baselines'', RExportBaselines),
      (''/signatures/status'', RSignaturesStatus), (''/signatures/update'', RSignaturesUpdate),
      (''/metrics'', RMetrics)]"

text \<open>\<open>register\<close>: every path, and the same path under \<open>/api\<close>.\<close>

definition api_routes :: "(string \<times> api_route) list" where
  "api_routes = concat (map (\<lambda>(p, r). [(p, r), (''/api'' @ p, r)]) api_paths)"

definition trigger_prefix :: string where
  "trigger_prefix = ''/scanners/trigger/''"

definition handleTrigger ::
  "formats \<Rightarrow> 'w env \<Rightarrow> ('w, 'd) api \<Rightarrow> http_request \<Rightarrow> 'w \<Rightarrow> http_response \<times> scan_result option \<times> 'w" where
  "handleTrigger F E A r w =
     (let name = trim_prefix (hq_path r) trigger_prefix in
      if name = [] then (writeJSON 400 (Some (error_doc ''scanner name required'')), None, w)
      else case RunOnce E (ap_mgr A) name 0 w of
        ((res, Some e), out, w') \<Rightarrow> (writeJSON 400 (Some (error_doc (fo_error F e))), out, w')
      | ((None, None), out, w') \<Rightarrow> (writeJSON 200 (Some JNull), out, w')
      | ((Some res, None), out, w') \<Rightarrow> (writeJSON 200 (fo_result F res), out, w'))"

definition handleScanners :: "formats \<Rightarrow> ('w, 'd) api \<Rightarrow> http_response" where
  "handleScanners F A =
     (let jobs = ListJobs (ap_job_order A) (ap_sched A);
          states = List.map_filter (\<lambda>c.
            case JobState (ap_sched A) (jc_name c) of
              None \<Rightarrow> None
            | Some st \<Rightarrow> Some (jc_name c, JObj [(''next_run'', JStr (fo_json_time F
                  (case NextRun (ap_sched A) (jc_name c) of Some t \<Rightarrow> t | None \<Rightarrow> zero_time))),
                (''state'', state_doc F st)])) jobs
      in writeJSON 200 (Some (JObj
           [(''jobs'', JArr (map job_doc jobs)),
            (''plugins'', JArr (map JStr (manager_list (ap_plugin_order A) (ap_mgr A)))),
            (''states'', map_doc id states)])))"

definition handleFindings :: "formats \<Rightarrow> ('w, 'd) api \<Rightarrow> http_response" where
  "handleFindings F A = writeJSON 200 (Some (JArr (map (finding_doc F) (FindingsHistory (ap_cache A)))))"

text \<open>The list or \<open>null\<close> of a listing of baselines.\<close>

definition baselines_doc :: "formats \<Rightarrow> baseline list option \<Rightarrow> json option" where
  "baselines_doc F bs =
     (case bs of None \<Rightarrow> Some JNull | Some l \<Rightarrow> map_option JArr (docs (fo_baseline F) l))"

definition handleBaselines :: "formats \<Rightarrow> ('w, 'd) api \<Rightarrow> http_response" where
  "handleBaselines F A =
     (case ap_baselines A of
        None \<Rightarrow> writeJSON 200 (Some (JArr []))
      | Some (Inl e) \<Rightarrow> writeJSON 500 (Some (error_doc (fo_store_error F e)))
      | Some (Inr bs) \<Rightarrow> writeJSON 200 (baselines_doc F bs))"

definition handleExportResults :: "formats \<Rightarrow> ('w, 'd) api \<Rightarrow> http_request \<Rightarrow> http_response" where
  "handleExportResults F A r =
     (case ap_results A of
        None \<Rightarrow> writeJSON 200 (Some (JArr []))
      | Some (Inl e) \<Rightarrow> writeJSON 500 (Some (error_doc (fo_store_error F e)))
      | Some (Inr rs) \<Rightarrow>
          if query_get r ''format'' = ''csv''
          then writeCSV [''scanner'', ''status'', ''findings'', ''started_at'', ''finished_at'', ''duration'']
                 (resultsToRows F rs)
          else writeJSON 200 (map_option JArr (docs (fo_result F) rs)))"

definition handleExportBaselines :: "formats \<Rightarrow> ('w, 'd) api \<Rightarrow> http_request \<Rightarrow> http_response" where
  "handleExportBaselines F A r =
     (case ap_baselines A of
        None \<Rightarrow> writeJSON 200 (Some (JArr []))
      | Some (Inl e) \<Rightarrow> writeJSON 500 (Some (error_doc (fo_store_error F e)))
      | Some (Inr bs) \<Rightarrow>
          if query_get r ''format'' = ''csv''
          then writeCSV [''scanner'', ''metric'', ''count'', ''mean'', ''min'', ''max'', ''updated_at'']
                 (baselinesToRows F (case bs of None \<Rightarrow> [] | Some l \<Rightarrow> l))
          else writeJSON 200 (baselines_doc F bs))"

definition handleSignaturesStatus :: "formats \<Rightarrow> ('w, 'd) api \<Rightarrow> http_response" where
  "handleSignaturesStatus F A =
     (case ap_signatures A of
        None \<Rightarrow> writeJSON 200 (Some (JObj []))
      | Some (Inl e) \<Rightarrow> writeJSON 500 (Some (error_doc (fo_store_error F e)))
      | Some (Inr st) \<Rightarrow> writeJSON 200 (Some (sig_doc F st)))"

definition handleSignaturesUpdate :: "formats \<Rightarrow> ('w, 'd) api \<Rightarrow> http_request \<Rightarrow> http_response" where
  "handleSignaturesUpdate F A r =
     (if hq_method r \<noteq> ''POST'' then writeJSON 405 (Some (error_doc ''POST required''))
      else case ap_update A of
        None \<Rightarrow> writeJSON 400 (Some (error_doc ''signatures updater not configured''))
      | Some (Inl e) \<Rightarrow> writeJSON 400 (Some (error_doc e))
      | Some (Inr st) \<Rightarrow> writeJSON 200 (Some (sig_doc F st)))"

text \<open>Every handler but the trigger's only reads.\<close>

definition reply :: "http_response \<Rightarrow> 'w \<Rightarrow> http_response \<times> scan_result option \<times> 'w" where
  "reply resp w = (resp, None, w)"

fun api_handle ::
  "formats \<Rightarrow> 'w env \<Rightarrow> ('w, 'd) api \<Rightarrow> api_route \<Rightarrow> http_request \<Rightarrow> 'w
     \<Rightarrow> http_response \<times> scan_result option \<times> 'w" where
  "api_handle F E A RHealth r = reply (writeJSON 200 (Some (JObj [(''status'', JStr ''ok'')])))"
| "api_handle F E A RStatus r =
     reply (writeJSON 200 (Some (JObj [(''running_as_root'', JBool (ap_euid0 A)), (''status'', JStr ''running'')])))"
| "api_handle F E A RScanners r = reply (handleScanners F A)"
| "api_handle F E A RTrigger r = handleTrigger F E A r"
| "api_handle F E A RResultsLatest r =
     reply (writeJSON 200 (Some (JArr (map (summary_doc F) (cache_latest (ap_latest_order A) (ap_cache A))))))"
| "api_handle F E A RResultsHistory r =
     reply (writeJSON 200 (Some (JArr (map (summary_doc F) (cache_history (ap_cache A))))))"
| "api_handle F E A RFindings r = reply (handleFindings F A)"
| "api_handle F E A RBaselines r = reply (handleBaselines F A)"
| "api_handle F E A RExportResults r = reply (handleExportResults F A r)"
| "api_handle F E A RExportBaselines r = reply (handleExportBaselines F A r)"
| "api_handle F E A RSignaturesStatus r = reply (handleSignaturesStatus F A)"
| "api_handle F E A RSignaturesUpdate r = reply (handleSignaturesUpdate F A r)"
| "api_handle F E A RMetrics r = reply (text_response ''text/plain; version=0.0.4'' (buildMetrics A))"

section \<open>Authorisation and dispatch\<close>

definition request_token :: "http_request \<Rightarrow> string" where
  "request_token r = (if hq_auth r = [] then query_get r ''token'' else hq_auth r)"

definition authorized :: "string \<Rightarrow> http_request \<Rightarrow> bool" where
  "authorized secret r \<longleftrightarrow> secret = [] \<or> request_token r = secret"

definition withAuth ::
  "('w, 'd) api \<Rightarrow> (http_request \<Rightarrow> 'w \<Rightarrow> http_response \<times> scan_result option \<times> 'w) \<Rightarrow> http_request \<Rightarrow> 'w
     \<Rightarrow> http_response \<times> scan_result option \<times> 'w" where
  "withAuth A next r w =
     (if ap_token A \<noteq> [] \<and> request_token r \<noteq> ap_token A then (plain_response 401, None, w) else next r w)"

definition redirect_response :: "string \<Rightarrow> http_response" where
  "redirect_response loc = \<lparr>hs_status = 301, hs_type = [], hs_location = loc, hs_body = NoBody\<rparr>"

definition api_serve ::
  "formats \<Rightarrow> 'w env \<Rightarrow> ('w, 'd) api \<Rightarrow> http_request \<Rightarrow> 'w \<Rightarrow> http_response \<times> scan_result option \<times> 'w" where
  "api_serve F E A r w =
     (case serve_mux api_routes (hq_path r) of
        MuxNotFound \<Rightarrow> (plain_response 404, None, w)
      | MuxRedirect loc \<Rightarrow> (redirect_response loc, None, w)
      | MuxRoute route \<Rightarrow> withAuth A (api_handle F E A route) r w)"

section \<open>Facts about the routes\<close>

lemma serve_fixed_paths:
  "list_all (\<lambda>(p, r). r = RTrigger \<or> serve_mux api_routes p = MuxRoute r
     \<and> serve_mux api_routes (''/api'' @ p) = MuxRoute r) api_paths"
  by code_simp

lemma serve_fixed:
  "(p, r) \<in> set api_paths \<Longrightarrow> r \<noteq> RTrigger \<Longrightarrow>
     serve_mux api_routes p = MuxRoute r \<and> serve_mux api_routes (''/api'' @ p) = MuxRoute r"
  using serve_fixed_paths by (auto simp: list_all_iff)

lemma api_routes_domain:
  "map_of api_routes p \<noteq> None \<Longrightarrow> p \<in> set (map fst api_routes)"
  by (metis map_of_eq_None_iff set_map)

lemma no_route_below_trigger:
  assumes "plain_segment name"
  shows "map_of api_routes (''/scanners/trigger/'' @ name) = None"
    and "map_of api_routes (''/api/scanners/trigger/'' @ name) = None"
    and "map_of api_routes (''/scanners/trigger/'' @ name @ ''/'') = None"
    and "map_of api_routes (''/api/scanners/trigger/'' @ name @ ''/'') = None"
  using assms by (auto simp: api_routes_def api_paths_def plain_segment_def)

lemma best_below_trigger:
  "map_option snd (best_subtree api_routes (''/scanners/trigger/'' @ name)) = Some RTrigger"
  "map_option snd (best_subtree api_routes (''/api/scanners/trigger/'' @ name)) = Some RTrigger"
  by (simp_all add: api_routes_def api_paths_def has_suffix_def has_prefix_def Let_def)

lemma serve_trigger:
  assumes "plain_segment name"
  shows "serve_mux api_routes (''/scanners/trigger/'' @ name) = MuxRoute RTrigger"
    and "serve_mux api_routes (''/api/scanners/trigger/'' @ name) = MuxRoute RTrigger"
proof -
  have "clean_path (CHR ''/'' # join_slash [''scanners'', ''trigger'', name])
      = CHR ''/'' # join_slash [''scanners'', ''trigger'', name]"
    using assms by (intro clean_path_plain) (auto simp: plain_segment_def)
  then have c1: "clean_path (''/scanners/trigger/'' @ name) = ''/scanners/trigger/'' @ name" by simp
  have "clean_path (CHR ''/'' # join_slash [''api'', ''scanners'', ''trigger'', name])
      = CHR ''/'' # join_slash [''api'', ''scanners'', ''trigger'', name]"
    using assms by (intro clean_path_plain) (auto simp: plain_segment_def)
  then have c2: "clean_path (''/api/scanners/trigger/'' @ name) = ''/api/scanners/trigger/'' @ name" by simp
  note none = no_route_below_trigger [OF assms]
  have f1: "mux_find api_routes (''/scanners/trigger/'' @ name) = Some RTrigger"
    unfolding mux_find_def none option.case by (rule best_below_trigger)
  have f2: "mux_find api_routes (''/api/scanners/trigger/'' @ name) = Some RTrigger"
    unfolding mux_find_def none option.case by (rule best_below_trigger)
  show "serve_mux api_routes (''/scanners/trigger/'' @ name) = MuxRoute RTrigger"
    unfolding serve_mux_def Let_def c1 f1 append_assoc none(3) by simp
  show "serve_mux api_routes (''/api/scanners/trigger/'' @ name) = MuxRoute RTrigger"
    unfolding serve_mux_def Let_def c2 f2 append_assoc none(4) by simp
qed

section \<open>Facts about authorisation\<close>

text \<open>
  The contract of a token check around a handler, which both servers' checks meet: a request with the
  token goes through, any other is answered 401 and reaches nothing.
\<close>

locale token_guard =
  fixes secret :: string
    and guard :: "(http_request \<Rightarrow> 'w \<Rightarrow> http_response \<times> scan_result option \<times> 'w)
      \<Rightarrow> http_request \<Rightarrow> 'w \<Rightarrow> http_response \<times> scan_result option \<times> 'w"
  assumes passes: "authorized secret r \<Longrightarrow> guard next r w = next r w"
    and refuses: "\<not> authorized secret r \<Longrightarrow> guard next r w = (plain_response 401, None, w)"
begin

lemma guard_if: "guard next r w = (if authorized secret r then next r w else (plain_response 401, None, w))"
  by (simp add: passes refuses)

lemma guard_silent:
  assumes "\<not> authorized secret r"
  shows "hs_status (fst (guard next r w)) = 401" "hs_body (fst (guard next r w)) = NoBody"
    and "snd (guard next r w) = (None, w)"
  by (simp_all add: refuses [OF assms] plain_response_def)

lemma guard_idem: "guard (guard next) r w = guard next r w"
  by (simp add: guard_if)

end

text \<open>One check behind the other: a request passes both or is refused; with different tokens none passes.\<close>

locale nested_guards = outer: token_guard outer_secret outer + inner: token_guard inner_secret inner
  for outer_secret :: string
    and outer :: "(http_request \<Rightarrow> 'w \<Rightarrow> http_response \<times> scan_result option \<times> 'w)
      \<Rightarrow> http_request \<Rightarrow> 'w \<Rightarrow> http_response \<times> scan_result option \<times> 'w"
    and inner_secret :: string
    and inner :: "(http_request \<Rightarrow> 'w \<Rightarrow> http_response \<times> scan_result option \<times> 'w)
      \<Rightarrow> http_request \<Rightarrow> 'w \<Rightarrow> http_response \<times> scan_result option \<times> 'w"
begin

lemma nested_if:
  "outer (inner next) r w
     = (if authorized outer_secret r \<and> authorized inner_secret r then next r w else (plain_response 401, None, w))"
  by (simp add: outer.guard_if inner.guard_if)

lemma locked_out:
  assumes "outer_secret \<noteq> []" "inner_secret \<noteq> []" "outer_secret \<noteq> inner_secret"
  shows "outer (inner next) r w = (plain_response 401, None, w)"
  using assms by (auto simp: nested_if authorized_def)

end

interpretation api_guard: token_guard "ap_token A" "withAuth A" for A
  by unfold_locales (auto simp: withAuth_def authorized_def)

lemma withAuth_simps [run_simps]:
  "authorized (ap_token A) r \<Longrightarrow> withAuth A next r w = next r w"
  "\<not> authorized (ap_token A) r \<Longrightarrow> withAuth A next r w = (plain_response 401, None, w)"
  by (rule api_guard.passes api_guard.refuses; assumption)+

lemma api_serve_route:
  "serve_mux api_routes (hq_path r) = MuxRoute route \<Longrightarrow> authorized (ap_token A) r
     \<Longrightarrow> api_serve F E A r w = api_handle F E A route r w"
  by (simp add: api_serve_def run_simps)

lemma api_serve_refused:
  assumes "\<not> authorized (ap_token A) r"
  shows "hs_status (fst (api_serve F E A r w)) \<in> {401, 404, 301}
     \<and> hs_body (fst (api_serve F E A r w)) = NoBody \<and> snd (api_serve F E A r w) = (None, w)"
  using assms
  by (simp add: api_serve_def run_simps plain_response_def redirect_response_def split: mux_result.split)

section \<open>Facts about the trigger\<close>

lemma RunOnce_unknown:
  "map_of m name = None \<Longrightarrow> RunOnce E m name t w = ((None, Some (LookupFailed (PluginNotFound name))), None, w)"
  by (simp add: RunOnce_def manager_get_def)

lemma trim_trigger:
  "trim_prefix (''/scanners/trigger/'' @ name) trigger_prefix = name"
  "trim_prefix (''/api/scanners/trigger/'' @ name) trigger_prefix = ''/api/scanners/trigger/'' @ name"
  by (simp_all add: trigger_prefix_def trim_prefix_def has_prefix_def)

section \<open>Facts about the metrics\<close>

lemma writeGauge_gauge_text: "writeGauge g = gauge_text g @ [newline]"
  by (simp add: writeGauge_def gauge_text_def)

definition sample_formats :: formats where
  "sample_formats =
     \<lparr>fo_json_time = (\<lambda>t. ''2026-01-01T00:00:00Z''), fo_rfc3339 = (\<lambda>t. ''2026-01-01T00:00:00Z''),
      fo_error = (\<lambda>e. ''error''), fo_store_error = (\<lambda>e. ''error''), fo_result = (\<lambda>r. Some JNull),
      fo_baseline = (\<lambda>b. Some JNull)\<rparr>"

end
