(* ===== verification/WebServer.thy ===== *)
theory WebServer
  imports ApiServer
begin

text \<open>
  The server of the web interface, \<open>internal/webui/server.go\<close>: the token check in front of the proxy
  to the API, and the handler of the embedded single-page application. The embedded files and the
  standard file server over them are parameters, and so is the backend the proxy reaches. The
  reverse proxy of the standard library forwards method, path, query and the \<open>Authorization\<close> header
  as they are (the target URL has no path and no query) and returns the backend's response; it
  answers 502 when the backend cannot be reached.
\<close>

type_synonym 'w backend = "http_request \<Rightarrow> 'w \<Rightarrow> http_response \<times> scan_result option \<times> 'w"

record 'w webui =
  wu_token :: string
  wu_has_api :: bool \<comment> \<open>\<open>apiURL\<close> is not nil\<close>
  wu_backend :: "'w backend option" \<comment> \<open>\<open>None\<close> when nothing listens there\<close>
  wu_file_exists :: "string \<Rightarrow> bool"
  wu_file_server :: "http_request \<Rightarrow> http_response"
  wu_index :: "string option" \<comment> \<open>\<open>index.html\<close>\<close>

datatype web_route = WApi | WSpa

definition web_routes :: "(string \<times> web_route) list" where
  "web_routes = [(''/api/'', WApi), (''/'', WSpa)]"

definition proxyAPI :: "'w webui \<Rightarrow> 'w backend" where
  "proxyAPI W r w =
     (if \<not> wu_has_api W then (plain_response 503, None, w)
      else case wu_backend W of None \<Rightarrow> (plain_response 502, None, w) | Some b \<Rightarrow> b r w)"

definition withAuthHandler :: "'w webui \<Rightarrow> 'w backend \<Rightarrow> 'w backend" where
  "withAuthHandler W next r w =
     (if wu_token W \<noteq> [] \<and> request_token r \<noteq> wu_token W then (plain_response 401, None, w) else next r w)"

definition html_response :: "string \<Rightarrow> http_response" where
  "html_response name = \<lparr>hs_status = 200, hs_type = ''text/html; charset=utf-8'', hs_location = [], hs_body = FileBody name\<rparr>"

definition spa_handler :: "'w webui \<Rightarrow> http_request \<Rightarrow> http_response" where
  "spa_handler W r =
     (let path = trim_prefix (hq_path r) ''/'' in
      if path \<noteq> [] \<and> wu_file_exists W path then wu_file_server W r
      else case wu_index W of
        None \<Rightarrow> \<lparr>hs_status = 500, hs_type = ''text/plain; charset=utf-8'', hs_location = [],
                  hs_body = TextBody (''Web UI not built'' @ [newline])\<rparr>
      | Some page \<Rightarrow> html_response page)"

definition web_serve :: "'w webui \<Rightarrow> 'w backend" where
  "web_serve W r w =
     (case serve_mux web_routes (hq_path r) of
        MuxNotFound \<Rightarrow> (plain_response 404, None, w)
      | MuxRedirect loc \<Rightarrow> (redirect_response loc, None, w)
      | MuxRoute WApi \<Rightarrow> withAuthHandler W (proxyAPI W) r w
      | MuxRoute WSpa \<Rightarrow> (spa_handler W r, None, w))"

text \<open>The two servers as the daemon wires them: the web server's backend is the API's handler.\<close>

definition wired :: "formats \<Rightarrow> 'w env \<Rightarrow> ('w, 'd) api \<Rightarrow> 'w webui \<Rightarrow> bool" where
  "wired F E A W \<longleftrightarrow> wu_has_api W \<and> wu_backend W = Some (api_serve F E A)"

section \<open>Facts\<close>

lemma serve_web_api_paths:
  "list_all (\<lambda>(p, r). serve_mux web_routes (''/api'' @ p) = MuxRoute WApi) api_paths"
  by code_simp

lemma serve_web_api:
  "(p, r) \<in> set api_paths \<Longrightarrow> serve_mux web_routes (''/api'' @ p) = MuxRoute WApi"
  using serve_web_api_paths by (auto simp: list_all_iff)

lemma serve_web_trigger:
  assumes "plain_segment name"
  shows "serve_mux web_routes (''/api/scanners/trigger/'' @ name) = MuxRoute WApi"
proof -
  have "clean_path (CHR ''/'' # join_slash [''api'', ''scanners'', ''trigger'', name])
      = CHR ''/'' # join_slash [''api'', ''scanners'', ''trigger'', name]"
    using assms by (intro clean_path_plain) (auto simp: plain_segment_def)
  then have c: "clean_path (''/api/scanners/trigger/'' @ name) = ''/api/scanners/trigger/'' @ name" by simp
  have none: "map_of web_routes (''/api/scanners/trigger/'' @ name) = None"
    "map_of web_routes ((''/api/scanners/trigger/'' @ name) @ ''/'') = None" by (simp_all add: web_routes_def)
  have best: "map_option snd (best_subtree web_routes (''/api/scanners/trigger/'' @ name)) = Some WApi"
    by (simp add: web_routes_def has_suffix_def has_prefix_def Let_def)
  have "mux_find web_routes (''/api/scanners/trigger/'' @ name) = Some WApi"
    unfolding mux_find_def none option.case by (rule best)
  then show ?thesis unfolding serve_mux_def Let_def c none by simp
qed

interpretation web_guard: token_guard "wu_token W" "withAuthHandler W" for W
  by unfold_locales (auto simp: withAuthHandler_def authorized_def)

interpretation both_guards: nested_guards "wu_token W" "withAuthHandler W" "ap_token A" "withAuth A" for W A
  by unfold_locales

lemma web_serve_api:
  assumes "serve_mux web_routes (hq_path r) = MuxRoute WApi" "wired F E A W"
  shows "web_serve W r w = (if authorized (wu_token W) r then api_serve F E A r w else (plain_response 401, None, w))"
  using assms by (simp add: web_serve_def web_guard.guard_if proxyAPI_def wired_def)

text \<open>A request of the API through both servers passes both checks.\<close>

lemma web_serve_route:
  assumes "serve_mux web_routes (hq_path r) = MuxRoute WApi" "serve_mux api_routes (hq_path r) = MuxRoute route" "wired F E A W"
  shows "web_serve W r w = withAuthHandler W (withAuth A (api_handle F E A route)) r w"
  using assms by (simp add: web_serve_api web_guard.guard_if api_serve_def)

text \<open>Nothing below \<open>/api/\<close> reaches the backend without the web server's token.\<close>

lemma web_serve_refused:
  assumes "\<not> authorized (wu_token W) r"
  shows "snd (web_serve W r w) = (None, w)"
  using assms by (auto simp: web_serve_def web_guard.guard_silent split: mux_result.split web_route.split)

end
