(* ===== verification/Alerting.thy ===== *)
theory Alerting
  imports Config Scheduler
begin

text \<open>
  Alerting, \<open>internal/alerting/\<close>: the channels and their construction (\<open>factory.go\<close>, the four
  \<open>_channel.go\<close> files) and the engine with its deduplication, its bounded queue and its delivery loop
  (\<open>engine.go\<close>). The network below the channels is the parameter \<open>transport\<close>, the fingerprint's
  SHA-256 the parameter \<open>hash\<close>. Sleeping and the clock are those of the scheduler's \<open>env\<close>.
\<close>

section \<open>Alerts and channels\<close>

record alert =
  a_id :: string
  a_time :: int
  a_severity :: severity
  a_scanner :: string
  a_finding :: finding
  a_reason :: string

record email_config =
  em_server :: string
  em_user :: string
  em_pass :: string
  em_from :: string
  em_to :: "string list"
  em_subject :: string

text \<open>A syslog channel holds its writer, \<open>None\<close> when dialling failed.\<close>

datatype channel =
    LogChannel
  | WebhookChannel string "string list"
  | SyslogChannel "(string \<times> string \<times> string) option" "string list"
  | EmailChannel email_config "string list"

fun channel_name :: "channel \<Rightarrow> string" where
  "channel_name LogChannel = ''log''"
| "channel_name (WebhookChannel url sevs) = ''webhook''"
| "channel_name (SyslogChannel w sevs) = ''syslog''"
| "channel_name (EmailChannel cfg sevs) = ''email''"

definition or_default :: "string \<Rightarrow> string \<Rightarrow> string" where
  "or_default s d = (if s = [] then d else s)"

definition NewSyslogChannel ::
  "(string \<Rightarrow> string \<Rightarrow> string \<Rightarrow> bool) \<Rightarrow> string \<Rightarrow> string \<Rightarrow> string \<Rightarrow> string list \<Rightarrow> channel" where
  "NewSyslogChannel dial network address tag sevs =
     (let n = or_default network ''unixgram''; a = or_default address ''/dev/log''; t = or_default tag ''arcsent''
      in SyslogChannel (if dial n a t then Some (n, a, t) else None) sevs)"

text \<open>The severity names of the configuration; \<open>cmd\<close>'s runner has the same function.\<close>

definition parseSeverity :: "string \<Rightarrow> severity" where
  "parseSeverity value =
     (let v = to_lower value in
      if v = ''low'' then SeverityLow
      else if v = ''medium'' then SeverityMedium
      else if v = ''high'' then SeverityHigh
      else if v = ''critical'' then SeverityCritical
      else SeverityInfo)"

definition severityAllowed :: "string list \<Rightarrow> severity \<Rightarrow> bool" where
  "severityAllowed allow sev \<longleftrightarrow> allow = [] \<or> list_ex (\<lambda>v. parseSeverity v = sev) allow"

datatype channels_error = WebhookUrlRequired | UnknownChannelType string

fun build_channels ::
  "(string \<Rightarrow> string \<Rightarrow> string \<Rightarrow> bool) \<Rightarrow> channel_config list \<Rightarrow> channel list
     \<Rightarrow> (channels_error, channel list) result" where
  "build_channels dial [] acc = Inr acc"
| "build_channels dial (ch # chs) acc =
     (if \<not> cc_enabled ch then build_channels dial chs acc
      else if cc_type ch = ''log'' then build_channels dial chs (acc @ [LogChannel])
      else if cc_type ch = ''webhook'' then
        (if cc_url ch = [] then Inl WebhookUrlRequired
         else build_channels dial chs (acc @ [WebhookChannel (cc_url ch) (cc_severity ch)]))
      else if cc_type ch = ''syslog'' then
        build_channels dial chs (acc @ [NewSyslogChannel dial (cc_syslog_network ch) (cc_syslog_address ch)
          (cc_syslog_tag ch) (cc_severity ch)])
      else if cc_type ch = ''email'' then
        build_channels dial chs (acc @ [EmailChannel
          \<lparr>em_server = cc_smtp_server ch, em_user = cc_smtp_user ch, em_pass = cc_smtp_pass ch,
           em_from = cc_from ch, em_to = cc_to ch, em_subject = cc_subject ch\<rparr> (cc_severity ch)])
      else Inl (UnknownChannelType (cc_type ch)))"

definition BuildChannels ::
  "(string \<Rightarrow> string \<Rightarrow> string \<Rightarrow> bool) \<Rightarrow> alerting_config \<Rightarrow> (channels_error, channel list) result" where
  "BuildChannels dial cfg =
     bind_res (build_channels dial (al_channels cfg) []) (\<lambda>chs. Inr (if chs = [] then [LogChannel] else chs))"

section \<open>Sending on a channel\<close>

datatype syslog_level = LogErr | LogWarning | LogInfo

record mail =
  ml_server :: string
  ml_auth :: "(string \<times> string \<times> string) option"
  ml_from :: string
  ml_to :: "string list"
  ml_body :: string

record 'w transport =
  tr_log :: "alert \<Rightarrow> 'w \<Rightarrow> 'w"
  tr_post :: "string \<Rightarrow> alert \<Rightarrow> 'w \<Rightarrow> (string, int) result \<times> 'w" \<comment> \<open>an error, or the status code\<close>
  tr_syslog :: "string \<times> string \<times> string \<Rightarrow> syslog_level \<Rightarrow> string \<Rightarrow> 'w \<Rightarrow> string option \<times> 'w"
  tr_mail :: "mail \<Rightarrow> 'w \<Rightarrow> string option \<times> 'w"

datatype send_error = TransportError string | WebhookStatus int | SyslogUnavailable | EmailNotConfigured

definition crlf :: string where
  "crlf = [CHR 0x0D, CHR 0x0A]"

fun join_with :: "string \<Rightarrow> string list \<Rightarrow> string" where
  "join_with sep [] = []"
| "join_with sep [s] = s"
| "join_with sep (s # t # ss) = s @ sep @ join_with sep (t # ss)"

definition alert_mail :: "email_config \<Rightarrow> alert \<Rightarrow> mail" where
  "alert_mail cfg a =
     (let subject = or_default (em_subject cfg) ''ArCsent Alert'';
          body = ''Severity: '' @ a_severity a @ [newline] @ ''Scanner: '' @ a_scanner a @ [newline]
                 @ ''Description: '' @ f_description (a_finding a) @ [newline];
          msg = join_with crlf [''From: '' @ em_from cfg, ''To: '' @ join_with '','' (em_to cfg),
                  ''Subject: '' @ subject, [], body];
          auth = (if em_user cfg \<noteq> [] \<and> em_pass cfg \<noteq> []
                  then Some (em_user cfg, em_pass cfg, hd (split_on (CHR '':'') (em_server cfg))) else None)
      in \<lparr>ml_server = em_server cfg, ml_auth = auth, ml_from = em_from cfg, ml_to = em_to cfg, ml_body = msg\<rparr>)"

definition syslog_message :: "alert \<Rightarrow> string" where
  "syslog_message a = ''['' @ a_severity a @ ''] '' @ a_scanner a @ '' - '' @ f_description (a_finding a)"

definition syslog_level_of :: "severity \<Rightarrow> syslog_level" where
  "syslog_level_of sev =
     (if sev = SeverityCritical \<or> sev = SeverityHigh then LogErr
      else if sev = SeverityMedium then LogWarning else LogInfo)"

fun channel_send :: "'w transport \<Rightarrow> channel \<Rightarrow> alert \<Rightarrow> 'w \<Rightarrow> send_error option \<times> 'w" where
  "channel_send T LogChannel a w = (None, tr_log T a w)"
| "channel_send T (WebhookChannel url sevs) a w =
     (if \<not> severityAllowed sevs (a_severity a) then (None, w)
      else case tr_post T url a w of
        (Inl e, w') \<Rightarrow> (Some (TransportError e), w')
      | (Inr code, w') \<Rightarrow> (if code \<ge> 300 then Some (WebhookStatus code) else None, w'))"
| "channel_send T (SyslogChannel writer sevs) a w =
     (if \<not> severityAllowed sevs (a_severity a) then (None, w)
      else case writer of
        None \<Rightarrow> (Some SyslogUnavailable, w)
      | Some wr \<Rightarrow>
          (case tr_syslog T wr (syslog_level_of (a_severity a)) (syslog_message a) w of
             (err, w') \<Rightarrow> (map_option TransportError err, w')))"
| "channel_send T (EmailChannel cfg sevs) a w =
     (if \<not> severityAllowed sevs (a_severity a) then (None, w)
      else if em_server cfg = [] \<or> em_from cfg = [] \<or> em_to cfg = [] then (Some EmailNotConfigured, w)
      else case tr_mail T (alert_mail cfg a) w of (err, w') \<Rightarrow> (map_option TransportError err, w'))"

section \<open>The engine\<close>

record engine =
  en_channels :: "channel list"
  en_throttle :: int
  en_retry_max :: int
  en_backoff :: int
  en_enabled :: bool
  en_last_seen :: "int gomap"
  en_queue :: "alert list"

definition queue_capacity :: nat where
  "queue_capacity = 256"

definition parsed_or :: "int \<Rightarrow> string \<Rightarrow> int" where
  "parsed_or dflt s = (if s \<noteq> [] then (case parse_duration s of Some d \<Rightarrow> d | None \<Rightarrow> dflt) else dflt)"

definition engine_new :: "alerting_config \<Rightarrow> engine" where
  "engine_new cfg =
     \<lparr>en_channels = [], en_throttle = parsed_or (5 * minute) (al_dedup_window cfg),
      en_retry_max = (if al_retry_max cfg < 0 then 0 else al_retry_max cfg),
      en_backoff = parsed_or (2 * second) (al_retry_backoff cfg), en_enabled = al_enabled cfg,
      en_last_seen = [], en_queue = []\<rparr>"

definition engine_register :: "channel \<Rightarrow> engine \<Rightarrow> engine" where
  "engine_register ch e = e\<lparr>en_channels := en_channels e @ [ch]\<rparr>"

definition fingerprint_text :: "alert \<Rightarrow> string" where
  "fingerprint_text a =
     a_scanner a @ ''|'' @ a_severity a @ ''|'' @ f_id (a_finding a) @ ''|'' @ f_description (a_finding a)"

definition fingerprint :: "(string \<Rightarrow> string) \<Rightarrow> alert \<Rightarrow> string" where
  "fingerprint hash a = hash (fingerprint_text a)"

definition isThrottled :: "int \<Rightarrow> string \<Rightarrow> engine \<Rightarrow> bool \<times> engine" where
  "isThrottled now i e =
     (case map_of (en_last_seen e) i of
        Some seen \<Rightarrow>
          if time_sub now seen < en_throttle e then (True, e)
          else (False, e\<lparr>en_last_seen := obj_set (en_last_seen e) i now\<rparr>)
      | None \<Rightarrow> (False, e\<lparr>en_last_seen := obj_set (en_last_seen e) i now\<rparr>))"

definition stamp_alert :: "(string \<Rightarrow> string) \<Rightarrow> int \<Rightarrow> alert \<Rightarrow> alert" where
  "stamp_alert hash now a =
     (let a1 = (if a_id a = [] then a\<lparr>a_id := fingerprint hash a\<rparr> else a)
      in if is_zero_time (a_time a1) then a1\<lparr>a_time := now\<rparr> else a1)"

datatype send_outcome = Disabled | Throttled | Enqueued | Dropped

definition engine_send :: "(string \<Rightarrow> string) \<Rightarrow> int \<Rightarrow> alert \<Rightarrow> engine \<Rightarrow> send_outcome \<times> engine" where
  "engine_send hash now a0 e =
     (if \<not> en_enabled e then (Disabled, e)
      else let a = stamp_alert hash now a0; (throttled, e1) = isThrottled now (a_id a) e in
        if throttled then (Throttled, e1)
        else if length (en_queue e1) < queue_capacity then (Enqueued, e1\<lparr>en_queue := en_queue e1 @ [a]\<rparr>)
        else (Dropped, e1))"

text \<open>One turn of the worker: the oldest alert leaves the queue.\<close>

definition engine_take :: "engine \<Rightarrow> (alert \<times> engine) option" where
  "engine_take e = (case en_queue e of [] \<Rightarrow> None | a # q \<Rightarrow> Some (a, e\<lparr>en_queue := q\<rparr>))"

section \<open>Delivery\<close>

definition deliver_backoff :: "engine \<Rightarrow> nat \<Rightarrow> int" where
  "deliver_backoff e attempt = mul64 (en_backoff e) (shl64 1 attempt)"

function deliver_attempts ::
  "'w transport \<Rightarrow> 'w env \<Rightarrow> engine \<Rightarrow> channel \<Rightarrow> alert \<Rightarrow> nat \<Rightarrow> send_error option \<Rightarrow> 'w
     \<Rightarrow> send_error option \<times> 'w" where
  "deliver_attempts T E e ch a attempt err w =
     (if int attempt > en_retry_max e then (err, w)
      else case channel_send T ch a w of
        (None, w1) \<Rightarrow> (None, w1)
      | (Some er, w1) \<Rightarrow>
          deliver_attempts T E e ch a (Suc attempt) (Some er) (e_sleep E (deliver_backoff e attempt) w1))"
  by pat_completeness auto
termination
  by (relation "measure (\<lambda>(T, E, e, ch, a, attempt, err, w). nat (en_retry_max e + 1 - int attempt))") auto

declare deliver_attempts.simps [simp del]

text \<open>The channels in order; the errors are the lines logged.\<close>

fun deliver_to ::
  "'w transport \<Rightarrow> 'w env \<Rightarrow> engine \<Rightarrow> alert \<Rightarrow> channel list \<Rightarrow> 'w \<Rightarrow> (string \<times> send_error) list \<times> 'w" where
  "deliver_to T E e a [] w = ([], w)"
| "deliver_to T E e a (ch # chs) w =
     (case deliver_attempts T E e ch a 0 None w of
        (err, w1) \<Rightarrow>
          (case deliver_to T E e a chs w1 of
             (errs, w2) \<Rightarrow> ((case err of None \<Rightarrow> errs | Some er \<Rightarrow> (channel_name ch, er) # errs), w2)))"

definition deliver ::
  "'w transport \<Rightarrow> 'w env \<Rightarrow> engine \<Rightarrow> alert \<Rightarrow> 'w \<Rightarrow> (string \<times> send_error) list \<times> 'w" where
  "deliver T E e a w = deliver_to T E e a (en_channels e) w"

section \<open>The queue and the deduplication window\<close>

datatype engine_event = SendEvent int alert | WorkEvent

text \<open>A run of the engine, with the alerts that passed the deduplication: when, and their identity.\<close>

fun engine_handle ::
  "(string \<Rightarrow> string) \<Rightarrow> engine_event \<Rightarrow> engine \<times> (int \<times> string) list \<Rightarrow> engine \<times> (int \<times> string) list" where
  "engine_handle hash (SendEvent now a) (e, passed) =
     (case engine_send hash now a e of
        (out, e') \<Rightarrow>
          (e', if out = Enqueued \<or> out = Dropped then passed @ [(now, a_id (stamp_alert hash now a))] else passed))"
| "engine_handle hash WorkEvent (e, passed) =
     (case engine_take e of None \<Rightarrow> (e, passed) | Some (a, e') \<Rightarrow> (e', passed))"

definition engine_run ::
  "(string \<Rightarrow> string) \<Rightarrow> engine_event list \<Rightarrow> engine \<Rightarrow> engine \<times> (int \<times> string) list" where
  "engine_run hash evs e = foldl (\<lambda>st ev. engine_handle hash ev st) (e, []) evs"

definition engine_inv :: "engine \<Rightarrow> bool" where
  "engine_inv e \<longleftrightarrow> length (en_queue e) \<le> queue_capacity \<and> keys_distinct (en_last_seen e)"

lemma engine_inv_new [inv_intros]: "engine_inv (engine_new cfg)"
  by (simp add: engine_inv_def engine_new_def)

lemma isThrottled_simps [run_simps]:
  assumes "isThrottled now i e = (b, e')"
  shows "en_queue e' = en_queue e" "en_throttle e' = en_throttle e" "en_enabled e' = en_enabled e"
    "en_channels e' = en_channels e" "en_retry_max e' = en_retry_max e"
    "keys_distinct (en_last_seen e) \<Longrightarrow> keys_distinct (en_last_seen e')"
    "b \<Longrightarrow> e' = e" "\<not> b \<Longrightarrow> map_of (en_last_seen e') = (map_of (en_last_seen e))(i \<mapsto> now)"
  using assms by (auto simp: isThrottled_def distinct_obj_set split: option.splits if_splits)

lemma engine_inv_send [inv_intros]:
  assumes "engine_inv e" "engine_send hash now a e = (out, e')"
  shows "engine_inv e'"
proof (cases "en_enabled e")
  case True
  obtain b e1 where t: "isThrottled now (a_id (stamp_alert hash now a)) e = (b, e1)" by (metis prod.collapse)
  have "engine_inv e1" using isThrottled_simps(1,6) [OF t] assms(1) by (simp add: engine_inv_def)
  with True assms(2) t show ?thesis by (auto simp: engine_send_def Let_def engine_inv_def split: if_splits)
qed (use assms in \<open>simp add: engine_send_def\<close>)

lemma engine_inv_take [inv_intros]: "engine_inv e \<Longrightarrow> engine_take e = Some (a, e') \<Longrightarrow> engine_inv e'"
  by (auto simp: engine_inv_def engine_take_def split: list.splits)

lemma engine_run_snoc [simp]:
  "engine_run hash (evs @ [ev]) e = engine_handle hash ev (engine_run hash evs e)"
  by (simp add: engine_run_def)

lemma engine_run_inv: "engine_inv e \<Longrightarrow> engine_inv (fst (engine_run hash evs e))"
proof (induction evs rule: rev_induct)
  case (snoc ev evs)
  then obtain e1 ps where r: "engine_run hash evs e = (e1, ps)" and "engine_inv e1" by (metis prod.collapse)
  then show ?case
    by (cases ev) (auto split: prod.splits option.splits intro: inv_intros)
qed (simp add: engine_run_def)

fun event_time :: "engine_event \<Rightarrow> int option" where
  "event_time (SendEvent now a) = Some now"
| "event_time WorkEvent = None"

definition event_times :: "engine_event list \<Rightarrow> int list" where
  "event_times evs = List.map_filter event_time evs"

lemma event_times_snoc [simp]:
  "event_times (evs @ [SendEvent now a]) = event_times evs @ [now]"
  "event_times (evs @ [WorkEvent]) = event_times evs"
  by (simp_all add: event_times_def map_filter_def)

text \<open>What was last seen is the last passage; equal identities pass at least a window apart.\<close>

definition passes_apart :: "int \<Rightarrow> (int \<times> string) list \<Rightarrow> bool" where
  "passes_apart win ps \<longleftrightarrow> sorted_wrt (\<lambda>(t, i) (t', i'). i = i' \<longrightarrow> win \<le> time_sub t' t) ps"

lemma time_sub_mono: "t \<le> u \<Longrightarrow> time_sub v u \<le> time_sub v t"
  by (auto simp: time_sub_def min_int64_def max_int64_def)

lemma sorted_snoc: "sorted (xs @ [x :: int]) \<longleftrightarrow> sorted xs \<and> (\<forall>y \<in> set xs. y \<le> x)"
  by (auto simp: sorted_append)

lemma engine_run_passes:
  assumes "en_last_seen e = []" "sorted (event_times evs)" "engine_run hash evs e = (e', ps)"
  shows "passes_apart (en_throttle e) ps \<and> en_throttle e' = en_throttle e
     \<and> (\<forall>i. map_of (en_last_seen e') i = map_option fst (find (\<lambda>p. snd p = i) (rev ps)))
     \<and> sorted (map fst ps) \<and> set (map fst ps) \<subseteq> set (event_times evs)"
  using assms(2,3)
proof (induction evs arbitrary: e' ps rule: rev_induct)
  case Nil
  with assms(1) show ?case by (simp add: engine_run_def passes_apart_def)
next
  case (snoc ev evs)
  obtain e1 ps1 where r: "engine_run hash evs e = (e1, ps1)" by (metis prod.collapse)
  have "sorted (event_times evs)" using snoc.prems(1) by (cases ev) (simp_all add: sorted_snoc)
  from snoc.IH [OF this r] have IH: "passes_apart (en_throttle e) ps1" "en_throttle e1 = en_throttle e"
    "\<And>i. map_of (en_last_seen e1) i = map_option fst (find (\<lambda>p. snd p = i) (rev ps1))"
    "sorted (map fst ps1)" "set (map fst ps1) \<subseteq> set (event_times evs)" by auto
  show ?case
  proof (cases ev)
    case WorkEvent
    with snoc.prems r IH show ?thesis by (auto simp: engine_take_def split: list.splits)
  next
    case (SendEvent now a)
    let ?i = "a_id (stamp_alert hash now a)"
    obtain out e2 where s: "engine_send hash now a e1 = (out, e2)" by (metis prod.collapse)
    obtain b e3 where t: "isThrottled now ?i e1 = (b, e3)" by (metis prod.collapse)
    have sub: "set (map fst ps1) \<subseteq> set (event_times (evs @ [SendEvent now a]))" using IH(5) by auto
    show ?thesis
    proof (cases "out = Enqueued \<or> out = Dropped")
      case False
      with s t isThrottled_simps [OF t] have "en_last_seen e2 = en_last_seen e1" "en_throttle e2 = en_throttle e1"
        by (auto simp: engine_send_def Let_def split: if_splits)
      moreover from False s r snoc.prems(2) SendEvent have "e' = e2" "ps = ps1" by auto
      ultimately show ?thesis using IH sub SendEvent by simp
    next
      case True
      from True s t have nb: "\<not> b" "en_last_seen e2 = en_last_seen e3" "en_throttle e2 = en_throttle e3"
        by (auto simp: engine_send_def Let_def split: if_splits)
      from True s r snoc.prems(2) SendEvent have e': "e' = e2" and ps: "ps = ps1 @ [(now, ?i)]" by auto
      have le: "t' \<le> now" if "(t', i') \<in> set ps1" for t' i'
      proof -
        have "t' \<in> set (event_times evs)" using that IH(5) by force
        with snoc.prems(1) SendEvent show ?thesis by (simp add: sorted_snoc)
      qed
      have apart: "en_throttle e \<le> time_sub now t'" if p: "(t', ?i) \<in> set ps1" for t'
      proof -
        obtain l where l: "find (\<lambda>p. snd p = ?i) (rev ps1) = Some l"
        proof -
          have "find (\<lambda>p. snd p = ?i) (rev ps1) \<noteq> None" using p by (auto simp: find_None_iff)
          with that show ?thesis by blast
        qed
        then obtain k where k: "k < length ps1" "l = rev ps1 ! k" "snd l = ?i" "\<forall>m<k. snd (rev ps1 ! m) \<noteq> ?i"
          by (auto simp: find_Some_iff)
        from t nb(1) l IH(2,3) have "en_throttle e \<le> time_sub now (fst l)"
          by (auto simp: isThrottled_def split: if_splits)
        moreover have "t' \<le> fst l"
        proof -
          from p obtain m where m: "m < length ps1" "rev ps1 ! m = (t', ?i)"
            by (metis in_set_conv_nth length_rev set_rev)
          then have "k \<le> m" using k(4) by (metis not_le_imp_less snd_conv)
          moreover have "sorted_wrt (\<ge>) (map fst (rev ps1))"
            using IH(4) by (simp add: rev_map [symmetric] sorted_wrt_rev)
          ultimately have "fst (rev ps1 ! m) \<le> fst (rev ps1 ! k)"
            using m(1) by (cases "k = m") (auto simp: sorted_wrt_iff_nth_less)
          then show ?thesis using m(2) k(2) by simp
        qed
        ultimately show ?thesis using time_sub_mono by (meson order_trans)
      qed
      have "passes_apart (en_throttle e) ps"
        using IH(1) apart by (auto simp: passes_apart_def ps sorted_wrt_append)
      moreover have "map_of (en_last_seen e') i = map_option fst (find (\<lambda>p. snd p = i) (rev ps))" for i
        using isThrottled_simps(8) [OF t nb(1)] IH(3) by (simp add: e' nb ps)
      moreover have "sorted (map fst ps)" using IH(4) le by (auto simp: ps sorted_append)
      ultimately show ?thesis
        using isThrottled_simps(2) [OF t] IH(2) sub SendEvent by (simp add: e' nb ps)
    qed
  qed
qed

section \<open>Facts about delivery\<close>

text \<open>The world after \<open>n\<close> failed attempts on a channel.\<close>

fun after_failures :: "'w transport \<Rightarrow> 'w env \<Rightarrow> engine \<Rightarrow> channel \<Rightarrow> alert \<Rightarrow> nat \<Rightarrow> 'w \<Rightarrow> 'w" where
  "after_failures T E e ch a 0 w = w"
| "after_failures T E e ch a (Suc n) w =
     e_sleep E (deliver_backoff e n) (snd (channel_send T ch a (after_failures T E e ch a n w)))"

definition attempt_fails :: "'w transport \<Rightarrow> 'w env \<Rightarrow> engine \<Rightarrow> channel \<Rightarrow> alert \<Rightarrow> nat \<Rightarrow> 'w \<Rightarrow> bool" where
  "attempt_fails T E e ch a n w \<longleftrightarrow> fst (channel_send T ch a (after_failures T E e ch a n w)) \<noteq> None"

lemma deliver_attempts_skip:
  assumes "\<forall>i<k. attempt_fails T E e ch a i w" "int k \<le> en_retry_max e + 1"
  shows "deliver_attempts T E e ch a 0 None w = deliver_attempts T E e ch a k
           (if k = 0 then None else fst (channel_send T ch a (after_failures T E e ch a (k - 1) w)))
           (after_failures T E e ch a k w)"
  using assms
proof (induction k)
  case (Suc k)
  let ?w = "after_failures T E e ch a k w"
  obtain er w1 where s: "channel_send T ch a ?w = (Some er, w1)"
    using Suc.prems(1) by (auto simp: attempt_fails_def) (metis lessI not_None_eq prod.collapse)
  have "deliver_attempts T E e ch a k err ?w
      = deliver_attempts T E e ch a (Suc k) (Some er) (e_sleep E (deliver_backoff e k) w1)" for err
    using Suc.prems(2) s by (subst deliver_attempts.simps) simp
  with Suc s show ?case by simp
qed simp

lemma deliver_attempts_success:
  assumes "\<forall>i<k. attempt_fails T E e ch a i w" "int k \<le> en_retry_max e"
    and "channel_send T ch a (after_failures T E e ch a k w) = (None, w1)"
  shows "deliver_attempts T E e ch a 0 None w = (None, w1)"
proof -
  have "deliver_attempts T E e ch a 0 None w = deliver_attempts T E e ch a k
           (if k = 0 then None else fst (channel_send T ch a (after_failures T E e ch a (k - 1) w)))
           (after_failures T E e ch a k w)"
    using assms by (intro deliver_attempts_skip) auto
  with assms show ?thesis by (subst (asm) (2) deliver_attempts.simps) simp
qed

lemma deliver_attempts_failure:
  assumes "\<forall>i\<le>n. attempt_fails T E e ch a i w" "en_retry_max e = int n"
  shows "deliver_attempts T E e ch a 0 None w
       = (fst (channel_send T ch a (after_failures T E e ch a n w)), after_failures T E e ch a (Suc n) w)"
proof -
  have "deliver_attempts T E e ch a 0 None w = deliver_attempts T E e ch a (Suc n)
           (if Suc n = 0 then None else fst (channel_send T ch a (after_failures T E e ch a (Suc n - 1) w)))
           (after_failures T E e ch a (Suc n) w)"
    using assms by (intro deliver_attempts_skip) auto
  with assms show ?thesis by (subst (asm) (2) deliver_attempts.simps) simp
qed

lemma deliver_log_channel:
  assumes "0 \<le> en_retry_max e"
  shows "deliver_attempts T E e LogChannel a 0 None w = (None, tr_log T a w)"
  using assms by (subst deliver_attempts.simps) simp

section \<open>Facts about construction\<close>

lemma build_channels_enabled:
  "build_channels dial chs acc = Inr out \<Longrightarrow> length out = length acc + length (filter cc_enabled chs)"
  by (induction dial chs acc rule: build_channels.induct) (auto split: if_splits)

lemma BuildChannels_nonempty: "BuildChannels dial cfg = Inr chs \<Longrightarrow> chs \<noteq> []"
  by (auto simp: BuildChannels_def bind_res_Inr_iff split: if_splits)

section \<open>Properties\<close>

text \<open>C23 Alerts of one identity that are not held back as duplicates are at least the deduplication window
  apart, as long as the clock does not go back, and the queue never holds more than 256 alerts.\<close>

theorem alerts_deduplicated:
  assumes "sorted (event_times evs)" "engine_run hash evs (engine_new cfg) = (e, passed)"
  shows "passes_apart (parsed_or (5 * minute) (al_dedup_window cfg)) passed \<and> length (en_queue e) \<le> 256"
proof
  show "passes_apart (parsed_or (5 * minute) (al_dedup_window cfg)) passed"
    using engine_run_passes [OF _ assms] by (simp add: engine_new_def)
  show "length (en_queue e) \<le> 256"
    using engine_run_inv [OF engine_inv_new [of cfg], of hash evs] assms(2)
    by (simp add: engine_inv_def queue_capacity_def)
qed

definition sample_finding :: finding where
  "sample_finding =
     \<lparr>f_id = ''f'', f_severity = SeverityHigh, f_category = ''c'', f_description = ''d'', f_evidence = [],
      f_remediation = []\<rparr>"

definition sample_alert :: alert where
  "sample_alert =
     \<lparr>a_id = [], a_time = zero_time, a_severity = SeverityHigh, a_scanner = ''s'', a_finding = sample_finding,
      a_reason = []\<rparr>"

definition sample_alerting :: alerting_config where
  "sample_alerting = \<lparr>al_enabled = True, al_dedup_window = [], al_retry_max = 3, al_retry_backoff = [], al_channels = []\<rparr>"

theorem alerts_deduplicated_witness:
  "passes_apart (parsed_or (5 * minute) (al_dedup_window sample_alerting))
     (snd (engine_run id [SendEvent 0 sample_alert, WorkEvent, SendEvent 5 sample_alert] (engine_new sample_alerting)))
   \<and> length (en_queue (fst (engine_run id [SendEvent 0 sample_alert, WorkEvent, SendEvent 5 sample_alert]
       (engine_new sample_alerting)))) \<le> 256"
  by (rule alerts_deduplicated [where hash = id and evs = "[SendEvent 0 sample_alert, WorkEvent, SendEvent 5 sample_alert]"])
     (simp_all add: event_times_def map_filter_simps)

text \<open>An alert that the full queue drops still counts as seen: until the window has passed, the next
  alert of its identity is held back as a duplicate, although none was ever delivered.\<close>

theorem dropped_alert_suppresses_next:
  assumes "engine_send hash now a e = (Dropped, e1)" "now \<le> now2" "now2 < now + en_throttle e"
    "now2 - now \<le> max_int64" "a_id (stamp_alert hash now2 a2) = a_id (stamp_alert hash now a)"
  shows "fst (engine_send hash now2 a2 (e1\<lparr>en_queue := queue\<rparr>)) = Throttled"
proof -
  let ?i = "a_id (stamp_alert hash now a)"
  obtain b e2 where t: "isThrottled now ?i e = (b, e2)" by (metis prod.collapse)
  from assms(1) t have en: "en_enabled e" and nb: "\<not> b" and e1: "e1 = e2"
    by (auto simp: engine_send_def Let_def split: if_splits)
  have seen: "map_of (en_last_seen e1) ?i = Some now" "en_throttle e1 = en_throttle e" "en_enabled e1"
    using isThrottled_simps [OF t] nb en e1 by auto
  have "time_sub now2 now = now2 - now" using assms(2,4) by (simp add: time_sub_def min_int64_def)
  with seen assms(3,5) show ?thesis by (simp add: engine_send_def isThrottled_def Let_def)
qed

definition full_engine :: engine where
  "full_engine = (engine_new sample_alerting)\<lparr>en_queue := replicate 256 sample_alert\<rparr>"

theorem dropped_alert_suppresses_next_witness:
  "fst (engine_send id 7 sample_alert
      (full_engine\<lparr>en_last_seen := [(a_id (stamp_alert id 5 sample_alert), 5)], en_queue := []\<rparr>)) = Throttled"
proof -
  have "fst (engine_send id 7 sample_alert
      ((full_engine\<lparr>en_last_seen := [(a_id (stamp_alert id 5 sample_alert), 5)]\<rparr>)\<lparr>en_queue := []\<rparr>)) = Throttled"
  proof (rule dropped_alert_suppresses_next [where now = 5 and e = full_engine])
    show "engine_send id 5 sample_alert full_engine
        = (Dropped, full_engine\<lparr>en_last_seen := [(a_id (stamp_alert id 5 sample_alert), 5)]\<rparr>)"
      by (simp add: engine_send_def full_engine_def engine_new_def sample_alerting_def isThrottled_def
          queue_capacity_def Let_def)
  qed (simp_all add: full_engine_def engine_new_def sample_alerting_def parsed_or_def minute_def max_int64_def
        stamp_alert_def sample_alert_def fingerprint_def fingerprint_text_def is_zero_time_def Let_def)
  then show ?thesis by simp
qed

text \<open>A channel is tried until it succeeds, \<open>retry_max + 1\<close> times at most; a success ends its loop at once,
  and without one the error that is logged is the last attempt's, after a sleep that follows even that
  attempt.\<close>

theorem delivery_attempts:
  assumes "en_retry_max e = int n"
  shows "deliver_attempts T E e ch a 0 None w =
    (case find (\<lambda>k. \<not> attempt_fails T E e ch a k w) [0..<Suc n] of
       Some k \<Rightarrow> (None, snd (channel_send T ch a (after_failures T E e ch a k w)))
     | None \<Rightarrow> (fst (channel_send T ch a (after_failures T E e ch a n w)), after_failures T E e ch a (Suc n) w))"
proof (cases "find (\<lambda>k. \<not> attempt_fails T E e ch a k w) [0..<Suc n]")
  case None
  then have "\<forall>i\<le>n. attempt_fails T E e ch a i w"
    by (auto simp: find_None_iff less_Suc_eq_le simp del: upt_Suc)
  then show ?thesis using deliver_attempts_failure assms None by (simp del: upt_Suc)
next
  case (Some k)
  then have k: "k \<le> n" "\<not> attempt_fails T E e ch a k w" "\<forall>j<k. attempt_fails T E e ch a j w"
    by (auto simp: find_Some_iff less_Suc_eq_le simp del: upt_Suc)
  from k(2) obtain w1 where "channel_send T ch a (after_failures T E e ch a k w) = (None, w1)"
    by (auto simp: attempt_fails_def) (metis prod.collapse)
  with k Some assms show ?thesis
    using deliver_attempts_success [of k T E e ch a w w1] by (simp del: upt_Suc)
qed

definition sample_transport :: "int transport" where
  "sample_transport =
     \<lparr>tr_log = (\<lambda>a w. w + 1), tr_post = (\<lambda>url a w. (Inr (if w < 3 then 500 else 200), w + 1)),
      tr_syslog = (\<lambda>wr l m w. (None, w)), tr_mail = (\<lambda>m w. (None, w))\<rparr>"

theorem delivery_attempts_witness:
  "deliver_attempts sample_transport sample_env (engine_new sample_alerting) (WebhookChannel ''u'' []) sample_alert 0 None 0 =
    (case find (\<lambda>k. \<not> attempt_fails sample_transport sample_env (engine_new sample_alerting) (WebhookChannel ''u'' [])
         sample_alert k 0) [0..<Suc 3] of
       Some k \<Rightarrow> (None, snd (channel_send sample_transport (WebhookChannel ''u'' []) sample_alert
          (after_failures sample_transport sample_env (engine_new sample_alerting) (WebhookChannel ''u'' []) sample_alert k 0)))
     | None \<Rightarrow> (fst (channel_send sample_transport (WebhookChannel ''u'' []) sample_alert
          (after_failures sample_transport sample_env (engine_new sample_alerting) (WebhookChannel ''u'' []) sample_alert 3 0)),
        after_failures sample_transport sample_env (engine_new sample_alerting) (WebhookChannel ''u'' []) sample_alert (Suc 3) 0))"
  by (rule delivery_attempts) (simp add: engine_new_def sample_alerting_def)

end
