(* ===== verification/Daemon.thy ===== *)
theory Daemon
  imports Alerting Detection ResultCache SchedulerRun
begin

text \<open>
  The daemon's wiring, \<open>internal/daemon/runner.go\<close>: the rules and jobs built from the configuration,
  the registration of channels, and the callback every finished scan goes through: drift detection
  and baseline update for each numeric metric, rules, correlation, the result cache, the result store
  and the alerts. Clock readings of one call of the callback are one time.
\<close>

section \<open>From the configuration\<close>

definition buildRules :: "rule_config list \<Rightarrow> rule list" where
  "buildRules rs =
     map (\<lambda>ru. \<lparr>rl_name = ru_name ru, rl_scanner = ru_scanner ru, rl_metric = ru_metric ru,
       rl_operator = ru_operator ru, rl_threshold = ru_threshold ru,
       rl_severity = parseSeverity (ru_severity ru), rl_description = ru_description ru\<rparr>) rs"

definition job_of_scanner :: "scanner_config \<Rightarrow> job_config" where
  "job_of_scanner sc =
     \<lparr>jc_name = sn_name sc, jc_plugin = sn_plugin sc, jc_schedule = sn_schedule sc,
      jc_timeout = TimeoutDuration sc, jc_max_retries = sn_max_retries sc,
      jc_backoff = RetryBackoffDuration sc, jc_retry_max = RetryMaxDuration sc,
      jc_overlap = sn_allow_overlap sc, jc_run_on_start = sn_run_on_start sc\<rparr>"

definition enabled_jobs :: "scanner_config list \<Rightarrow> job_config list" where
  "enabled_jobs scs = map job_of_scanner (filter sn_active scs)"

definition register_all :: "channel list \<Rightarrow> engine \<Rightarrow> engine" where
  "register_all chs e = foldl (\<lambda>e ch. engine_register ch e) e chs"

text \<open>The engine of a configuration: a malformed channel list falls back to the log.\<close>

definition alert_engine ::
  "(string \<Rightarrow> string \<Rightarrow> string \<Rightarrow> bool) \<Rightarrow> alerting_config \<Rightarrow> engine" where
  "alert_engine dial cfg =
     register_all (case BuildChannels dial cfg of Inl e \<Rightarrow> [LogChannel] | Inr chs \<Rightarrow> chs) (engine_new cfg)"

definition correlator_of :: "detection_config \<Rightarrow> correlator" where
  "correlator_of d =
     NewCorrelator (CorrelationWindowDuration d) (de_min_scanners d) (CorrelationCooldownDuration d)"

text \<open>The start of the daemon registers its plugins one by one and logs the failures.\<close>

definition register_plugins :: "'w plugin list \<Rightarrow> 'w manager" where
  "register_plugins ps =
     foldl (\<lambda>m p. case manager_register (Some p) m of Inl e \<Rightarrow> m | Inr m' \<Rightarrow> m') NewManager ps"

section \<open>The callback\<close>

record 'd pipeline =
  pp_rules :: "rule list"
  pp_correlator :: correlator
  pp_cache :: result_cache
  pp_engine :: engine
  pp_db :: 'd
  pp_consecutive :: int

definition drift_finding :: "string \<Rightarrow> f64 \<Rightarrow> finding" where
  "drift_finding key value =
     \<lparr>f_id = ''metric_drift'', f_severity = SeverityHigh, f_category = ''drift'',
      f_description = ''Metric drift detected beyond baseline.'',
      f_evidence = [(''metric'', DynStr key), (''value'', DynFloat value)],
      f_remediation = ''Review system changes affecting this metric.''\<rparr>"

text \<open>One turn of the loop over the metadata: an error leaves the store as it was.\<close>

definition metric_turn ::
  "('d, 'b) badger \<Rightarrow> (baseline, 'b) codec \<Rightarrow> int \<Rightarrow> string \<Rightarrow> int \<Rightarrow> finding list \<times> 'd \<Rightarrow> string \<times> dyn
     \<Rightarrow> finding list \<times> 'd" where
  "metric_turn D C now scanner consecutive fd kv =
     (case toFloat (snd kv) of
        None \<Rightarrow> fd
      | Some value \<Rightarrow>
          let (fs, d) = fd;
              (fs1, d1) = (case DetectDrift (badger_store D) C now scanner (fst kv) value consecutive d of
                 Inl e \<Rightarrow> (fs, d)
               | Inr (drift, reason, d') \<Rightarrow> (if drift then fs @ [drift_finding (fst kv) value] else fs, d'));
              d2 = (case baseline_update (badger_store D) C now scanner (fst kv) value d1 of
                 Inl e \<Rightarrow> d1 | Inr (b, d') \<Rightarrow> d')
          in (fs1, d2))"

definition metric_findings ::
  "('d, 'b) badger \<Rightarrow> (baseline, 'b) codec \<Rightarrow> int \<Rightarrow> dyn range_order \<Rightarrow> int \<Rightarrow> scan_result \<Rightarrow> 'd
     \<Rightarrow> finding list \<times> 'd" where
  "metric_findings D C now order consecutive res d =
     foldl (metric_turn D C now (r_scanner res) consecutive) ([], d) (order (r_metadata res))"

definition alert_of :: "scan_result \<Rightarrow> finding \<Rightarrow> alert" where
  "alert_of res f =
     \<lparr>a_id = [], a_time = zero_time, a_severity = f_severity f, a_scanner = r_scanner res, a_finding = f,
      a_reason = ''finding_detected''\<rparr>"

definition send_alerts :: "(string \<Rightarrow> string) \<Rightarrow> int \<Rightarrow> scan_result \<Rightarrow> finding list \<Rightarrow> engine \<Rightarrow> engine" where
  "send_alerts hash now res fs e = foldl (\<lambda>e f. snd (engine_send hash now (alert_of res f) e)) e fs"

definition on_result ::
  "('d, 'b) badger \<Rightarrow> (baseline, 'b) codec \<Rightarrow> (scan_result, 'b) codec \<Rightarrow> (string \<Rightarrow> string) \<Rightarrow> string
     \<Rightarrow> int \<Rightarrow> dyn range_order \<Rightarrow> scan_result \<Rightarrow> 'd pipeline \<Rightarrow> 'd pipeline" where
  "on_result D CB CR hash suffix now order res0 p =
     (let (drifts, d1) = metric_findings D CB now order (pp_consecutive p) res0 (pp_db p);
          res1 = res0\<lparr>r_findings := r_findings res0 @ drifts\<rparr>;
          res2 = res1\<lparr>r_findings := r_findings res1 @ Evaluate (pp_rules p) res1\<rparr>;
          (corr, c') = correlator_add now res2 (pp_correlator p);
          res3 = res2\<lparr>r_findings := r_findings res2 @ corr\<rparr>;
          d2 = (case results_save D CR now suffix res3 d1 of Inl e \<Rightarrow> d1 | Inr d' \<Rightarrow> d')
      in p\<lparr>pp_correlator := c', pp_cache := cache_add res3 (pp_cache p), pp_db := d2,
           pp_engine := send_alerts hash now res3 (r_findings res3) (pp_engine p)\<rparr>)"

section \<open>A run of the daemon's callbacks\<close>

definition pipeline_new ::
  "(string \<Rightarrow> string \<Rightarrow> string \<Rightarrow> bool) \<Rightarrow> rule list \<Rightarrow> correlator \<Rightarrow> alerting_config \<Rightarrow> 'd \<Rightarrow> int \<Rightarrow> 'd pipeline" where
  "pipeline_new dial rules corr cfg d consecutive =
     \<lparr>pp_rules = rules, pp_correlator = corr, pp_cache = NewResultCache 50, pp_engine = alert_engine dial cfg,
      pp_db = d, pp_consecutive = consecutive\<rparr>"

text \<open>A finished scan: when it is handled, the suffix of its key in the store, and its result.\<close>

record finished_scan =
  ev_time :: int
  ev_suffix :: string
  ev_result :: scan_result

definition run_callbacks ::
  "('d, 'b) badger \<Rightarrow> (baseline, 'b) codec \<Rightarrow> (scan_result, 'b) codec \<Rightarrow> (string \<Rightarrow> string) \<Rightarrow> dyn range_order
     \<Rightarrow> finished_scan list \<Rightarrow> 'd pipeline \<Rightarrow> 'd pipeline" where
  "run_callbacks D CB CR hash order evs p =
     foldl (\<lambda>p ev. on_result D CB CR hash (ev_suffix ev) (ev_time ev) order (ev_result ev) p) p evs"

text \<open>What the callback makes of a result: drifts of its numeric metadata, rules and correlations follow its own findings.\<close>

definition completes :: "rule list \<Rightarrow> scan_result \<Rightarrow> scan_result \<Rightarrow> bool" where
  "completes rules res full \<longleftrightarrow>
     (\<exists>drifts corr. full = res\<lparr>r_findings := r_findings res @ drifts @ Evaluate rules res @ corr\<rparr>
        \<and> set drifts \<subseteq> {drift_finding k v |k v. \<exists>raw. (k, raw) \<in> set (r_metadata res) \<and> toFloat raw = Some v})"

definition alert_origin :: "alert \<Rightarrow> string \<times> finding" where
  "alert_origin a = (a_scanner a, a_finding a)"

definition result_origins :: "scan_result \<Rightarrow> (string \<times> finding) list" where
  "result_origins res = map (Pair (r_scanner res)) (r_findings res)"

section \<open>Facts about the callback\<close>

lemma send_alerts_append:
  "send_alerts hash now res (fs @ gs) e = send_alerts hash now res gs (send_alerts hash now res fs e)"
  by (simp add: send_alerts_def)

lemma engine_inv_send_alerts [inv_intros]:
  "engine_inv e \<Longrightarrow> engine_inv (send_alerts hash now res fs e)"
proof (induction fs arbitrary: e)
  case (Cons f fs)
  have "engine_inv (snd (engine_send hash now (alert_of res f) e))"
    using Cons.prems by (intro engine_inv_send [OF _ prod.collapse [symmetric]])
  from Cons.IH [OF this] show ?case by (simp add: send_alerts_def)
qed (simp add: send_alerts_def)

lemma on_result_parts:
  assumes "metric_findings D CB now order (pp_consecutive p) res (pp_db p) = (drifts, d1)"
  shows "\<exists>rules corr full. rules = Evaluate (pp_rules p) res
     \<and> full = res\<lparr>r_findings := r_findings res @ drifts @ rules @ corr\<rparr>
     \<and> corr = fst (correlator_add now (res\<lparr>r_findings := r_findings res @ drifts @ rules\<rparr>) (pp_correlator p))
     \<and> pp_cache (on_result D CB CR hash suffix now order res p) = cache_add full (pp_cache p)
     \<and> pp_engine (on_result D CB CR hash suffix now order res p)
         = send_alerts hash now full (r_findings full) (pp_engine p)"
proof -
  let ?rules = "Evaluate (pp_rules p) res"
  have ev: "Evaluate (pp_rules p) (res\<lparr>r_findings := fs\<rparr>) = ?rules" for fs
  proof -
    have "eval_rule (res\<lparr>r_findings := fs\<rparr>) = eval_rule res" by (simp add: eval_rule_def fun_eq_iff)
    then show ?thesis by (simp add: Evaluate_def)
  qed
  obtain corr c' where c: "correlator_add now (res\<lparr>r_findings := r_findings res @ drifts @ ?rules\<rparr>) (pp_correlator p) = (corr, c')"
    by (metis prod.collapse)
  let ?full = "res\<lparr>r_findings := r_findings res @ drifts @ ?rules @ corr\<rparr>"
  have "pp_cache (on_result D CB CR hash suffix now order res p) = cache_add ?full (pp_cache p)"
    "pp_engine (on_result D CB CR hash suffix now order res p) = send_alerts hash now ?full (r_findings ?full) (pp_engine p)"
    using c by (simp_all add: on_result_def assms ev Let_def)
  with c show ?thesis by (intro exI [of _ ?rules] exI [of _ corr] exI [of _ ?full]) simp
qed

lemma parseSeverity_cases:
  "parseSeverity s \<in> {SeverityInfo, SeverityLow, SeverityMedium, SeverityHigh, SeverityCritical}"
  by (simp add: parseSeverity_def Let_def)

lemma register_all_channels: "en_channels (register_all chs e) = en_channels e @ chs"
  by (induction chs arbitrary: e) (auto simp: register_all_def engine_register_def)

text \<open>The registry at the start\<close>

lemma register_plugins_Nil [simp]: "register_plugins [] = NewManager"
  by (simp add: register_plugins_def)

lemma register_plugins_snoc [simp]:
  "register_plugins (ps @ [p])
     = (case manager_register (Some p) (register_plugins ps) of Inl e \<Rightarrow> register_plugins ps | Inr m \<Rightarrow> m)"
  unfolding register_plugins_def by simp

lemma manager_wf_register_plugins: "manager_wf (register_plugins ps)"
  by (induction ps rule: rev_induct) (auto simp: inv_intros split: sum.splits intro: manager_wf_register)

lemma find_snoc:
  "find P (xs @ [x]) = (case find P xs of None \<Rightarrow> if P x then Some x else None | Some y \<Rightarrow> Some y)"
  by (induction xs) auto

lemma map_of_register_plugins:
  "map_of (register_plugins ps) name = (if name = [] then None else find (\<lambda>p. pl_name p = name) ps)"
proof (induction ps arbitrary: name rule: rev_induct)
  case (snoc p ps)
  show ?case
  proof (cases "manager_register (Some p) (register_plugins ps)")
    case (Inl e)
    then have "pl_name p = [] \<or> map_of (register_plugins ps) (pl_name p) \<noteq> None"
      by (auto simp: manager_register_def Let_def split: if_splits)
    with snoc show ?thesis
      by (cases "name = pl_name p") (auto simp: find_snoc Inl snoc [of "pl_name p"] split: option.splits if_splits)
  next
    case (Inr m)
    then have "pl_name p \<noteq> []" "map_of (register_plugins ps) (pl_name p) = None"
      "m = obj_set (register_plugins ps) (pl_name p) p" by (simp_all add: manager_register_Inr_iff)
    with snoc Inr show ?thesis by (auto simp: find_snoc split: option.splits)
  qed
qed (simp add: NewManager_def)

lemma dom_register_plugins: "dom (map_of (register_plugins ps)) = {n \<in> pl_name ` set ps. n \<noteq> []}"
proof -
  have "find (\<lambda>p. pl_name p = n) ps \<noteq> None \<longleftrightarrow> n \<in> pl_name ` set ps" for n
    by (auto simp: find_None_iff)
  then show ?thesis by (auto simp: dom_def map_of_register_plugins split: if_splits)
qed

text \<open>The drifts of one result\<close>

lemma metric_turn_drifts:
  "set (fst (metric_turn D C now sc k (fs, d) kv))
     \<subseteq> set fs \<union> {drift_finding m v |m v. \<exists>raw. kv = (m, raw) \<and> toFloat raw = Some v}"
  by (cases kv) (auto simp: metric_turn_def Let_def split: option.splits sum.splits if_splits)

lemma metric_findings_drifts:
  assumes "mset (order (r_metadata res)) = mset (r_metadata res)"
  shows "set (fst (metric_findings D C now order k res d))
     \<subseteq> {drift_finding m v |m v. \<exists>raw. (m, raw) \<in> set (r_metadata res) \<and> toFloat raw = Some v}"
proof -
  have "set (fst (foldl (metric_turn D C now sc k) fd kvs))
      \<subseteq> set (fst fd) \<union> {drift_finding m v |m v. \<exists>raw. (m, raw) \<in> set kvs \<and> toFloat raw = Some v}" for sc fd kvs
  proof (induction kvs arbitrary: fd)
    case (Cons kv kvs)
    from Cons.IH [of "metric_turn D C now sc k fd kv"] metric_turn_drifts [of D C now sc k "fst fd" "snd fd" kv]
    show ?case by (cases kv) (simp, blast)
  qed simp
  moreover have "set (order (r_metadata res)) = set (r_metadata res)" using assms mset_eq_setD by blast
  ultimately show ?thesis by (fastforce simp: metric_findings_def)
qed

text \<open>The alerts of one result\<close>

lemma engine_send_origin:
  assumes "engine_send hash now a e = (out, e')"
  shows "set (map alert_origin (en_queue e')) \<subseteq> set (map alert_origin (en_queue e)) \<union> {alert_origin a}"
proof (cases "en_enabled e")
  case True
  obtain b e1 where t: "isThrottled now (a_id (stamp_alert hash now a)) e = (b, e1)" by (metis prod.collapse)
  have "alert_origin (stamp_alert hash now a) = alert_origin a"
    by (simp add: alert_origin_def stamp_alert_def Let_def)
  with True assms t isThrottled_simps(1) [OF t] show ?thesis
    by (auto simp: engine_send_def Let_def split: if_splits)
qed (use assms in \<open>auto simp: engine_send_def\<close>)

lemma send_alerts_origins:
  "set (map alert_origin (en_queue (send_alerts hash now res fs e)))
     \<subseteq> set (map alert_origin (en_queue e)) \<union> Pair (r_scanner res) ` set fs"
proof (induction fs arbitrary: e)
  case (Cons f fs)
  obtain out e1 where s: "engine_send hash now (alert_of res f) e = (out, e1)" by (metis prod.collapse)
  have "alert_origin (alert_of res f) = (r_scanner res, f)" by (simp add: alert_origin_def alert_of_def)
  with Cons.IH [of e1] engine_send_origin [OF s] s show ?case
    by (simp add: send_alerts_def) blast
qed (simp add: send_alerts_def)

lemma alert_engine_start:
  "engine_inv (alert_engine dial cfg)" "en_queue (alert_engine dial cfg) = []"
  "en_last_seen (alert_engine dial cfg) = []" "en_enabled (alert_engine dial cfg) = al_enabled cfg"
proof -
  have "en_queue (register_all chs e) = en_queue e \<and> en_last_seen (register_all chs e) = en_last_seen e
      \<and> en_enabled (register_all chs e) = en_enabled e" for chs e
    by (induction chs arbitrary: e) (simp_all add: register_all_def engine_register_def)
  then show "engine_inv (alert_engine dial cfg)" "en_queue (alert_engine dial cfg) = []"
    "en_last_seen (alert_engine dial cfg) = []" "en_enabled (alert_engine dial cfg) = al_enabled cfg"
    by (simp_all add: alert_engine_def engine_inv_def engine_new_def)
qed

lemma on_result_rules [simp]: "pp_rules (on_result D CB CR hash suffix now order res p) = pp_rules p"
  by (simp add: on_result_def case_prod_unfold Let_def)

lemma on_result_completes:
  assumes "\<And>m. mset (order m) = mset m"
  shows "\<exists>full. completes (pp_rules p) res full
     \<and> pp_cache (on_result D CB CR hash suffix now order res p) = cache_add full (pp_cache p)
     \<and> (engine_inv (pp_engine p) \<longrightarrow> engine_inv (pp_engine (on_result D CB CR hash suffix now order res p)))
     \<and> set (map alert_origin (en_queue (pp_engine (on_result D CB CR hash suffix now order res p))))
         \<subseteq> set (map alert_origin (en_queue (pp_engine p))) \<union> set (result_origins full)"
proof -
  obtain drifts d1 where m: "metric_findings D CB now order (pp_consecutive p) res (pp_db p) = (drifts, d1)"
    by (metis prod.collapse)
  obtain corr full where full: "full = res\<lparr>r_findings := r_findings res @ drifts @ Evaluate (pp_rules p) res @ corr\<rparr>"
    and c: "pp_cache (on_result D CB CR hash suffix now order res p) = cache_add full (pp_cache p)"
    and e: "pp_engine (on_result D CB CR hash suffix now order res p)
      = send_alerts hash now full (r_findings full) (pp_engine p)"
    using on_result_parts [OF m, of CR hash suffix] by blast
  have "set drifts \<subseteq> {drift_finding k v |k v. \<exists>raw. (k, raw) \<in> set (r_metadata res) \<and> toFloat raw = Some v}"
    using metric_findings_drifts [of order res D CB now "pp_consecutive p" "pp_db p"] assms m by simp
  with full have "completes (pp_rules p) res full" unfolding completes_def by blast
  moreover have "set (result_origins full) = Pair (r_scanner full) ` set (r_findings full)"
    by (simp add: result_origins_def)
  ultimately show ?thesis
    using c e send_alerts_origins [of hash now full "r_findings full" "pp_engine p"] engine_inv_send_alerts
    by (intro exI [of _ full]) simp
qed

lemma run_callbacks_snoc [simp]:
  "run_callbacks D CB CR hash order (evs @ [ev]) p
     = on_result D CB CR hash (ev_suffix ev) (ev_time ev) order (ev_result ev) (run_callbacks D CB CR hash order evs p)"
  by (simp add: run_callbacks_def)

lemma run_callbacks_rules: "pp_rules (run_callbacks D CB CR hash order evs p) = pp_rules p"
  by (induction evs rule: rev_induct) (simp_all, simp add: run_callbacks_def)

lemma run_callbacks_trace:
  assumes "\<And>m. mset (order m) = mset m"
  shows "\<exists>fulls. list_all2 (completes rules) (map ev_result evs) fulls
     \<and> pp_cache (run_callbacks D CB CR hash order evs (pipeline_new dial rules corr cfg d k)) = cache_of 50 fulls
     \<and> engine_inv (pp_engine (run_callbacks D CB CR hash order evs (pipeline_new dial rules corr cfg d k)))
     \<and> set (map alert_origin
         (en_queue (pp_engine (run_callbacks D CB CR hash order evs (pipeline_new dial rules corr cfg d k)))))
         \<subseteq> set (concat (map result_origins fulls))"
proof (induction evs rule: rev_induct)
  case Nil
  have "run_callbacks D CB CR hash order [] (pipeline_new dial rules corr cfg d k) = pipeline_new dial rules corr cfg d k"
    by (simp add: run_callbacks_def)
  then show ?case by (simp add: pipeline_new_def alert_engine_start)
next
  case (snoc ev evs)
  let ?p = "run_callbacks D CB CR hash order evs (pipeline_new dial rules corr cfg d k)"
  from snoc obtain fulls where f: "list_all2 (completes rules) (map ev_result evs) fulls"
    "pp_cache ?p = cache_of 50 fulls" "engine_inv (pp_engine ?p)"
    "set (map alert_origin (en_queue (pp_engine ?p))) \<subseteq> set (concat (map result_origins fulls))" by blast
  have r: "pp_rules ?p = rules" by (simp add: run_callbacks_rules pipeline_new_def)
  obtain full where g: "completes rules (ev_result ev) full"
    "pp_cache (run_callbacks D CB CR hash order (evs @ [ev]) (pipeline_new dial rules corr cfg d k)) = cache_add full (pp_cache ?p)"
    "engine_inv (pp_engine (run_callbacks D CB CR hash order (evs @ [ev]) (pipeline_new dial rules corr cfg d k)))"
    "set (map alert_origin (en_queue (pp_engine (run_callbacks D CB CR hash order (evs @ [ev]) (pipeline_new dial rules corr cfg d k)))))
       \<subseteq> set (map alert_origin (en_queue (pp_engine ?p))) \<union> set (result_origins full)"
    using on_result_completes [where order = order and p = ?p and res = "ev_result ev" and D = D and CB = CB and CR = CR
        and hash = hash and suffix = "ev_suffix ev" and now = "ev_time ev", OF assms] f(3)
    unfolding r run_callbacks_snoc
    by blast
  have "list_all2 (completes rules) (map ev_result (evs @ [ev])) (fulls @ [full])"
    using f(1) g(1) by (simp add: list_all2_appendI)
  moreover have "cache_add full (pp_cache ?p) = cache_of 50 (fulls @ [full])" using f(2) by simp
  moreover have "set (map alert_origin (en_queue (pp_engine (run_callbacks D CB CR hash order (evs @ [ev])
      (pipeline_new dial rules corr cfg d k))))) \<subseteq> set (concat (map result_origins (fulls @ [full])))"
    by (rule order_trans [OF g(4)]) (use f(4) in auto)
  ultimately show ?case using g(2,3) by (intro exI [of _ "fulls @ [full]"]) (simp only:)
qed

section \<open>Properties\<close>

text \<open>After the start a name is looked up to the first plugin in the list that has it, and to nothing when
  none has or the name is empty; the registry lists every such name once, whatever the map's order.\<close>

theorem registered_plugins:
  assumes "mset (order (register_plugins ps)) = mset (register_plugins ps)"
  shows "manager_get (register_plugins ps) name
      = (if name = [] then Inl (PluginNotFound [])
         else case find (\<lambda>p. pl_name p = name) ps of None \<Rightarrow> Inl (PluginNotFound name) | Some p \<Rightarrow> Inr p)
    \<and> distinct (manager_list order (register_plugins ps))
    \<and> set (manager_list order (register_plugins ps)) = {n \<in> pl_name ` set ps. n \<noteq> []}"
  using manager_list_set [where order = order, OF assms] manager_wf_register_plugins [of ps]
  by (simp add: manager_wf_def manager_get_def map_of_register_plugins dom_register_plugins)

theorem registered_plugins_witness:
  "manager_get (register_plugins [sample_plugin, sample_plugin]) ''p''
      = (if ''p'' = [] then Inl (PluginNotFound [])
         else case find (\<lambda>p. pl_name p = ''p'') [sample_plugin, sample_plugin] of
           None \<Rightarrow> Inl (PluginNotFound ''p'') | Some p \<Rightarrow> Inr p)
    \<and> distinct (manager_list rev (register_plugins [sample_plugin, sample_plugin]))
    \<and> set (manager_list rev (register_plugins [sample_plugin, sample_plugin]))
      = {n \<in> pl_name ` set [sample_plugin, sample_plugin]. n \<noteq> []}"
  by (rule registered_plugins) simp

text \<open>After any finished scans, the history the API serves is the last 50 of them, each with the plugin's
  own findings first, then drifts of its numeric metadata, then every rule that holds on it, then
  correlations; the alert queue stays within its bound, and every alert in it stands for a finding of one
  of the finished scans, under its scanner's name.\<close>

theorem callbacks_recorded:
  assumes "\<And>m. mset (order m) = mset m"
  shows "\<exists>fulls. list_all2 (completes rules) (map ev_result evs) fulls
     \<and> cache_history (pp_cache (run_callbacks D CB CR hash order evs (pipeline_new dial rules corr cfg d k)))
         = map summarize (last_n 50 fulls)
     \<and> length (en_queue (pp_engine (run_callbacks D CB CR hash order evs (pipeline_new dial rules corr cfg d k)))) \<le> 256
     \<and> set (map alert_origin
         (en_queue (pp_engine (run_callbacks D CB CR hash order evs (pipeline_new dial rules corr cfg d k)))))
         \<subseteq> set (concat (map result_origins fulls))"
proof -
  let ?p = "pipeline_new dial rules corr cfg d k :: 'a pipeline"
  obtain fulls where f: "list_all2 (completes rules) (map ev_result evs) fulls"
    "pp_cache (run_callbacks D CB CR hash order evs ?p) = cache_of 50 fulls"
    "engine_inv (pp_engine (run_callbacks D CB CR hash order evs ?p))"
    "set (map alert_origin (en_queue (pp_engine (run_callbacks D CB CR hash order evs ?p)))) \<subseteq> set (concat (map result_origins fulls))"
    using run_callbacks_trace [OF assms, of rules evs D CB CR hash dial corr cfg d k] by blast
  have "cache_history (cache_of 50 fulls) = map summarize (last_n 50 fulls)"
    using cache_of_abs [of 50 fulls] by (simp add: cache_abs_def cache_of_limit cache_history_def)
  with f show ?thesis by (intro exI [of _ fulls]) (simp add: engine_inv_def queue_capacity_def)
qed

definition sample_scan :: finished_scan where
  "sample_scan =
     \<lparr>ev_time = 5, ev_suffix = ''x'',
      ev_result = \<lparr>r_scanner = ''s'', r_status = StatusSuccess, r_findings = [sample_finding], r_started = 1,
        r_finished = 2, r_duration = 1, r_metadata = [(''m'', DynInt 3)]\<rparr>\<rparr>"

theorem callbacks_recorded_witness:
  "\<exists>fulls. list_all2 (completes []) (map ev_result [sample_scan, sample_scan]) fulls
     \<and> cache_history (pp_cache (run_callbacks mem_badger \<lparr>co_encode = (\<lambda>_. Some ()), co_decode = (\<lambda>_. None)\<rparr>
           \<lparr>co_encode = (\<lambda>_. Some ()), co_decode = (\<lambda>_. None)\<rparr> id rev [sample_scan, sample_scan]
           (pipeline_new (\<lambda>_ _ _. False) [] (NewCorrelator 1 2 3) sample_alerting [] 3)))
         = map summarize (last_n 50 fulls)
     \<and> length (en_queue (pp_engine (run_callbacks mem_badger \<lparr>co_encode = (\<lambda>_. Some ()), co_decode = (\<lambda>_. None)\<rparr>
           \<lparr>co_encode = (\<lambda>_. Some ()), co_decode = (\<lambda>_. None)\<rparr> id rev [sample_scan, sample_scan]
           (pipeline_new (\<lambda>_ _ _. False) [] (NewCorrelator 1 2 3) sample_alerting [] 3)))) \<le> 256
     \<and> set (map alert_origin
         (en_queue (pp_engine (run_callbacks mem_badger \<lparr>co_encode = (\<lambda>_. Some ()), co_decode = (\<lambda>_. None)\<rparr>
           \<lparr>co_encode = (\<lambda>_. Some ()), co_decode = (\<lambda>_. None)\<rparr> id rev [sample_scan, sample_scan]
           (pipeline_new (\<lambda>_ _ _. False) [] (NewCorrelator 1 2 3) sample_alerting [] 3)))))
         \<subseteq> set (concat (map result_origins fulls))"
  by (rule callbacks_recorded) simp

end
