(* ===== verification/Wire.thy ===== *)
theory Wire
  imports WebScanners WebFindings WebSettings WebLayout WebDashboard JsonText WebTypes WebServer Daemon
begin

text \<open>
  The wire between the web client and the servers: what a client's request is to the servers and what
  their response is to the client. The texts of fractional numbers, the reason phrases and the embedded
  files are parameters. The browser follows redirects as the Fetch standard says, at most twenty.
\<close>

section \<open>Requests and responses on the wire\<close>

record wire =
  wi_number :: "rat \<Rightarrow> string" \<comment> \<open>the text of a number that is no integer\<close>
  wi_reason :: "int \<Rightarrow> string"
  wi_file :: "string \<Rightarrow> string"

text \<open>The client's URLs have no query and a token reaches the server as it is stored.\<close>

definition http_of :: "request \<Rightarrow> http_request" where
  "http_of r =
     \<lparr>hq_method = req_method r, hq_path = req_url r,
      hq_auth = (case map_of (req_headers r) ''Authorization'' of Some t \<Rightarrow> t | None \<Rightarrow> []),
      hq_query = Map.empty\<rparr>"

definition body_text :: "wire \<Rightarrow> body \<Rightarrow> string" where
  "body_text N b =
     (case b of NoBody \<Rightarrow> [] | JsonBody j \<Rightarrow> go_encode (wi_number N) j | TextBody t \<Rightarrow> t | FileBody f \<Rightarrow> wi_file N f)"

definition response_of :: "wire \<Rightarrow> http_response \<Rightarrow> response" where
  "response_of N h =
     \<lparr>resp_status = hs_status h, resp_status_text = wi_reason N (hs_status h), resp_body = body_text N (hs_body h)\<rparr>"

text \<open>A 301 is followed; a \<open>POST\<close> then becomes a \<open>GET\<close>.\<close>

definition redirected :: "string \<Rightarrow> http_request \<Rightarrow> http_request" where
  "redirected loc r =
     r\<lparr>hq_path := loc, hq_method := (if hq_method r = ''POST'' then ''GET'' else hq_method r)\<rparr>"

fun exchange :: "nat \<Rightarrow> wire \<Rightarrow> 'w backend \<Rightarrow> http_request \<Rightarrow> 'w \<Rightarrow> net_outcome \<times> 'w" where
  "exchange 0 N serve r w = (NetError ''Failed to fetch'', w)"
| "exchange (Suc n) N serve r w =
     (let (h, out, w') = serve r w in
      if hs_status h = 301 then exchange n N serve (redirected (hs_location h) r) w'
      else (NetResponse (response_of N h), w'))"

definition redirect_limit :: nat where
  "redirect_limit = 20"

definition browse :: "wire \<Rightarrow> 'w backend \<Rightarrow> 'w \<Rightarrow> request \<Rightarrow> net_outcome" where
  "browse N serve w r = fst (exchange (Suc redirect_limit) N serve (http_of r) w)"

section \<open>Facts\<close>

text \<open>A token a server accepts: any, when it has none of its own.\<close>

definition accepts :: "string \<Rightarrow> string \<Rightarrow> bool" where
  "accepts secret t \<longleftrightarrow> secret = [] \<or> t = secret"

lemma request_token_http [simp]:
  "map_of (req_headers r) ''Authorization'' = Some t \<Longrightarrow> request_token (http_of r) = t"
  by (simp add: request_token_def http_of_def query_get_def)

lemma request_token_path: "request_token (r\<lparr>hq_path := p\<rparr>) = request_token r"
  by (simp add: request_token_def query_get_def)

lemma fetch_request_token [simp]:
  "map_of (init_headers opts) ''Authorization'' = None
     \<Longrightarrow> request_token (http_of (fetch_request ls path opts)) = token_or_empty ls"
  by (simp add: fetch_request_auth)

lemma fetch_text_request_token [simp]:
  "request_token (http_of (fetch_text_request ls path None)) = token_or_empty ls"
  by (rule request_token_http) (simp add: fetch_text_request_def init_headers_def map_of_obj_spread)

lemma http_of_simps [simp]:
  "hq_path (http_of (fetch_request ls path opts)) = ''/api'' @ path"
  "hq_method (http_of (fetch_request ls path opts)) = init_method opts"
  "hq_path (http_of (fetch_text_request ls path opts)) = ''/api'' @ path"
  by (simp_all add: http_of_def fetch_request_def fetch_text_request_def Let_def)

lemma authorized_accepts: "authorized secret r \<longleftrightarrow> accepts secret (request_token r)"
  by (simp add: authorized_def accepts_def)

lemma browse_final:
  assumes "serve (http_of r) w = (h, out, w')" "hs_status h \<noteq> 301"
  shows "browse N serve w r = NetResponse (response_of N h)"
  using assms by (simp add: browse_def)

text \<open>A request of the client for one of the API's fixed paths, through both servers.\<close>

lemma serve_fixed_endpoint:
  assumes "wired F E A W" "(p, route) \<in> set api_paths" "route \<noteq> RTrigger" "hq_path r = ''/api'' @ p"
  shows "web_serve W r w = withAuthHandler W (withAuth A (api_handle F E A route)) r w"
  using serve_web_api [OF assms(2)] serve_fixed [OF assms(2,3)] assms(1,4) by (intro web_serve_route) simp_all

lemma serve_endpoint:
  assumes "wired F E A W" "(p, route) \<in> set api_paths" "route \<noteq> RTrigger" "hq_path r = ''/api'' @ p"
    and "accepts (wu_token W) (request_token r)" "accepts (ap_token A) (request_token r)"
  shows "web_serve W r w = api_handle F E A route r w"
  using assms(5,6) by (simp add: serve_fixed_endpoint [OF assms(1-4)] both_guards.nested_if authorized_accepts)

lemma serve_endpoint_refused:
  assumes "wired F E A W" "(p, route) \<in> set api_paths" "route \<noteq> RTrigger" "hq_path r = ''/api'' @ p"
    and "\<not> (accepts (wu_token W) (request_token r) \<and> accepts (ap_token A) (request_token r))"
  shows "web_serve W r w = (plain_response 401, None, w)"
  using assms(5) by (auto simp: serve_fixed_endpoint [OF assms(1-4)] both_guards.nested_if authorized_accepts)

text \<open>A document that arrives at the client.\<close>

lemma browse_document:
  assumes "serve (http_of (fetch_request ls path opts)) w = (writeJSON 200 (Some doc), out, w')"
    and "whole_doc doc"
  shows "api_fetch (json_parse msg) (browse N serve w) ls path opts = Inr (repaired doc)"
proof (rule go_json.fetch_document [OF assms(2), of _ _ _ _ _ "wi_number N"])
  show "browse N serve w (fetch_request ls path opts) = NetResponse (response_of N (writeJSON 200 (Some doc)))"
    by (rule browse_final [where serve = serve, OF assms(1)]) (simp add: writeJSON_def)
qed (simp_all add: writeJSON_def response_of_def resp_ok_def body_text_def)

fun call_route :: "client_call \<Rightarrow> api_route" where
  "call_route TypedStatus = RStatus"
| "call_route TypedFindings = RFindings"
| "call_route TypedBaselines = RBaselines"
| "call_route TypedSignatures = RSignaturesStatus"

text \<open>A call of a fixed path that resolves was answered by its handler, with a document.\<close>

lemma fetch_answered:
  assumes "api_fetch (json_parse msg) (browse N (web_serve W) w) ls p opts = Inr j"
    and "wired F E A W" "(p, route) \<in> set api_paths" "route \<noteq> RTrigger"
    and "map_of (init_headers opts) ''Authorization'' = None"
    and "api_handle F E A route (http_of (fetch_request ls p opts)) w = (writeJSON code doc, out, w')" "code \<noteq> 301"
  shows "200 \<le> code \<and> code \<le> 299 \<and> (\<forall>d. doc = Some d \<longrightarrow> whole_doc d \<longrightarrow> j = repaired d)"
proof -
  let ?r = "fetch_request ls p opts"
  have s: "web_serve W (http_of ?r) w = (writeJSON code doc, out, w') \<or> web_serve W (http_of ?r) w = (plain_response 401, None, w)"
    using serve_endpoint [OF assms(2-4), of "http_of ?r" w] serve_endpoint_refused [OF assms(2-4), of "http_of ?r" w] assms(5,6)
    by (cases "accepts (wu_token W) (token_or_empty ls) \<and> accepts (ap_token A) (token_or_empty ls)") auto
  then obtain h out2 w2 where h: "web_serve W (http_of ?r) w = (h, out2, w2)" "h = writeJSON code doc \<or> h = plain_response 401"
    by auto
  then have "hs_status h \<noteq> 301" using assms(7) by (auto simp: writeJSON_def plain_response_def)
  from browse_final [where serve = "web_serve W", OF h(1) this]
  have settled: "fetch_settle (json_parse msg) (NetResponse (response_of N h)) = Inr j"
    using assms(1) by (simp add: api_fetch_def)
  then have ok: "resp_ok (response_of N h)" by (auto split: if_splits)
  then have hw: "h = writeJSON code doc"
    using h(2) by (auto simp: resp_ok_def response_of_def plain_response_def)
  have "j = repaired d" if "doc = Some d" "whole_doc d" for d
  proof -
    have "resp_body (response_of N h) = go_encode (wi_number N) d"
      using that hw by (simp add: response_of_def writeJSON_def body_text_def)
    from go_json.settle_document [OF that(2) ok this] settled show ?thesis by simp
  qed
  with ok hw show ?thesis by (simp add: resp_ok_def response_of_def writeJSON_def)
qed

text \<open>A document crosses the wire: whatever whole-numbered document the server writes with a status of success,
  the call of \<open>api.fetch\<close> resolves with it, its invalid bytes replaced; a failure status rejects whatever
  the document is.\<close>

theorem document_crosses_wire:
  assumes "whole_doc doc"
  shows "fetch_settle (json_parse msg) (NetResponse (response_of N (writeJSON code (Some doc))))
    = (if 200 \<le> code \<and> code \<le> 299 then Inr (repaired doc)
       else Inl (if code = 401 then ''Unauthorized'' else ''Request failed: '' @ wi_reason N code))"
  using go_json.settle_document [OF assms, of "response_of N (writeJSON code (Some doc))" "wi_number N"]
  by (simp add: writeJSON_def response_of_def resp_ok_def body_text_def failure_of_def)

section \<open>Documents of the server\<close>

lemma list_all_key_insert: "P (k, v) \<Longrightarrow> list_all P m \<Longrightarrow> list_all P (key_insert k v m)"
  by (induction k v m rule: key_insert.induct) auto

lemma map_doc_all:
  assumes "list_all (\<lambda>(k, v). P k (f v)) m"
  shows "\<exists>kvs. map_doc f m = JObj kvs \<and> list_all (\<lambda>kv. P (fst kv) (snd kv)) kvs"
proof -
  have "list_all (\<lambda>kv. P (fst kv) (snd kv)) (foldr (\<lambda>(k, v). key_insert k (f v)) m [])"
    using assms by (induction m) (auto intro!: list_all_key_insert)
  then show ?thesis by (simp add: map_doc_def)
qed

lemma valid_utf8_ascii: "list_all (\<lambda>c. (of_char c :: nat) < 0x80) s \<Longrightarrow> valid_utf8 s"
proof (induction s)
  case (Cons c s)
  then show ?case by (subst valid_utf8.simps) (simp add: rune_len_def)
qed (simp add: valid_utf8.simps)

lemma repair_ascii [simp]: "list_all (\<lambda>c. (of_char c :: nat) < 0x80) s \<Longrightarrow> repair s = s"
  by (simp add: valid_utf8_ascii)

lemma whole_map_doc_all: "list_all (\<lambda>(k, v). whole_doc (f v)) m \<Longrightarrow> whole_doc (map_doc f m)"
  using map_doc_all [of "\<lambda>_. whole_doc" f m] by (auto simp: list_all_iff)

lemma whole_map_doc: "(\<And>v. whole_doc (f v)) \<Longrightarrow> whole_doc (map_doc f m)"
  by (simp add: whole_map_doc_all list_all_iff)

lemma typed_map_doc: "(\<And>v. has_type t (repaired (f v))) \<Longrightarrow> has_type (TsRecord t) (repaired (map_doc f m))"
  using map_doc_all [of "\<lambda>_ j. has_type t (repaired j)" f m] by (auto simp: list_all_iff)

lemma whole_jint [simp]: "whole_doc (jint i)" "repaired (jint i) = jint i"
  by (simp_all add: jint_def)

lemma whole_finding_doc: "whole_doc (finding_doc F f)"
  by (simp add: finding_doc_def opt_strings_def whole_map_doc)

lemma whole_source_doc: "whole_doc (source_doc F x)"
  by (simp add: source_doc_def)

lemma whole_sig_doc: "whole_doc (sig_doc F st)"
  by (simp add: sig_doc_def whole_map_doc whole_source_doc)

lemma whole_job_docs: "whole_doc (job_doc c)" "whole_doc (state_doc F js)"
  by (simp_all add: job_doc_def state_doc_def)

text \<open>The listing of the scanners: its plugins and nothing that would not encode.\<close>

lemma handleScanners_doc:
  "\<exists>doc. handleScanners F A = writeJSON 200 (Some doc) \<and> whole_doc doc
    \<and> js_prop (Some (repaired doc)) ''plugins''
      = Inr (Some (JArr (map (\<lambda>n. JStr (repair n)) (manager_list (ap_plugin_order A) (ap_mgr A)))))"
proof -
  let ?state = "\<lambda>c. case JobState (ap_sched A) (jc_name c) of None \<Rightarrow> None
    | Some st \<Rightarrow> Some (jc_name c, JObj [(''next_run'', JStr (fo_json_time F
        (case NextRun (ap_sched A) (jc_name c) of Some t \<Rightarrow> t | None \<Rightarrow> zero_time))), (''state'', state_doc F st)])"
  let ?jobs = "ListJobs (ap_job_order A) (ap_sched A)"
  let ?states = "List.map_filter ?state ?jobs"
  let ?doc = "JObj [(''jobs'', JArr (map job_doc ?jobs)),
    (''plugins'', JArr (map JStr (manager_list (ap_plugin_order A) (ap_mgr A)))), (''states'', map_doc id ?states)]"
  have "list_all (\<lambda>(k, v). whole_doc (id v)) ?states"
    by (auto simp: list_all_iff map_filter_def whole_job_docs split: option.splits)
  then have "whole_doc (map_doc id ?states)" by (rule whole_map_doc_all)
  then have "whole_doc ?doc" by (simp add: list_all_iff whole_job_docs)
  moreover have "handleScanners F A = writeJSON 200 (Some ?doc)" by (simp add: handleScanners_def Let_def)
  ultimately show ?thesis by (intro exI [of _ ?doc]) (simp add: obj_get_def comp_def)
qed

lemma typed_finding_doc: "has_type Finding_type (repaired (finding_doc F f))"
  using typed_map_doc [of TsString JStr "fd_evidence f"]
  by (simp add: finding_doc_def opt_strings_def Finding_type_def obj_get_def)

lemma typed_source_doc: "has_type SignatureSourceStatus_type (repaired (source_doc F x))"
  by (simp add: source_doc_def SignatureSourceStatus_type_def obj_get_def jint_def)

lemma typed_sig_doc: "has_type SignatureStatus_type (repaired (sig_doc F st))"
  using typed_map_doc [of SignatureSourceStatus_type "source_doc F" "sig_sources st"] typed_source_doc
  by (simp add: sig_doc_def SignatureStatus_type_def obj_get_def)

section \<open>Findings and plugins as the client shows them\<close>

text \<open>The row of one finding the server sent.\<close>

definition finding_row :: "'h clsx \<Rightarrow> host \<Rightarrow> (int \<Rightarrow> int) \<Rightarrow> nat \<times> finding_summary \<Rightarrow> 'h node" where
  "finding_row clsx H time idf =
     (case idf of (i, f) \<Rightarrow>
       TableRow clsx [(''key'', AInt (int i))]
         [TableCell clsx []
            [Badge clsx [(''variant'', AStr (severity_variant (to_lower (fd_severity f))))]
               [Val (Some (JStr (fd_severity f)))]],
          TableCell clsx [] [Badge clsx [(''variant'', AStr ''outline'')] [Val (Some (JStr (fd_category f)))]],
          TableCell clsx [] [Val (Some (JStr (fd_scanner f)))],
          TableCell clsx [] [Val (Some (JStr (fd_description f)))],
          TableCell clsx [] [Txt (host_PPpp H (time (fd_occurred f)))]])"

text \<open>The browser reads the server's form of a time, which is ASCII.\<close>

definition time_agrees :: "formats \<Rightarrow> host \<Rightarrow> (int \<Rightarrow> int) \<Rightarrow> int \<Rightarrow> bool" where
  "time_agrees F H time t \<longleftrightarrow>
     fo_json_time F t \<noteq> [] \<and> valid_utf8 (fo_json_time F t) \<and>
     host_time H (Some (JStr (fo_json_time F t))) = Some (time t)"

text \<open>A finding as it arrives.\<close>

definition finding_arrives :: "finding_summary \<Rightarrow> finding_summary" where
  "finding_arrives f = f\<lparr>fd_scanner := repair (fd_scanner f), fd_severity := repair (fd_severity f),
     fd_category := repair (fd_category f), fd_description := repair (fd_description f)\<rparr>"

lemma obj_get_finding_doc:
  fixes f :: finding_summary
  shows "\<exists>kvs. repaired (finding_doc F f) = JObj kvs
    \<and> obj_get kvs ''severity'' = Some (JStr (repair (fd_severity f)))
    \<and> obj_get kvs ''category'' = Some (JStr (repair (fd_category f)))
    \<and> obj_get kvs ''scanner_name'' = Some (JStr (repair (fd_scanner f)))
    \<and> obj_get kvs ''description'' = Some (JStr (repair (fd_description f)))
    \<and> obj_get kvs ''occurred_at'' = Some (JStr (repair (fo_json_time F (fd_occurred f))))"
  by (simp add: finding_doc_def obj_get_def opt_strings_def)

lemma render_finding_doc:
  assumes "time_agrees F H time (fd_occurred f)"
  shows "render_finding clsx H i (repaired (finding_doc F f)) = Inr (finding_row clsx H time (i, finding_arrives f))"
proof -
  obtain kvs where "repaired (finding_doc F f) = JObj kvs"
    "obj_get kvs ''severity'' = Some (JStr (repair (fd_severity f)))"
    "obj_get kvs ''category'' = Some (JStr (repair (fd_category f)))"
    "obj_get kvs ''scanner_name'' = Some (JStr (repair (fd_scanner f)))"
    "obj_get kvs ''description'' = Some (JStr (repair (fd_description f)))"
    "obj_get kvs ''occurred_at'' = Some (JStr (repair (fo_json_time F (fd_occurred f))))"
    using obj_get_finding_doc [of F f] by blast
  with assms show ?thesis
    by (simp add: render_finding_def render_time_def format_PPpp_def time_agrees_def finding_row_def finding_arrives_def)
qed

lemma render_finding_docs:
  assumes "list_all (\<lambda>f. time_agrees F H time (fd_occurred f)) fs"
  shows "map_res (\<lambda>(i, f). render_finding clsx H i f) (enumerate n (map (repaired \<circ> finding_doc F) fs))
     = Inr (map (finding_row clsx H time) (enumerate n (map finding_arrives fs)))"
  using assms by (induction fs arbitrary: n) (simp_all add: render_finding_doc [where time = time])

lemma render_history:
  assumes "list_all (\<lambda>f. time_agrees F H time (fd_occurred f)) fs"
    and "fs_findings s = Some (JArr (map (repaired \<circ> finding_doc F) fs))"
  shows "render_findings clsx H s
     = Inr (findings_frame clsx (map (finding_row clsx H time) (enumerate 0 (map finding_arrives fs))
         @ [when_node (fs = []) (no_findings_row clsx)]))"
  by (simp add: render_findings_def assms(2) render_finding_docs [OF assms(1)])

section \<open>Gauges\<close>

lemma metric_gauges_ok:
  "list_all (\<lambda>(n, i). gauge_name_ok n) (metric_gauges A) \<and> distinct (map fst (metric_gauges A))"
proof -
  have 1: "list_all (\<lambda>(n, i). gauge_name_ok n) (metric_gauges A)"
    by (cases "ap_signatures A"; (cases "the (ap_signatures A)")?)
       (simp_all add: metric_gauges_def gauge_name_ok_def is_space_def has_prefix_def)
  have 2: "distinct (map fst (metric_gauges A))"
    by (cases "ap_signatures A"; (cases "the (ap_signatures A)")?) (simp_all add: metric_gauges_def)
  from 1 2 show ?thesis ..
qed

lemma parse_buildMetrics:
  assumes "list_all (\<lambda>(n, i). \<bar>i\<bar> \<le> 2 ^ 53) (metric_gauges A)"
  shows "parse_metrics (buildMetrics A) = map_of (map (\<lambda>(n, i). (n, Fin (of_int i))) (metric_gauges A))"
proof -
  let ?gs = "metric_gauges A" and ?conv = "\<lambda>(n, i). (n, Fin (of_int i))"
  have "list_all (\<lambda>(n, i). gauge_name_ok n \<and> \<bar>i\<bar> \<le> 2 ^ 53) ?gs"
    using assms metric_gauges_ok [of A] by (auto simp: list_all_iff)
  moreover have "buildMetrics A = concat (map (\<lambda>g. gauge_text g @ [newline]) ?gs)"
    by (simp add: buildMetrics_def writeGauge_gauge_text [abs_def])
  ultimately have "parse_metrics (buildMetrics A) = map_of (rev (map ?conv ?gs))"
    using parse_metrics_gauges [of ?gs Map.empty] by (simp add: parse_metrics_def)
  moreover have "map fst (map ?conv ?gs) = map fst ?gs" by (simp add: case_prod_unfold comp_def)
  then have "distinct (map fst (map ?conv ?gs))" using metric_gauges_ok [of A] by (simp only:)
  then have "map_of (rev (map ?conv ?gs)) = map_of (map ?conv ?gs)"
    by (metis distinct_rev map_of_inject_set rev_map set_rev)
  ultimately show ?thesis by simp
qed

lemma server_gauges_arrive:
  assumes "wired F E A W"
    and "accepts (wu_token W) (token_or_empty ls)" "accepts (ap_token A) (token_or_empty ls)"
    and "list_all (\<lambda>(n, i). \<bar>i\<bar> \<le> 2 ^ 53) (metric_gauges A)"
  shows "getMetrics (browse N (web_serve W) w) ls
       = Inr (map_of (map (\<lambda>(n, i). (n, Fin (of_int i))) (metric_gauges A)))"
proof -
  let ?r = "fetch_text_request ls ''/metrics'' None"
  have "web_serve W (http_of ?r) w = api_handle F E A RMetrics (http_of ?r) w"
    using assms(2,3) by (intro serve_endpoint [OF assms(1), of "''/metrics''"]) (simp_all add: api_paths_def)
  then have "web_serve W (http_of ?r) w
      = (text_response ''text/plain; version=0.0.4'' (buildMetrics A), None, w)"
    by (simp add: reply_def)
  from browse_final [where serve = "web_serve W" and r = ?r and N = N, OF this]
  have "api_fetch_text (browse N (web_serve W) w) ls ''/metrics'' None = Inr (buildMetrics A)"
    by (simp add: api_fetch_text_def text_response_def response_of_def resp_ok_def body_text_def)
  then show ?thesis by (simp add: getMetrics_def parse_buildMetrics [OF assms(4)])
qed

section \<open>The trigger\<close>

lemma no_slash_plugin:
  assumes "list_all (\<lambda>(n, p). \<not> has_prefix n ''/'') m"
  shows "map_of m (''/api/scanners/trigger/'' @ name) = None"
proof (rule ccontr)
  assume "map_of m (''/api/scanners/trigger/'' @ name) \<noteq> None"
  then obtain p where "(''/api/scanners/trigger/'' @ name, p) \<in> set m" by (auto dest: map_of_SomeD)
  with assms show False by (auto simp: list_all_iff has_prefix_def)
qed

lemma trigger_through_web:
  assumes "wired F E A W" "plain_segment name" "list_all (\<lambda>(n, p). \<not> has_prefix n ''/'') (ap_mgr A)"
    and "hq_path r = ''/api/scanners/trigger/'' @ name"
    and "accepts (wu_token W) (request_token r)" "accepts (ap_token A) (request_token r)"
  shows "web_serve W r w
     = (writeJSON 400 (Some (error_doc (fo_error F (LookupFailed (PluginNotFound (''/api/scanners/trigger/'' @ name)))))), None, w)"
proof -
  have "web_serve W r w = api_serve F E A r w"
    using web_serve_api [OF _ assms(1)] serve_web_trigger [OF assms(2)] assms(4,5) by (simp add: authorized_accepts)
  also have "\<dots> = handleTrigger F E A r w"
    using serve_trigger(2) [OF assms(2)] assms(4,6) api_serve_route [of r RTrigger A F E w]
    by (simp add: authorized_accepts)
  finally show ?thesis
    using RunOnce_unknown [OF no_slash_plugin [OF assms(3), of name], of E 0 w] trim_trigger(2) [of name]
    by (simp add: handleTrigger_def assms(4))
qed

section \<open>Sample servers\<close>

definition sample_status :: sig_status where
  "sample_status = empty_sig_status\<lparr>sig_sources :=
     [(''osv'', \<lparr>ss_source = ''osv'', ss_url = [], ss_path = [], ss_bytes = 5, ss_updated = 7, ss_duration = [], ss_error = []\<rparr>),
      (''nvd'', \<lparr>ss_source = ''nvd'', ss_url = [], ss_path = [], ss_bytes = 0, ss_updated = 7, ss_duration = [],
         ss_error = ''status 500''\<rparr>)]\<rparr>"

definition sample_api :: "(int, unit) api" where
  "sample_api =
     \<lparr>ap_token = ''t'', ap_euid0 = False, ap_mgr = register_plugins [sample_plugin], ap_plugin_order = rev,
      ap_sched = sched_init 0 (), ap_job_order = rev,
      ap_cache = cache_add (sample_result\<lparr>r_findings := [sample_finding]\<rparr>) (NewResultCache 50),
      ap_latest_order = rev, ap_baselines = None, ap_results = None, ap_signatures = Some (Inr sample_status),
      ap_update = None\<rparr>"

definition sample_web :: "int webui" where
  "sample_web =
     \<lparr>wu_token = ''t'', wu_has_api = True, wu_backend = Some (api_serve sample_formats sample_env sample_api),
      wu_file_exists = (\<lambda>p. False), wu_file_server = (\<lambda>r. plain_response 404), wu_index = Some ''index.html''\<rparr>"

definition sample_wire :: wire where
  "sample_wire = \<lparr>wi_number = (\<lambda>q. ''0.5''), wi_reason = (\<lambda>c. ''reason''), wi_file = (\<lambda>f. f)\<rparr>"

definition sample_storage :: local_storage where
  "sample_storage = setToken Map.empty ''t''"

lemma sample_wired: "wired sample_formats sample_env sample_api sample_web"
  by (simp add: wired_def sample_web_def)

lemma sample_simps [simp]:
  "token_or_empty sample_storage = ''t''" "wu_token sample_web = ''t''" "ap_token sample_api = ''t''"
  by (simp_all add: sample_storage_def sample_web_def sample_api_def)

definition sample_doc :: json where
  "sample_doc = JArr [JObj [(''a'', JNum (- 12)), (''b'', JStr [CHR ''<'', CHR 0xC3, CHR 0xA9, CHR 0x22, newline])], JNull]"

lemma sample_doc_plain: "whole_doc sample_doc" "repaired sample_doc = sample_doc"
proof -
  have "valid_utf8 [CHR ''<'', CHR 0xC3, CHR 0xA9, CHR 0x22, newline]"
    by (simp add: valid_utf8.simps [of "_ # _"] valid_utf8.simps [of "[]"] rune_len_def byte_in_def newline_def)
  then show "whole_doc sample_doc" "repaired sample_doc = sample_doc" by (simp_all add: sample_doc_def)
qed

theorem document_crosses_wire_witness:
  "fetch_settle (json_parse id) (NetResponse (response_of sample_wire (writeJSON 200 (Some sample_doc)))) = Inr sample_doc"
  using document_crosses_wire [OF sample_doc_plain(1), of id sample_wire 200] sample_doc_plain(2) by simp

end
