(* ===== verification/GoPath.thy ===== *)
theory GoPath
  imports HttpMux
begin

text \<open>
  File paths on Unix as \<open>path/filepath\<close> treats them: \<open>Clean\<close>, \<open>Join\<close>, \<open>Base\<close>, \<open>Dir\<close>, \<open>Rel\<close>. A path is
  rooted when it starts with a slash; its elements are what is left after cleaning.
\<close>

definition is_rooted :: "string \<Rightarrow> bool" where
  "is_rooted p \<longleftrightarrow> has_prefix p ''/''"

fun clean_elem :: "bool \<Rightarrow> string list \<Rightarrow> string \<Rightarrow> string list" where
  "clean_elem rooted stack e =
     (if e = [] \<or> e = ''.'' then stack
      else if e = ''..'' then
        (case stack of [] \<Rightarrow> if rooted then [] else [e] | t # ts \<Rightarrow> if t = ''..'' then e # stack else ts)
      else e # stack)"

definition path_elems :: "string \<Rightarrow> string list" where
  "path_elems p = rev (foldl (clean_elem (is_rooted p)) [] (split_on (CHR ''/'') p))"

definition path_of :: "bool \<Rightarrow> string list \<Rightarrow> string" where
  "path_of rooted es =
     (if rooted then CHR ''/'' # join_slash es else if es = [] then ''.'' else join_slash es)"

definition filepath_clean :: "string \<Rightarrow> string" where
  "filepath_clean p = path_of (is_rooted p) (path_elems p)"

definition filepath_join :: "string \<Rightarrow> string \<Rightarrow> string" where
  "filepath_join a b =
     (if a \<noteq> [] then filepath_clean (a @ ''/'' @ b) else if b \<noteq> [] then filepath_clean b else [])"

definition filepath_base :: "string \<Rightarrow> string" where
  "filepath_base p =
     (if p = [] then ''.''
      else let b = last (split_on (CHR ''/'') (rev (dropWhile (\<lambda>c. c = CHR ''/'') (rev p))))
        in if b = [] then ''/'' else b)"

definition filepath_dir :: "string \<Rightarrow> string" where
  "filepath_dir p = filepath_clean (rev (dropWhile (\<lambda>c. c \<noteq> CHR ''/'') (rev p)))"

fun drop_common :: "string list \<Rightarrow> string list \<Rightarrow> string list \<times> string list" where
  "drop_common (a # as) (b # bs) = (if a = b then drop_common as bs else (a # as, b # bs))"
| "drop_common as bs = (as, bs)"

definition filepath_rel :: "string \<Rightarrow> string \<Rightarrow> string option" where
  "filepath_rel base targ =
     (if filepath_clean targ = filepath_clean base then Some ''.''
      else if is_rooted base \<noteq> is_rooted targ then None
      else let (bs, ts) = drop_common (path_elems base) (path_elems targ)
        in if bs \<noteq> [] \<and> hd bs = ''..'' then None
           else Some (join_slash (replicate (length bs) ''..'' @ ts)))"

section \<open>Cleaned paths\<close>

text \<open>The elements of a cleaned path: names, after some leading \<open>..\<close> in a path that is not rooted.\<close>

definition stack_ok :: "bool \<Rightarrow> string list \<Rightarrow> bool" where
  "stack_ok rooted st \<longleftrightarrow>
     (\<exists>names k. st = names @ replicate k ''..'' \<and> list_all plain_segment names \<and> (rooted \<longrightarrow> k = 0))"

lemma stack_okI: "list_all plain_segment names \<Longrightarrow> (rooted \<Longrightarrow> k = 0) \<Longrightarrow> stack_ok rooted (names @ replicate k ''..'')"
  by (auto simp: stack_ok_def)

lemma stack_ok_step:
  assumes "stack_ok rooted st" "CHR ''/'' \<notin> set e"
  shows "stack_ok rooted (clean_elem rooted st e)"
proof -
  obtain names k where st: "st = names @ replicate k ''..''" "list_all plain_segment names" "rooted \<Longrightarrow> k = 0"
    using assms(1) by (auto simp: stack_ok_def)
  consider "e = [] \<or> e = ''.''" | (up) "e = ''..''" | (name) "plain_segment e"
    using assms(2) by (auto simp: plain_segment_def)
  then show ?thesis
  proof cases
    case up
    show ?thesis
    proof (cases names)
      case Nil
      show ?thesis
        using up Nil st stack_okI [of "[]" rooted "Suc k"] stack_okI [of "[]" rooted 0] by (cases k; cases rooted) auto
    next
      case (Cons n ns)
      then show ?thesis using up st stack_okI [of ns rooted k] by (simp add: plain_segment_def)
    qed
  next
    case name
    then show ?thesis using st stack_okI [of "e # names" rooted k] by (auto simp: plain_segment_def)
  qed (use assms(1) in auto)
qed

lemma stack_ok_foldl:
  "stack_ok rooted st \<Longrightarrow> \<forall>e \<in> set es. CHR ''/'' \<notin> set e \<Longrightarrow> stack_ok rooted (foldl (clean_elem rooted) st es)"
proof (induction es arbitrary: st)
  case (Cons e es)
  then show ?case using stack_ok_step [of rooted st e] by simp
qed simp

lemma stack_ok_Nil [simp]: "stack_ok rooted []"
  by (simp add: stack_ok_def)

lemma path_elems_ok: "stack_ok (is_rooted p) (rev (path_elems p))"
  by (simp add: path_elems_def stack_ok_foldl split_on_no_sep del: clean_elem.simps)

lemma path_elems_rooted: "is_rooted p \<Longrightarrow> list_all plain_segment (path_elems p)"
  using path_elems_ok [of p] by (auto simp: stack_ok_def list_all_iff)

lemma foldl_clean_names:
  "list_all plain_segment es \<Longrightarrow> foldl (clean_elem rooted) st es = rev es @ st"
  by (induction es arbitrary: st) (auto simp: plain_segment_def)

lemma split_on_append_slash: "split_on c (a @ c # b) = split_on c a @ split_on c b"
  by (induction a) (auto split: list.splits)

lemma is_rooted_append [simp]: "a \<noteq> [] \<Longrightarrow> is_rooted (a @ b) = is_rooted a"
  by (cases a) (auto simp: is_rooted_def)

text \<open>Joining: the second path's elements are cleaned on top of the first one's.\<close>

lemma path_elems_append:
  assumes "a \<noteq> []"
  shows "path_elems (a @ ''/'' @ b)
    = rev (foldl (clean_elem (is_rooted a)) (rev (path_elems a)) (split_on (CHR ''/'') b))"
  using assms by (simp add: path_elems_def split_on_append_slash foldl_append del: clean_elem.simps)

lemma plain_no_slash: "list_all plain_segment es \<Longrightarrow> list_all (\<lambda>e. CHR ''/'' \<notin> set e) es"
  by (auto simp: list_all_iff plain_segment_def)

lemma foldl_path_of:
  assumes "list_all plain_segment es"
  shows "foldl (clean_elem rooted) st (split_on (CHR ''/'') (path_of r es)) = rev es @ st"
proof (cases "es = []")
  case False
  have "split_on (CHR ''/'') (join_slash es) = es"
    using plain_no_slash [OF assms] False by (rule split_on_join_slash)
  with False foldl_clean_names [OF assms] show ?thesis by (simp add: path_of_def)
qed (simp add: path_of_def)

lemma is_rooted_path_of:
  assumes "list_all plain_segment es"
  shows "is_rooted (path_of r es) = r"
proof (cases "es = [] \<or> r")
  case False
  then obtain e es' where "es = e # es'" by (cases es) auto
  with assms obtain c u where "es = (c # u) # es'" "c \<noteq> CHR ''/''" by (cases e) (auto simp: plain_segment_def)
  with False show ?thesis by (cases es') (auto simp: path_of_def is_rooted_def)
qed (auto simp: path_of_def is_rooted_def)

lemma path_elems_path_of: "list_all plain_segment es \<Longrightarrow> path_elems (path_of r es) = es"
  by (simp add: path_elems_def foldl_path_of)

lemma rooted_nonempty: "is_rooted p \<Longrightarrow> p \<noteq> []"
  by (auto simp: is_rooted_def)

lemma filepath_join_rooted:
  assumes "is_rooted d" "list_all plain_segment ns"
  shows "filepath_join d (path_of r ns) = path_of True (path_elems d @ ns)"
proof -
  note ne = rooted_nonempty [OF assms(1)]
  have "path_elems (d @ ''/'' @ path_of r ns) = path_elems d @ ns"
    unfolding path_elems_append [OF ne] by (simp only: foldl_path_of [OF assms(2)] rev_append rev_rev_ident)
  with ne assms(1) show ?thesis by (simp add: filepath_join_def filepath_clean_def)
qed

lemma join_slash_append: "as \<noteq> [] \<Longrightarrow> bs \<noteq> [] \<Longrightarrow> join_slash (as @ bs) = join_slash as @ ''/'' @ join_slash bs"
proof (induction as rule: join_slash.induct)
  case (2 s)
  then show ?case by (simp add: join_slash_Cons)
qed auto

text \<open>A rooted path below another one.\<close>

lemma path_of_below:
  "ds \<noteq> [] \<Longrightarrow> ns \<noteq> [] \<Longrightarrow> path_of True (ds @ ns) = path_of True ds @ ''/'' @ join_slash ns"
  by (simp add: path_of_def join_slash_append)

text \<open>The elements that are names: no \<open>..\<close> is among them exactly when the cleaned path does not start with one.\<close>

lemma path_elems_cases:
  obtains names k where "path_elems p = replicate k ''..'' @ names" "list_all plain_segment names" "is_rooted p \<longrightarrow> k = 0"
proof -
  obtain names k where st: "rev (path_elems p) = names @ replicate k ''..''" "list_all plain_segment names" "is_rooted p \<longrightarrow> k = 0"
    using path_elems_ok [of p] unfolding stack_ok_def by blast
  then have "path_elems p = replicate k ''..'' @ rev names" by (metis rev_append rev_replicate rev_rev_ident)
  then show ?thesis using st(2,3) that [of k "rev names"] by simp
qed

lemma join_slash_nonempty: "es \<noteq> [] \<Longrightarrow> [] \<notin> set es \<Longrightarrow> join_slash es \<noteq> []"
  by (cases es rule: join_slash.cases) auto

lemma filepath_clean_nonempty: "filepath_clean p \<noteq> []"
proof -
  obtain names k where e: "path_elems p = replicate k ''..'' @ names" "list_all plain_segment names" "is_rooted p \<longrightarrow> k = 0"
    by (rule path_elems_cases)
  have "[] \<notin> set (path_elems p)" unfolding e(1) using e(2) by (auto simp: list_all_iff plain_segment_def)
  then show ?thesis using join_slash_nonempty [of "path_elems p"] by (simp add: filepath_clean_def path_of_def)
qed

lemma climbing_prefix:
  assumes "\<not> has_prefix (filepath_clean p) ''..''"
  shows "list_all plain_segment (path_elems p)"
proof -
  obtain names k where e: "path_elems p = replicate k ''..'' @ names" "list_all plain_segment names" "is_rooted p \<longrightarrow> k = 0"
    by (rule path_elems_cases [of p])
  have "k = 0"
  proof (rule ccontr)
    assume "k \<noteq> 0"
    then obtain j where "k = Suc j" by (cases k) auto
    moreover from this have "\<not> is_rooted p" using e(3) by auto
    ultimately show False using assms e(1)
      by (cases "replicate j ''..'' @ names") (simp_all add: filepath_clean_def path_of_def)
  qed
  with e show ?thesis by simp
qed

end
