(* ===== verification/SigFiles.thy ===== *)
theory SigFiles
  imports GoPath
begin

text \<open>
  The files of the signature updater, the second half of \<open>internal/signatures/updater.go\<close>: the check of
  the paths in an archive, copying, and the import of a directory, an archive or a file. The state is
  the list of calls made to the file system; what a call returns is a parameter that may depend on all
  the calls before it. The readers of \<open>archive/zip\<close>, \<open>archive/tar\<close> and \<open>compress/gzip\<close> are parameters too.
\<close>

section \<open>The file system\<close>

datatype os_call =
    MkdirAll string
  | CreateTemp string
  | CreateFile string
  | WriteFile string string
  | SyncFile string
  | CloseFile string
  | RenameFile string string
  | RemoveFile string

type_synonym calls = "os_call list"

datatype tar_type = TypeDir | TypeReg | TypeOther

record tar_header =
  th_name :: string
  th_type :: tar_type
  th_body :: string

record zip_file =
  zf_name :: string
  zf_dir :: bool
  zf_open :: "(string, string) result"

text \<open>
  \<open>os_walk\<close> lists the visits of \<open>filepath.WalkDir\<close>: path, whether it is a directory, and the error handed
  to the callback. \<open>os_untar\<close> lists the results of \<open>Next\<close> up to the end of the archive.
\<close>

record os =
  os_error :: "calls \<Rightarrow> os_call \<Rightarrow> string option"
  os_temp :: "calls \<Rightarrow> string \<Rightarrow> string"
  os_stat :: "calls \<Rightarrow> string \<Rightarrow> (string, bool) result"
  os_read :: "calls \<Rightarrow> string \<Rightarrow> (string, string) result"
  os_walk :: "calls \<Rightarrow> string \<Rightarrow> (string \<times> bool \<times> string option) list"
  os_zip :: "calls \<Rightarrow> string \<Rightarrow> (string, zip_file list) result"
  os_gzip_header :: "string \<Rightarrow> string option"
  os_gunzip :: "string \<Rightarrow> string"
  os_untar :: "string \<Rightarrow> (string, tar_header) result list"
  os_clock :: "calls \<Rightarrow> int"

type_synonym outcome = "string option \<times> calls"

definition os_do :: "os \<Rightarrow> os_call \<Rightarrow> calls \<Rightarrow> outcome" where
  "os_do S c cs = (os_error S cs c, cs @ [c])"

text \<open>Go on when there was no error.\<close>

definition and_then :: "outcome \<Rightarrow> (calls \<Rightarrow> outcome) \<Rightarrow> outcome" where
  "and_then r f = (case r of (Some e, cs) \<Rightarrow> (Some e, cs) | (None, cs) \<Rightarrow> f cs)"

text \<open>A call that is made whatever happened and whose error is dropped.\<close>

definition finally_do :: "os \<Rightarrow> os_call \<Rightarrow> outcome \<Rightarrow> outcome" where
  "finally_do S c r = (fst r, snd (os_do S c (snd r)))"

section \<open>Paths in archives\<close>

definition safeExtractPath :: "string \<Rightarrow> string \<Rightarrow> (string, string) result" where
  "safeExtractPath dest name =
     (let cleaned = filepath_clean name in
      if has_prefix cleaned ''..'' \<or> str_contains cleaned ''../'' then Inl (''invalid path traversal: '' @ name)
      else let cleanDest = filepath_clean dest;
               target = filepath_join cleanDest cleaned;
               pre = cleanDest @ ''/''
        in if target \<noteq> cleanDest \<and> \<not> has_prefix target pre then Inl (''invalid extract target: '' @ target)
           else Inr target)"

section \<open>Copying\<close>

definition write_file :: "os \<Rightarrow> string \<Rightarrow> string \<Rightarrow> calls \<Rightarrow> outcome" where
  "write_file S target body cs =
     and_then (os_do S (CreateFile target) cs) (\<lambda>cs.
     finally_do S (CloseFile target) (os_do S (WriteFile target body) cs))"

definition copyFile :: "os \<Rightarrow> string \<Rightarrow> string \<Rightarrow> calls \<Rightarrow> outcome" where
  "copyFile S src dest cs0 =
     and_then (os_do S (MkdirAll (filepath_dir dest)) cs0) (\<lambda>cs.
     case os_read S cs src of
       Inl e \<Rightarrow> (Some e, cs)
     | Inr body \<Rightarrow>
         and_then (os_do S (CreateFile dest) cs) (\<lambda>cs.
         finally_do S (CloseFile dest)
           (and_then (os_do S (WriteFile dest body) cs) (\<lambda>cs. os_do S (SyncFile dest) cs))))"

fun copy_visits :: "os \<Rightarrow> string \<Rightarrow> string \<Rightarrow> (string \<times> bool \<times> string option) list \<Rightarrow> calls \<Rightarrow> outcome" where
  "copy_visits S src dest [] cs = (None, cs)"
| "copy_visits S src dest ((pathname, is_dir, err) # vs) cs =
     (case err of
        Some e \<Rightarrow> (Some e, cs)
      | None \<Rightarrow>
          (case filepath_rel src pathname of
             None \<Rightarrow> (Some (''Rel: can't make '' @ pathname @ '' relative to '' @ src), cs)
           | Some rel \<Rightarrow>
               (let target = filepath_join dest rel in
                and_then (if is_dir then os_do S (MkdirAll target) cs else copyFile S pathname target cs)
                  (copy_visits S src dest vs))))"

definition copyDir :: "os \<Rightarrow> string \<Rightarrow> string \<Rightarrow> calls \<Rightarrow> outcome" where
  "copyDir S src dest cs = copy_visits S src dest (os_walk S cs src) cs"

section \<open>Extracting\<close>

fun extract_files :: "os \<Rightarrow> string \<Rightarrow> zip_file list \<Rightarrow> calls \<Rightarrow> outcome" where
  "extract_files S dest [] cs = (None, cs)"
| "extract_files S dest (f # fs) cs =
     (case safeExtractPath dest (zf_name f) of
        Inl e \<Rightarrow> (Some e, cs)
      | Inr target \<Rightarrow>
          and_then
            (if zf_dir f then os_do S (MkdirAll target) cs
             else and_then (os_do S (MkdirAll (filepath_dir target)) cs) (\<lambda>cs.
               case zf_open f of Inl e \<Rightarrow> (Some e, cs) | Inr body \<Rightarrow> write_file S target body cs))
            (extract_files S dest fs))"

definition extractZip :: "os \<Rightarrow> string \<Rightarrow> string \<Rightarrow> calls \<Rightarrow> outcome" where
  "extractZip S src dest cs =
     (case os_zip S cs src of Inl e \<Rightarrow> (Some e, cs) | Inr fs \<Rightarrow> extract_files S dest fs cs)"

fun extractTarReader :: "os \<Rightarrow> string \<Rightarrow> (string, tar_header) result list \<Rightarrow> calls \<Rightarrow> outcome" where
  "extractTarReader S dest [] cs = (None, cs)"
| "extractTarReader S dest (Inl e # hs) cs = (Some e, cs)"
| "extractTarReader S dest (Inr h # hs) cs =
     (case safeExtractPath dest (th_name h) of
        Inl e \<Rightarrow> (Some e, cs)
      | Inr target \<Rightarrow>
          and_then
            (case th_type h of
               TypeDir \<Rightarrow> os_do S (MkdirAll target) cs
             | TypeReg \<Rightarrow> and_then (os_do S (MkdirAll (filepath_dir target)) cs) (write_file S target (th_body h))
             | TypeOther \<Rightarrow> (None, cs))
            (extractTarReader S dest hs))"

definition extractTar :: "os \<Rightarrow> string \<Rightarrow> string \<Rightarrow> calls \<Rightarrow> outcome" where
  "extractTar S src dest cs =
     (case os_read S cs src of Inl e \<Rightarrow> (Some e, cs) | Inr file \<Rightarrow> extractTarReader S dest (os_untar S file) cs)"

definition extractTarGz :: "os \<Rightarrow> string \<Rightarrow> string \<Rightarrow> calls \<Rightarrow> outcome" where
  "extractTarGz S src dest cs =
     (case os_read S cs src of
        Inl e \<Rightarrow> (Some e, cs)
      | Inr file \<Rightarrow>
          (case os_gzip_header S file of
             Some e \<Rightarrow> (Some e, cs)
           | None \<Rightarrow> extractTarReader S dest (os_untar S (os_gunzip S file)) cs))"

definition prefix_error :: "string \<Rightarrow> outcome \<Rightarrow> outcome" where
  "prefix_error msg r = (map_option (\<lambda>e. msg @ e) (fst r), snd r)"

definition importAirgap :: "os \<Rightarrow> string \<Rightarrow> string \<Rightarrow> calls \<Rightarrow> outcome" where
  "importAirgap S srcPath destDir cs =
     (case os_stat S cs srcPath of
        Inl e \<Rightarrow> (Some (''stat airgap path: '' @ e), cs)
      | Inr is_dir \<Rightarrow>
          and_then (prefix_error ''create cache dir: '' (os_do S (MkdirAll destDir) cs)) (\<lambda>cs.
            if is_dir then copyDir S srcPath destDir cs
            else if has_suffix srcPath ''.zip'' then extractZip S srcPath destDir cs
            else if has_suffix srcPath ''.tar.gz'' \<or> has_suffix srcPath ''.tgz'' then extractTarGz S srcPath destDir cs
            else if has_suffix srcPath ''.tar'' then extractTar S srcPath destDir cs
            else copyFile S srcPath (filepath_join destDir (filepath_base srcPath)) cs))"

section \<open>What is written where\<close>

text \<open>A path that is the cleaned directory or lies below it, given by its elements.\<close>

definition below :: "string \<Rightarrow> string \<Rightarrow> bool" where
  "below dest p \<longleftrightarrow> (\<exists>es. list_all plain_segment es \<and> p = path_of True (path_elems dest @ es))"

lemma cleaned_rooted:
  assumes "is_rooted d"
  shows "is_rooted (filepath_clean d)" "path_elems (filepath_clean d) = path_elems d"
  using path_elems_rooted [OF assms] assms by (simp_all add: filepath_clean_def is_rooted_path_of path_elems_path_of)

lemma join_cleaned:
  assumes "is_rooted d" "list_all plain_segment (path_elems name)"
  shows "filepath_join (filepath_clean d) (filepath_clean name) = path_of True (path_elems d @ path_elems name)"
  using filepath_join_rooted [OF cleaned_rooted(1) [OF assms(1)] assms(2), of "is_rooted name"] cleaned_rooted(2) [OF assms(1)]
  by (simp add: filepath_clean_def [of name])

lemma safe_path_shape:
  assumes "is_rooted dest" "safeExtractPath dest name = Inr target"
  shows "list_all plain_segment (path_elems name) \<and> target = path_of True (path_elems dest @ path_elems name)"
proof -
  have p: "list_all plain_segment (path_elems name)"
    using assms(2) by (intro climbing_prefix) (auto simp: safeExtractPath_def Let_def split: if_splits)
  have "target = filepath_join (filepath_clean dest) (filepath_clean name)"
    using assms(2) by (auto simp: safeExtractPath_def Let_def split: if_splits)
  also have "\<dots> = path_of True (path_elems dest @ path_elems name)" using assms(1) p by (rule join_cleaned)
  finally show ?thesis using p by simp
qed

lemma str_contains_iff: "str_contains s p \<longleftrightarrow> (\<exists>a b. s = a @ p @ b)"
proof (induction s)
  case (Cons c s)
  have "has_prefix (c # s) p \<longleftrightarrow> (\<exists>b. c # s = p @ b)" by (auto simp: has_prefix_iff)
  then show ?case using Cons by (auto simp: Cons_eq_append_conv)
qed simp

text \<open>The second test never fails below a directory other than the root, so the first one decides.\<close>

lemma safe_path_accepts:
  assumes "is_rooted dest" "path_elems dest \<noteq> []"
    and "\<not> has_prefix (filepath_clean name) ''..''" "\<not> str_contains (filepath_clean name) ''../''"
  shows "safeExtractPath dest name = Inr (path_of True (path_elems dest @ path_elems name))"
proof -
  have p: "list_all plain_segment (path_elems name)" using assms(3) by (rule climbing_prefix)
  have j: "filepath_join (filepath_clean dest) (filepath_clean name) = path_of True (path_elems dest @ path_elems name)"
    using assms(1) p by (rule join_cleaned)
  have "path_of True (path_elems dest @ path_elems name) = filepath_clean dest
      \<or> has_prefix (path_of True (path_elems dest @ path_elems name)) (filepath_clean dest @ ''/'')"
  proof (cases "path_elems name = []")
    case False
    from path_of_below [OF assms(2) False] show ?thesis
      using has_prefix_append [of "path_of True (path_elems dest) @ ''/''"] assms(1)
      by (simp add: filepath_clean_def)
  qed (use assms(1) in \<open>simp add: filepath_clean_def\<close>)
  then show ?thesis using assms(3,4) by (auto simp: safeExtractPath_def j)
qed

text \<open>
  The calls an import may make: files are created and written at or below the directory; directories
  are made at or below it, or as the parent of a file there.
\<close>

fun call_inside :: "string \<Rightarrow> os_call \<Rightarrow> bool" where
  "call_inside dest (MkdirAll p) \<longleftrightarrow> p = dest \<or> (\<exists>q. below dest q \<and> (p = q \<or> p = filepath_dir q))"
| "call_inside dest (CreateFile p) \<longleftrightarrow> below dest p"
| "call_inside dest (WriteFile p b) \<longleftrightarrow> below dest p"
| "call_inside dest (SyncFile p) \<longleftrightarrow> below dest p"
| "call_inside dest (CloseFile p) \<longleftrightarrow> below dest p"
| "call_inside dest (CreateTemp p) \<longleftrightarrow> False"
| "call_inside dest (RenameFile p q) \<longleftrightarrow> False"
| "call_inside dest (RemoveFile p) \<longleftrightarrow> False"

definition all_inside :: "string \<Rightarrow> calls \<Rightarrow> outcome \<Rightarrow> bool" where
  "all_inside dest cs r \<longleftrightarrow> (\<exists>new. snd r = cs @ new \<and> list_all (call_inside dest) new)"

lemma inside_none [simp]: "all_inside dest cs (e, cs)"
  by (simp add: all_inside_def)

lemma inside_do [intro]: "call_inside dest c \<Longrightarrow> all_inside dest cs (os_do S c cs)"
  by (simp add: all_inside_def os_do_def)

lemma inside_and_then [intro]:
  assumes "all_inside dest cs r" "\<And>cs'. all_inside dest cs' (f cs')"
  shows "all_inside dest cs (and_then r f)"
proof (cases r)
  case (Pair e cs1)
  with assms(1) obtain new where new: "cs1 = cs @ new" "list_all (call_inside dest) new" by (auto simp: all_inside_def)
  moreover obtain new2 where "snd (f cs1) = cs1 @ new2" "list_all (call_inside dest) new2"
    using assms(2) by (auto simp: all_inside_def)
  ultimately show ?thesis using Pair by (cases e) (auto simp: and_then_def all_inside_def)
qed

lemma inside_finally [intro]: "all_inside dest cs r \<Longrightarrow> call_inside dest c \<Longrightarrow> all_inside dest cs (finally_do S c r)"
  by (auto simp: all_inside_def finally_do_def os_do_def)

lemma inside_write_file: "below dest target \<Longrightarrow> all_inside dest cs (write_file S target body cs)"
  unfolding write_file_def by (intro inside_and_then inside_finally inside_do) auto

lemma inside_parent: "below dest target \<Longrightarrow> call_inside dest (MkdirAll (filepath_dir target))"
  by auto

lemma safe_path_below: "is_rooted dest \<Longrightarrow> safeExtractPath dest name = Inr target \<Longrightarrow> below dest target"
  using safe_path_shape by (auto simp: below_def)

lemma inside_parent_write:
  assumes "below dest target"
  shows "all_inside dest cs (and_then (os_do S (MkdirAll (filepath_dir target)) cs) (write_file S target body))"
  using assms by (intro inside_and_then inside_do inside_write_file) auto

lemma inside_tar:
  assumes "is_rooted dest"
  shows "all_inside dest cs (extractTarReader S dest hs cs)"
proof (induction hs arbitrary: cs)
  case (Cons h hs)
  show ?case
  proof (cases h)
    case (Inr h')
    show ?thesis
    proof (cases "safeExtractPath dest (th_name h')")
      case target: (Inr target)
      from safe_path_below [OF assms this] have b: "below dest target" .
      then show ?thesis using Inr target Cons
        by (auto intro!: inside_and_then inside_do inside_parent_write split: tar_type.split)
    qed (simp add: Inr)
  qed simp
qed simp

lemma inside_zip:
  assumes "is_rooted dest"
  shows "all_inside dest cs (extract_files S dest fs cs)"
proof (induction fs arbitrary: cs)
  case (Cons f fs)
  show ?case
  proof (cases "safeExtractPath dest (zf_name f)")
    case (Inr target)
    from safe_path_below [OF assms this] have b: "below dest target" .
    then show ?thesis using Inr Cons
      by (cases "zf_open f") (auto intro!: inside_and_then inside_do inside_write_file)
  qed simp
qed simp

lemma inside_copyFile: "below dest target \<Longrightarrow> all_inside dest cs (copyFile S src target cs)"
  unfolding copyFile_def
  by (intro inside_and_then inside_do) (auto intro!: inside_and_then inside_do inside_finally split: sum.split)

lemma drop_common_append: "drop_common as (as @ bs) = ([], bs)"
  by (induction as) (cases bs; simp)+

lemma filepath_rel_below:
  assumes "is_rooted src" "list_all plain_segment es"
  shows "filepath_rel src (path_of True (path_elems src @ es)) = Some (path_of False es)"
proof -
  let ?p = "path_of True (path_elems src @ es)"
  have all: "list_all plain_segment (path_elems src @ es)" using path_elems_rooted [OF assms(1)] assms(2) by simp
  have p: "is_rooted ?p" "path_elems ?p = path_elems src @ es"
    using is_rooted_path_of [OF all] path_elems_path_of [OF all] by simp_all
  then have c: "filepath_clean ?p = ?p" by (simp add: filepath_clean_def)
  show ?thesis
  proof (cases "es = []")
    case True
    then show ?thesis using c assms(1) by (simp add: filepath_rel_def filepath_clean_def [of src] path_of_def [of False])
  next
    case False
    have "?p \<noteq> filepath_clean src"
      using False p(2) cleaned_rooted(2) [OF assms(1)] by (metis append_self_conv)
    then show ?thesis using c p assms(1) False by (simp add: filepath_rel_def drop_common_append path_of_def [of False])
  qed
qed

lemma inside_visits:
  assumes "is_rooted dest" "is_rooted src"
  shows "list_all (\<lambda>(p, d, e). below src p) vs \<Longrightarrow> all_inside dest cs (copy_visits S src dest vs cs)"
proof (induction vs arbitrary: cs)
  case (Cons v vs)
  obtain p d e where v: "v = (p, d, e)" by (cases v)
  with Cons.prems obtain es where es: "list_all plain_segment es" "p = path_of True (path_elems src @ es)"
    by (auto simp: below_def)
  have t: "below dest (filepath_join dest (path_of False es))"
    unfolding filepath_join_rooted [OF assms(1) es(1)] below_def using es(1) by blast
  have IH: "all_inside dest cs' (copy_visits S src dest vs cs')" for cs'
    using Cons by simp
  show ?case
    using t IH filepath_rel_below [OF assms(2) es(1)] es(2)
    by (auto simp: v Let_def split: option.split intro!: inside_and_then inside_do inside_copyFile)
qed simp

lemma inside_prefix [intro]: "all_inside dest cs r \<Longrightarrow> all_inside dest cs (prefix_error msg r)"
  by (simp add: all_inside_def prefix_error_def)

text \<open>C25 An import writes only into the cache directory, whatever the archive holds and whatever the file system
  answers: every file it creates lies at or below that directory, and so does every directory it makes,
  save the parent of a file there.\<close>

theorem import_stays_inside:
  assumes "is_rooted destDir" "is_rooted srcPath"
    and walk: "\<And>cs. list_all (\<lambda>(p, d, e). below srcPath p) (os_walk S cs srcPath)"
    and names: "os_stat S cs srcPath = Inr False \<Longrightarrow> plain_segment (filepath_base srcPath)"
  shows "all_inside destDir cs (importAirgap S srcPath destDir cs)"
proof (cases "os_stat S cs srcPath")
  case (Inr is_dir)
  have base: "below destDir (filepath_join destDir (filepath_base srcPath))" if "\<not> is_dir"
  proof -
    have n: "list_all plain_segment [filepath_base srcPath]" using names Inr that by simp
    have "filepath_join destDir (filepath_base srcPath) = path_of True (path_elems destDir @ [filepath_base srcPath])"
      using filepath_join_rooted [OF assms(1) n, of False] by (simp add: path_of_def [of False])
    with n show ?thesis unfolding below_def by blast
  qed
  show ?thesis
    unfolding importAirgap_def Inr
    by (simp, intro inside_and_then inside_prefix inside_do)
       (use base walk in \<open>auto simp: copyDir_def extractZip_def extractTarGz_def extractTar_def inside_tar [OF assms(1)]
          inside_zip [OF assms(1)] inside_visits [OF assms(1,2)] inside_copyFile split: sum.split option.split\<close>)
qed (simp add: importAirgap_def)

definition sample_os :: os where
  "sample_os =
     \<lparr>os_error = (\<lambda>cs c. None), os_temp = (\<lambda>cs d. d @ ''/download-1''), os_stat = (\<lambda>cs p. Inr False),
      os_read = (\<lambda>cs p. Inr ''archive''), os_walk = (\<lambda>cs p. []), os_zip = (\<lambda>cs p. Inl ''zip: not a valid zip file''),
      os_gzip_header = (\<lambda>f. None), os_gunzip = id,
      os_untar = (\<lambda>f. [Inr \<lparr>th_name = ''feeds'', th_type = TypeDir, th_body = []\<rparr>,
         Inr \<lparr>th_name = ''feeds/../kev.json'', th_type = TypeReg, th_body = ''{}''\<rparr>,
         Inr \<lparr>th_name = ''../../etc/passwd'', th_type = TypeReg, th_body = ''x''\<rparr>]),
      os_clock = (\<lambda>cs. int (length cs))\<rparr>"

text \<open>The sample archive: a directory, a file, and a path that climbs out, which ends the import.\<close>

lemma sample_import:
  "importAirgap sample_os ''/a.tar'' ''/cache'' [] =
     (Some ''invalid path traversal: ../../etc/passwd'',
      [MkdirAll ''/cache'', MkdirAll ''/cache/feeds'', MkdirAll ''/cache'', CreateFile ''/cache/kev.json'',
       WriteFile ''/cache/kev.json'' ''{}'', CloseFile ''/cache/kev.json''])"
  by code_simp

theorem import_stays_inside_witness:
  "all_inside ''/cache'' [] (importAirgap sample_os ''/a.tar'' ''/cache'' [])"
proof (rule import_stays_inside)
  show "plain_segment (filepath_base ''/a.tar'')" by code_simp
qed (simp_all add: is_rooted_def sample_os_def)

text \<open>Which names of an archive are accepted, below a cache directory other than the root: exactly those whose
  cleaned form neither starts with two dots nor has a component ending in them before a slash. The code means
  to refuse the paths that climb out; it also refuses names such as \<open>..data\<close>, which do not. The accepted
  names keep their elements, so two of them clash only when they clean to the same path.\<close>

theorem safe_path_iff:
  assumes "is_rooted dest" "path_elems dest \<noteq> []"
  shows "if has_prefix (filepath_clean name) ''..'' \<or> str_contains (filepath_clean name) ''../''
    then safeExtractPath dest name = Inl (''invalid path traversal: '' @ name)
    else ''..'' \<notin> set (path_elems name) \<and>
      safeExtractPath dest name = Inr (filepath_clean dest @
        (if path_elems name = [] then [] else ''/'' @ join_slash (path_elems name)))"
proof (cases "has_prefix (filepath_clean name) ''..'' \<or> str_contains (filepath_clean name) ''../''")
  case True
  then show ?thesis by (auto simp: safeExtractPath_def)
next
  case False
  then have "''..'' \<notin> set (path_elems name)"
    using climbing_prefix [of name] by (auto simp: list_all_iff plain_segment_def)
  then show ?thesis
    using False safe_path_accepts [OF assms] path_of_below [OF assms(2), of "path_elems name"] assms(1)
    by (auto simp: filepath_clean_def [of dest])
qed

theorem safe_path_iff_witness:
  "if has_prefix (filepath_clean ''feeds/../kev.json'') ''..'' \<or> str_contains (filepath_clean ''feeds/../kev.json'') ''../''
    then safeExtractPath ''/cache'' ''feeds/../kev.json'' = Inl (''invalid path traversal: '' @ ''feeds/../kev.json'')
    else ''..'' \<notin> set (path_elems ''feeds/../kev.json'') \<and>
      safeExtractPath ''/cache'' ''feeds/../kev.json'' = Inr (filepath_clean ''/cache'' @
        (if path_elems ''feeds/../kev.json'' = [] then [] else ''/'' @ join_slash (path_elems ''feeds/../kev.json'')))"
proof -
  have "is_rooted ''/cache''" "path_elems ''/cache'' \<noteq> []" by code_simp+
  then show ?thesis by (rule safe_path_iff)
qed

end
