(* ===== verification/SigUpdate.thy ===== *)
theory SigUpdate
  imports SigFiles Signatures
begin

text \<open>
  The signature updater, the first half of \<open>internal/signatures/updater.go\<close>: the download of one source,
  the table of sources, a run over the configured ones, the trigger and the loop. The network is a
  parameter; clock readings, like the file system's answers, may depend on the calls made so far.
\<close>

record updater_config =
  uc_enabled :: bool
  uc_interval :: int
  uc_sources :: "string list"
  uc_cache_dir :: string
  uc_airgap :: string
  uc_source_urls :: "string gomap"

section \<open>One source\<close>

datatype download = RequestError string | DownloadError string | Download int string

type_synonym net = "calls \<Rightarrow> string \<Rightarrow> download"

definition filenameForURL :: "string \<Rightarrow> string" where
  "filenameForURL raw =
     (let parsed = hd (split_on (CHR ''?'') raw);
          base = trim_space (filepath_base parsed)
      in if base = ''.'' \<or> base = ''/'' \<or> base = [] then [] else base)"

definition blank_source :: "string \<Rightarrow> source_status" where
  "blank_source src =
     \<lparr>ss_source = src, ss_url = [], ss_path = [], ss_bytes = 0, ss_updated = zero_time, ss_duration = [], ss_error = []\<rparr>"

text \<open>
  The request, the copy of the body into the temporary file, and its move: the part after the deferred
  removal of the temporary file. The result is the number of bytes. \<open>tmp\<close> is closed only after the copy.
\<close>

definition fetch_to :: "os \<Rightarrow> net \<Rightarrow> string \<Rightarrow> string \<Rightarrow> string \<Rightarrow> calls \<Rightarrow> (string, int) result \<times> calls" where
  "fetch_to S net url tmp dest cs =
     (case net cs url of
        RequestError e \<Rightarrow> (Inl (''build request: '' @ e), cs)
      | DownloadError e \<Rightarrow> (Inl (''download: '' @ e), cs)
      | Download code body \<Rightarrow>
          if code \<noteq> 200 then (Inl (''download status '' @ show_int code), cs)
          else (case os_do S (WriteFile tmp body) cs of
            (Some e, cs1) \<Rightarrow> (Inl (''write download: '' @ e), cs1)
          | (None, cs1) \<Rightarrow>
              (case os_do S (CloseFile tmp) cs1 of
                (Some e, cs2) \<Rightarrow> (Inl (''close temp file: '' @ e), cs2)
              | (None, cs2) \<Rightarrow>
                  (case os_do S (RenameFile tmp dest) cs2 of
                    (Some e, cs3) \<Rightarrow> (Inl (''rename download: '' @ e), cs3)
                  | (None, cs3) \<Rightarrow> (Inr (int (length body)), cs3)))))"

definition http_update ::
  "os \<Rightarrow> net \<Rightarrow> string \<Rightarrow> string \<Rightarrow> string \<Rightarrow> calls \<Rightarrow> source_status \<times> string option \<times> calls" where
  "http_update S net src url destDir cs =
     (let status = (blank_source src)\<lparr>ss_url := url\<rparr>; start = os_clock S cs in
      if url = [] then (status, Some (''no URL configured for source '' @ src), cs)
      else case os_do S (MkdirAll destDir) cs of
        (Some e, cs1) \<Rightarrow> (status, Some (''create dest dir: '' @ e), cs1)
      | (None, cs1) \<Rightarrow>
          (let filename = (if filenameForURL url = [] then ''latest.data'' else filenameForURL url);
               dest = filepath_join destDir filename in
           case os_do S (CreateTemp destDir) cs1 of
             (Some e, cs2) \<Rightarrow> (status, Some (''create temp file: '' @ e), cs2)
           | (None, cs2) \<Rightarrow>
               (let tmp = os_temp S cs1 destDir;
                    (res, cs3) = fetch_to S net url tmp dest cs2;
                    cs4 = snd (os_do S (RemoveFile tmp) cs3)
                in case res of
                     Inl e \<Rightarrow> (status, Some e, cs4)
                   | Inr written \<Rightarrow>
                       (status\<lparr>ss_path := dest, ss_bytes := written, ss_updated := os_clock S cs3,
                          ss_duration := duration_string (time_sub (os_clock S cs3) start)\<rparr>, None, cs4))))"

section \<open>The sources\<close>

definition defaultSourceURLs :: "string gomap" where
  "defaultSourceURLs =
     [(''mitre_attack'', ''https://raw.githubusercontent.com/mitre/cti/master/enterprise-attack/enterprise-attack.json''),
      (''nvd'', ''https://nvd.nist.gov/feeds/json/cve/2.0/nvdcve-2.0-recent.json.gz''),
      (''cisa_kev'', ''https://www.cisa.gov/sites/default/files/feeds/known_exploited_vulnerabilities.json''),
      (''exploit_db'', ''https://gitlab.com/exploit-database/exploitdb/-/raw/main/files_exploits.csv''),
      (''osv'', []), (''mitre_capec'', []), (''mitre_cwe'', []), (''epss'', []), (''ghsa'', [])]"

text \<open>The source of an id is its URL: the type \<open>HTTPSource\<close> holds nothing else.\<close>

definition builtInSources :: "string gomap \<Rightarrow> string gomap" where
  "builtInSources overrides = obj_spread defaultSourceURLs overrides"

section \<open>A run\<close>

record updater =
  up_config :: updater_config
  up_sources :: "string gomap"
  up_last_run :: int
  up_next_run :: int

definition NewUpdater :: "updater_config \<Rightarrow> updater" where
  "NewUpdater c =
     \<lparr>up_config = c, up_sources = builtInSources (uc_source_urls c), up_last_run = zero_time, up_next_run = zero_time\<rparr>"

definition UpdateConfig :: "updater_config \<Rightarrow> updater \<Rightarrow> updater" where
  "UpdateConfig c u = u\<lparr>up_config := c, up_sources := builtInSources (uc_source_urls c)\<rparr>"

definition update_source ::
  "os \<Rightarrow> net \<Rightarrow> updater \<Rightarrow> string \<Rightarrow> calls \<Rightarrow> source_status \<times> calls" where
  "update_source S net u src cs =
     (case map_of (up_sources u) src of
        None \<Rightarrow> ((blank_source src)\<lparr>ss_error := ''source not registered''\<rparr>, cs)
      | Some url \<Rightarrow>
          (case http_update S net src url (filepath_join (uc_cache_dir (up_config u)) src) cs of
             (st, None, cs') \<Rightarrow> (st, cs')
           | (st, Some e, cs') \<Rightarrow> (st\<lparr>ss_error := e\<rparr>, cs')))"

fun update_sources ::
  "os \<Rightarrow> net \<Rightarrow> updater \<Rightarrow> string list \<Rightarrow> source_status gomap \<Rightarrow> calls \<Rightarrow> source_status gomap \<times> calls" where
  "update_sources S net u [] m cs = (m, cs)"
| "update_sources S net u (src # srcs) m cs =
     (case update_source S net u src cs of (st, cs') \<Rightarrow> update_sources S net u srcs (obj_set m src st) cs')"

definition airgap_status :: "os \<Rightarrow> updater_config \<Rightarrow> calls \<Rightarrow> source_status \<times> calls" where
  "airgap_status S cfg cs =
     (case importAirgap S (uc_airgap cfg) (uc_cache_dir cfg) cs of
        (Some e, cs') \<Rightarrow> ((blank_source ''airgap'')\<lparr>ss_error := e\<rparr>, cs')
      | (None, cs') \<Rightarrow> ((blank_source ''airgap'')\<lparr>ss_path := uc_cache_dir cfg, ss_updated := os_clock S cs'\<rparr>, cs'))"

text \<open>A failure to store the status is dropped; \<open>store\<close> is absent when the updater has none.\<close>

definition save_status ::
  "(('d, 'b) store_ops \<times> (sig_status, 'b) codec) option \<Rightarrow> sig_status \<Rightarrow> 'd \<Rightarrow> 'd" where
  "save_status store st d =
     (case store of None \<Rightarrow> d | Some (B, C) \<Rightarrow> (case SaveStatus B C st d of Inl e \<Rightarrow> d | Inr d' \<Rightarrow> d'))"

definition runOnce ::
  "os \<Rightarrow> net \<Rightarrow> (('d, 'b) store_ops \<times> (sig_status, 'b) codec) option \<Rightarrow> updater \<Rightarrow> calls \<Rightarrow> 'd
     \<Rightarrow> sig_status \<times> updater \<times> calls \<times> 'd" where
  "runOnce S net store u cs d =
     (let cfg = up_config u; now = os_clock S cs;
          next_run = (if uc_interval cfg > 0 then time_add now (uc_interval cfg) else zero_time);
          u' = u\<lparr>up_last_run := now, up_next_run := (if uc_interval cfg > 0 then next_run else up_next_run u)\<rparr>;
          (sources, cs') =
            (if uc_airgap cfg \<noteq> [] then (case airgap_status S cfg cs of (st, cs') \<Rightarrow> ([(''airgap'', st)], cs'))
             else update_sources S net u (uc_sources cfg) [] cs);
          status = \<lparr>sig_last_run = now, sig_next_run = next_run, sig_airgap = (uc_airgap cfg \<noteq> []),
                    sig_airgap_path = uc_airgap cfg, sig_sources = sources\<rparr>
      in (status, u', cs', save_status store status d))"

definition Trigger ::
  "os \<Rightarrow> net \<Rightarrow> (('d, 'b) store_ops \<times> (sig_status, 'b) codec) option \<Rightarrow> updater \<Rightarrow> calls \<Rightarrow> 'd
     \<Rightarrow> (string, sig_status) result \<times> updater \<times> calls \<times> 'd" where
  "Trigger S net store u cs d =
     (if \<not> uc_enabled (up_config u) then (Inl ''signatures updates are disabled'', u, cs, d)
      else (case runOnce S net store u cs d of (st, rest) \<Rightarrow> (Inr st, rest)))"

definition updater_status ::
  "(('d, 'b) store_ops \<times> (sig_status, 'b) codec) option \<Rightarrow> 'd \<Rightarrow> (store_error, sig_status) result" where
  "updater_status store d =
     (case store of None \<Rightarrow> Inr empty_sig_status | Some (B, C) \<Rightarrow> LoadStatus B C d)"

text \<open>One turn of \<open>Start\<close>'s loop: what it does and how long it then sleeps. A cancelled context ends the sleep.\<close>

definition start_turn ::
  "os \<Rightarrow> net \<Rightarrow> (('d, 'b) store_ops \<times> (sig_status, 'b) codec) option \<Rightarrow> updater \<Rightarrow> calls \<Rightarrow> 'd
     \<Rightarrow> sig_status option \<times> int \<times> updater \<times> calls \<times> 'd" where
  "start_turn S net store u cs d =
     (let cfg = up_config u in
      if \<not> uc_enabled cfg then (None, 5 * second, u, cs, d)
      else if uc_interval cfg \<le> 0 then (None, 10 * second, u, cs, d)
      else (case runOnce S net store u cs d of (st, rest) \<Rightarrow> (Some st, uc_interval cfg, rest)))"

section \<open>What a run reports\<close>

lemma fst_set_obj_set: "fst ` set (obj_set m k v) = insert k (fst ` set m)"
  by (induction m k v rule: obj_set.induct) auto

lemma update_sources_keys:
  "fst ` set (fst (update_sources S net u srcs m cs)) = fst ` set m \<union> set srcs"
  "keys_distinct m \<Longrightarrow> keys_distinct (fst (update_sources S net u srcs m cs))"
  by (induction S net u srcs m cs rule: update_sources.induct)
     (auto simp: fst_set_obj_set distinct_obj_set split: prod.split)

lemma update_sources_all:
  assumes "\<And>src cs. P src (fst (update_source S net u src cs))"
  shows "list_all (\<lambda>(k, st). P k st) m \<Longrightarrow> list_all (\<lambda>(k, st). P k st) (fst (update_sources S net u srcs m cs))"
proof (induction srcs arbitrary: m cs)
  case (Cons src srcs)
  obtain st cs' where st: "update_source S net u src cs = (st, cs')" by (cases "update_source S net u src cs")
  then have "P src st" using assms [of src cs] by simp
  then have "list_all (\<lambda>(k, st). P k st) (obj_set m src st)"
    using Cons.prems by (intro list_all_obj_set) auto
  with Cons.IH st show ?case by simp
qed simp

text \<open>The entry of a source: whose it is, and why it failed when that is known beforehand.\<close>

definition source_entry :: "string gomap \<Rightarrow> string \<Rightarrow> source_status \<Rightarrow> bool" where
  "source_entry sources k st \<longleftrightarrow> ss_source st = k \<and>
     (case map_of sources k of
        None \<Rightarrow> ss_error st = ''source not registered''
      | Some url \<Rightarrow> ss_url st = url \<and> (if url = [] then ss_error st = ''no URL configured for source '' @ k
                                   else (ss_error st = []) = (ss_path st \<noteq> [])))"

lemma fetch_to_error: "fetch_to S net url tmp dest cs = (Inl e, cs') \<Longrightarrow> e \<noteq> []"
  by (cases "net cs url") (auto simp: fetch_to_def os_do_def split: if_splits option.splits)

lemma http_update_no_url:
  "http_update S net src [] d cs = (blank_source src, Some (''no URL configured for source '' @ src), cs)"
  by (simp add: http_update_def blank_source_def)

text \<open>The branches of a download, with the calls it makes.\<close>

lemma http_update_cases:
  assumes "http_update S net src url d cs = (st, err, cs')" "url \<noteq> []"
  obtains (early) e where "err = Some e" "e \<noteq> []" "st = (blank_source src)\<lparr>ss_url := url\<rparr>"
      "cs' = cs @ [MkdirAll d] \<or> cs' = cs @ [MkdirAll d, CreateTemp d]"
    | (fetched) f tmp res cs3 where "tmp = os_temp S (cs @ [MkdirAll d]) d"
      "fetch_to S net url tmp (filepath_join d f) (cs @ [MkdirAll d, CreateTemp d]) = (res, cs3)"
      "cs' = cs3 @ [RemoveFile tmp]"
      "case res of Inl e \<Rightarrow> err = Some e \<and> st = (blank_source src)\<lparr>ss_url := url\<rparr>
       | Inr n \<Rightarrow> err = None \<and> ss_source st = src \<and> ss_url st = url \<and> ss_error st = []
           \<and> ss_path st = filepath_join d f \<and> ss_bytes st = n"
proof (cases "os_error S cs (MkdirAll d)")
  case (Some e)
  then show ?thesis
    using assms early [of "''create dest dir: '' @ e"] by (auto simp: http_update_def Let_def os_do_def)
next
  case None
  let ?f = "if filenameForURL url = [] then ''latest.data'' else filenameForURL url"
  let ?tmp = "os_temp S (cs @ [MkdirAll d]) d"
  show ?thesis
  proof (cases "os_error S (cs @ [MkdirAll d]) (CreateTemp d)")
    case (Some e)
    then show ?thesis
      using assms None early [of "''create temp file: '' @ e"] by (auto simp: http_update_def Let_def os_do_def)
  next
    case n2: None
    obtain res cs3 where f: "fetch_to S net url ?tmp (filepath_join d ?f) (cs @ [MkdirAll d, CreateTemp d]) = (res, cs3)"
      by (cases "fetch_to S net url ?tmp (filepath_join d ?f) (cs @ [MkdirAll d, CreateTemp d])")
    have h: "http_update S net src url d cs = (case res of
        Inl e \<Rightarrow> ((blank_source src)\<lparr>ss_url := url\<rparr>, Some e, cs3 @ [RemoveFile ?tmp])
      | Inr n \<Rightarrow> ((blank_source src)\<lparr>ss_url := url, ss_path := filepath_join d ?f, ss_bytes := n, ss_updated := os_clock S cs3,
            ss_duration := duration_string (time_sub (os_clock S cs3) (os_clock S cs))\<rparr>, None, cs3 @ [RemoveFile ?tmp]))"
      using assms(2) None n2 f by (simp add: http_update_def Let_def os_do_def)
    show ?thesis
    proof (rule fetched [OF refl f])
      show "cs' = cs3 @ [RemoveFile ?tmp]" using assms(1) unfolding h by (cases res) simp_all
    qed (use assms(1) in \<open>unfold h, cases res; auto simp: blank_source_def\<close>)
  qed
qed

lemma http_update_parts:
  assumes "http_update S net src url d cs = (st, err, cs')"
  shows "ss_source st = src \<and> ss_url st = url \<and> ss_error st = [] \<and> err \<noteq> Some []
    \<and> (err = None \<longrightarrow> (\<exists>f. ss_path st = filepath_join d f)) \<and> (err \<noteq> None \<longrightarrow> ss_path st = [])"
proof (cases "url = []")
  case True
  then show ?thesis using assms by (auto simp: http_update_no_url blank_source_def)
next
  case False
  from assms False show ?thesis
  proof (cases rule: http_update_cases)
    case (fetched f tmp res cs3)
    then show ?thesis by (cases res) (auto simp: blank_source_def dest: fetch_to_error)
  qed (simp add: blank_source_def)
qed

lemma update_source_entry: "uc_cache_dir (up_config u) \<noteq> [] \<Longrightarrow> source_entry (up_sources u) src (fst (update_source S net u src cs))"
proof (cases "map_of (up_sources u) src")
  case None
  then show ?thesis by (simp add: update_source_def source_entry_def blank_source_def)
next
  case (Some url)
  assume dir: "uc_cache_dir (up_config u) \<noteq> []"
  let ?d = "filepath_join (uc_cache_dir (up_config u)) src"
  obtain st err cs' where h: "http_update S net src url ?d cs = (st, err, cs')" by (metis prod.collapse)
  have ne: "filepath_join ?d f \<noteq> []" for f
    using dir filepath_clean_nonempty by (simp add: filepath_join_def)
  show ?thesis
  proof (cases "url = []")
    case True
    then show ?thesis
      using Some by (simp add: update_source_def source_entry_def http_update_no_url blank_source_def)
  next
    case False
    then show ?thesis
      using http_update_parts [OF h] Some h ne ne [symmetric]
      by (cases err) (auto simp: update_source_def source_entry_def)
  qed
qed

text \<open>C30 A run without an air-gapped import reports every configured source once: unknown sources and sources
  without an address as such, the others with their address and either an error or the file they were
  stored in. The source \<open>airgap\<close> is the only one an import reports.\<close>

theorem run_reports_every_source:
  assumes "uc_cache_dir (up_config u) \<noteq> []"
  shows "if uc_airgap (up_config u) = []
    then keys_distinct (sig_sources (fst (runOnce S net store u cs d)))
      \<and> fst ` set (sig_sources (fst (runOnce S net store u cs d))) = set (uc_sources (up_config u))
      \<and> list_all (\<lambda>(k, st). source_entry (up_sources u) k st) (sig_sources (fst (runOnce S net store u cs d)))
    else map fst (sig_sources (fst (runOnce S net store u cs d))) = [''airgap'']"
proof (cases "uc_airgap (up_config u) = []")
  case True
  let ?r = "update_sources S net u (uc_sources (up_config u)) [] cs"
  have "sig_sources (fst (runOnce S net store u cs d)) = fst ?r"
    using True by (simp add: runOnce_def Let_def split: prod.split)
  then show ?thesis
    using True update_sources_keys(1) [where m = "[]"] update_sources_keys(2) [where m = "[]"]
      update_sources_all [where P = "source_entry (up_sources u)" and m = "[]"] update_source_entry [OF assms] by simp
qed (auto simp: runOnce_def Let_def split: prod.split)

section \<open>The files of a download\<close>

definition renames :: "calls \<Rightarrow> (string \<times> string) list" where
  "renames cs = List.map_filter (\<lambda>c. case c of RenameFile a b \<Rightarrow> Some (a, b) | _ \<Rightarrow> None) cs"

lemma renames_simps [simp]:
  "renames [] = []" "renames (RenameFile a b # cs) = (a, b) # renames cs"
  "renames (MkdirAll p # cs) = renames cs" "renames (CreateTemp p # cs) = renames cs"
  "renames (WriteFile p t # cs) = renames cs" "renames (CloseFile p # cs) = renames cs"
  "renames (RemoveFile p # cs) = renames cs"
  by (simp_all add: renames_def map_filter_def)

lemma fetch_to_calls:
  "\<exists>new. snd (fetch_to S net url tmp dest cs) = cs @ new \<and>
     (new \<in> {[], [WriteFile tmp b], [WriteFile tmp b, CloseFile tmp]} \<and> (\<exists>e. fst (fetch_to S net url tmp dest cs) = Inl e)
      \<or> net cs url = Download 200 b \<and> new = [WriteFile tmp b, CloseFile tmp, RenameFile tmp dest]
        \<and> ((\<exists>n. fst (fetch_to S net url tmp dest cs) = Inr n)
           \<longleftrightarrow> os_error S (cs @ [WriteFile tmp b, CloseFile tmp]) (RenameFile tmp dest) = None))"
  if "case net cs url of Download code body \<Rightarrow> b = body | _ \<Rightarrow> True"
proof (cases "net cs url")
  case (Download code body)
  have b: "b = body" using that Download by simp
  show ?thesis
  proof (cases "code = 200 \<and> os_error S cs (WriteFile tmp body) = None
      \<and> os_error S (cs @ [WriteFile tmp body]) (CloseFile tmp) = None")
    case True
    then show ?thesis
      by (cases "os_error S (cs @ [WriteFile tmp body, CloseFile tmp]) (RenameFile tmp dest)")
         (simp_all add: fetch_to_def os_do_def Download b)
  next
    case False
    then show ?thesis
      by (cases "os_error S cs (WriteFile tmp body)"; cases "os_error S (cs @ [WriteFile tmp body]) (CloseFile tmp)")
         (auto simp: fetch_to_def os_do_def Download b)
  qed
qed (simp_all add: fetch_to_def)

text \<open>A download replaces its file as a whole: it touches the file of the source by one renaming of the temporary
  file or not at all. The renaming comes last, after the whole body of a response with status 200 was
  written and the file was closed, and the download succeeds exactly when it does.\<close>

theorem download_replaces_whole_file:
  assumes "url \<noteq> []" "http_update S net src url d cs = (st, err, cs')"
  shows "if renames (drop (length cs) cs') = [] then (\<exists>e. err = Some e)
    else (\<exists>tmp f body. tmp = os_temp S (cs @ [MkdirAll d]) d
      \<and> net (cs @ [MkdirAll d, CreateTemp d]) url = Download 200 body
      \<and> cs' = cs @ [MkdirAll d, CreateTemp d, WriteFile tmp body, CloseFile tmp, RenameFile tmp (filepath_join d f), RemoveFile tmp]
      \<and> (err = None) = (os_error S (cs @ [MkdirAll d, CreateTemp d, WriteFile tmp body, CloseFile tmp])
                         (RenameFile tmp (filepath_join d f)) = None))"
  using assms(2,1)
proof (cases rule: http_update_cases)
  case (early e)
  then show ?thesis by auto
next
  case (fetched f tmp res cs3)
  let ?c0 = "cs @ [MkdirAll d, CreateTemp d]"
  obtain b where b: "case net ?c0 url of Download code body \<Rightarrow> b = body | _ \<Rightarrow> True"
    by (cases "net ?c0 url") auto
  have "(err = None) = (\<exists>n. res = Inr n)" using fetched(4) by (cases res) auto
  with fetch_to_calls [where net = net and url = url and cs = ?c0 and b = b and S = S and tmp = tmp
      and dest = "filepath_join d f", OF b] fetched show ?thesis
    by auto
qed

text \<open>A download that fails once its temporary file exists, for any answer but a status 200, removes the file
  without closing it: the descriptor stays open. Every such attempt leaves one behind.\<close>

theorem failed_download_leaves_open:
  assumes "url \<noteq> []" "os_error S cs (MkdirAll d) = None" "os_error S (cs @ [MkdirAll d]) (CreateTemp d) = None"
    and "\<And>body. net (cs @ [MkdirAll d, CreateTemp d]) url \<noteq> Download 200 body"
  shows "\<exists>e. http_update S net src url d cs =
    ((blank_source src)\<lparr>ss_url := url\<rparr>, Some e,
     cs @ [MkdirAll d, CreateTemp d, RemoveFile (os_temp S (cs @ [MkdirAll d]) d)])"
  using assms by (cases "net (cs @ [MkdirAll d, CreateTemp d]) url")
    (auto simp: http_update_def fetch_to_def os_do_def Let_def)

text \<open>What a run stores is what the status is read as afterwards, when the store takes it.\<close>

theorem run_status_survives:
  assumes "badger_db D"
    and "\<And>st raw. co_encode C st = Some raw \<Longrightarrow> co_decode C raw = Some st"
    and "SaveStatus (badger_store D) C (fst (runOnce S net (Some (badger_store D, C)) u cs d)) d = Inr d'"
  shows "updater_status (Some (badger_store D, C)) (snd (snd (snd (runOnce S net (Some (badger_store D, C)) u cs d))))
    = Inr (fst (runOnce S net (Some (badger_store D, C)) u cs d))"
proof -
  have "snd (snd (snd (runOnce S net (Some (badger_store D, C)) u cs d))) = d'"
    using assms(3) by (auto simp: runOnce_def Let_def save_status_def split: prod.splits)
  then show ?thesis
    using LoadStatus_SaveStatus [OF assms(1,3,2)] by (simp add: updater_status_def)
qed

section \<open>The configured updater\<close>

definition SourceURLOverrides :: "signatures_config \<Rightarrow> string gomap" where
  "SourceURLOverrides s = obj_spread [] (sn_source_urls s)"

text \<open>What \<open>daemon/runner.go\<close> hands to the updater.\<close>

definition updater_config_of :: "signatures_config \<Rightarrow> updater_config" where
  "updater_config_of s =
     \<lparr>uc_enabled = sn_enabled s, uc_interval = UpdateIntervalDuration s, uc_sources = sn_sources s,
      uc_cache_dir = sn_cache_dir s, uc_airgap = sn_airgap_path s, uc_source_urls = SourceURLOverrides s\<rparr>"

text \<open>The default configuration, with the updates switched on.\<close>

definition default_updater :: updater where
  "default_updater = NewUpdater (updater_config_of ((c_signatures Default)\<lparr>sn_enabled := True\<rparr>))"

lemma default_updater_simps:
  "uc_cache_dir (up_config default_updater) \<noteq> []" "uc_airgap (up_config default_updater) = []"
  "uc_sources (up_config default_updater) = DefaultSources" "uc_enabled (up_config default_updater)"
  "map_of (up_sources default_updater) ''osv'' = Some []"
  by (simp_all add: default_updater_def NewUpdater_def updater_config_of_def Default_def SourceURLOverrides_def
      builtInSources_def defaultSourceURLs_def)

lemma default_run:
  fixes S net store cs d
  defines "m \<equiv> sig_sources (fst (runOnce S net store default_updater cs d))"
  shows "keys_distinct m" "fst ` set m = set DefaultSources" "length m = 5"
    and "length (filter (\<lambda>(k, src). ss_error src = []) m) \<le> 4"
proof -
  note r = run_reports_every_source [OF default_updater_simps(1), of S net store cs d, folded m_def]
  show k: "keys_distinct m" and f: "fst ` set m = set DefaultSources"
    using r by (simp_all add: default_updater_simps)
  have "card (set DefaultSources) = 5" by (simp add: DefaultSources_def)
  then show l: "length m = 5" using distinct_card [OF k] f by simp
  have "''osv'' \<in> fst ` set m" unfolding f by (simp add: DefaultSources_def)
  then obtain st where st: "(''osv'', st) \<in> set m" by auto
  moreover have "list_all (\<lambda>(k, st). source_entry (up_sources default_updater) k st) m"
    using r by (simp add: default_updater_simps)
  ultimately have "source_entry (up_sources default_updater) ''osv'' st" by (auto simp: list_all_iff)
  then have "ss_error st \<noteq> []" by (simp add: source_entry_def default_updater_simps)
  with st have "length (filter (\<lambda>(k, src). ss_error src = []) m) < length m"
    by (intro length_filter_less) auto
  with l show "length (filter (\<lambda>(k, src). ss_error src = []) m) \<le> 4" by simp
qed

section \<open>A sample run\<close>

definition sample_updater :: updater where
  "sample_updater = NewUpdater
     \<lparr>uc_enabled = True, uc_interval = hour, uc_sources = [''nvd'', ''cisa_kev'', ''osv'', ''custom:x''],
      uc_cache_dir = ''/cache'', uc_airgap = [], uc_source_urls = []\<rparr>"

definition sample_net :: net where
  "sample_net cs url = (if str_contains url ''nvd'' then Download 503 [] else Download 200 ''{}'')"

definition status_codec :: "(sig_status, sig_status) codec" where
  "status_codec = \<lparr>co_encode = Some, co_decode = Some\<rparr>"

theorem run_reports_every_source_witness:
  "if uc_airgap (up_config sample_updater) = []
    then keys_distinct (sig_sources (fst (runOnce sample_os sample_net (Some (badger_store mem_badger, status_codec)) sample_updater [] [])))
      \<and> fst ` set (sig_sources (fst (runOnce sample_os sample_net (Some (badger_store mem_badger, status_codec)) sample_updater [] [])))
        = set (uc_sources (up_config sample_updater))
      \<and> list_all (\<lambda>(k, st). source_entry (up_sources sample_updater) k st)
          (sig_sources (fst (runOnce sample_os sample_net (Some (badger_store mem_badger, status_codec)) sample_updater [] [])))
    else map fst (sig_sources (fst (runOnce sample_os sample_net (Some (badger_store mem_badger, status_codec)) sample_updater [] []))) = [''airgap'']"
  by (rule run_reports_every_source) (simp add: sample_updater_def NewUpdater_def)

abbreviation sample_download :: "source_status \<times> string option \<times> calls" where
  "sample_download \<equiv> http_update sample_os sample_net ''kev'' ''https://h/kev.json?v=2'' ''/cache/kev'' []"

theorem download_replaces_whole_file_witness:
  "if renames (drop (length ([] :: calls)) (snd (snd sample_download))) = [] then (\<exists>e. fst (snd sample_download) = Some e)
    else (\<exists>tmp f body. tmp = os_temp sample_os ([] @ [MkdirAll ''/cache/kev'']) ''/cache/kev''
      \<and> sample_net ([] @ [MkdirAll ''/cache/kev'', CreateTemp ''/cache/kev'']) ''https://h/kev.json?v=2'' = Download 200 body
      \<and> snd (snd sample_download) = [] @ [MkdirAll ''/cache/kev'', CreateTemp ''/cache/kev'', WriteFile tmp body, CloseFile tmp,
                RenameFile tmp (filepath_join ''/cache/kev'' f), RemoveFile tmp]
      \<and> (fst (snd sample_download) = None) =
          (os_error sample_os ([] @ [MkdirAll ''/cache/kev'', CreateTemp ''/cache/kev'', WriteFile tmp body, CloseFile tmp])
             (RenameFile tmp (filepath_join ''/cache/kev'' f)) = None))"
proof (rule download_replaces_whole_file)
  show "sample_download = (fst sample_download, fst (snd sample_download), snd (snd sample_download))" by simp
qed simp

theorem failed_download_leaves_open_witness:
  "\<exists>e. http_update sample_os sample_net ''nvd'' ''https://nvd'' ''/cache/nvd'' [] =
    ((blank_source ''nvd'')\<lparr>ss_url := ''https://nvd''\<rparr>, Some e,
     [] @ [MkdirAll ''/cache/nvd'', CreateTemp ''/cache/nvd'',
           RemoveFile (os_temp sample_os ([] @ [MkdirAll ''/cache/nvd'']) ''/cache/nvd'')])"
  by (rule failed_download_leaves_open) (simp_all add: sample_os_def sample_net_def)

theorem run_status_survives_witness:
  "updater_status (Some (badger_store mem_badger, status_codec))
     (snd (snd (snd (runOnce sample_os sample_net (Some (badger_store mem_badger, status_codec)) sample_updater [] []))))
   = Inr (fst (runOnce sample_os sample_net (Some (badger_store mem_badger, status_codec)) sample_updater [] []))"
  by (rule run_status_survives [OF mem.badger_db_axioms])
     (auto simp: status_codec_def SaveStatus_def signaturesBucket_def signaturesStatusKey_def badger_store_def badger_put_def mem_badger_def mem_set_def)

end
