(* ===== verification/WireSources.thy ===== *)
theory WireSources
  imports Wire SigUpdate
begin

text \<open>
  The signature sources on their way from an update run to the dashboard: the status document, the
  object the client reads, and the two counts the page derives from it.
\<close>

section \<open>Signature sources as the dashboard counts them\<close>

lemma mset_key_insert: "k \<notin> fst ` set m \<Longrightarrow> mset (key_insert k v m) = add_mset (k, v) (mset m)"
  by (induction k v m rule: key_insert.induct) auto

lemma map_doc_entries:
  assumes "keys_distinct m"
  shows "\<exists>kvs. map_doc f m = JObj kvs \<and> keys_distinct kvs \<and> mset kvs = mset (map (\<lambda>(k, v). (k, f v)) m)"
  using assms
proof (induction m)
  case (Cons e m)
  obtain k v where e: "e = (k, v)" by (cases e)
  with Cons obtain kvs where kvs: "map_doc f m = JObj kvs" "keys_distinct kvs"
    "mset kvs = mset (map (\<lambda>(k, v). (k, f v)) m)" by auto
  have "map fst (map (\<lambda>(k, v). (k, f v)) m) = map fst m" by (induction m) auto
  then have "fst ` set kvs = fst ` set m"
    using mset_eq_setD [OF kvs(3)] by (metis image_set)
  then have k: "k \<notin> fst ` set kvs" using Cons.prems e by simp
  have "mset (key_insert k (f v) kvs) = mset (map (\<lambda>(k, v). (k, f v)) (e # m))"
    using mset_key_insert [OF k] kvs(3) by (simp add: e)
  moreover have "keys_distinct (key_insert k (f v) kvs)"
  proof -
    have "mset (map fst (key_insert k (f v) kvs)) = mset (map fst ((k, f v) # kvs))"
      using mset_key_insert [OF k, of "f v"] by (metis mset.simps(2) mset_map)
    then show ?thesis using k kvs(2) mset_eq_imp_distinct_iff by fastforce
  qed
  ultimately show ?case using kvs(1) by (simp add: map_doc_def e)
qed (simp add: map_doc_def)

lemma mset_object_values:
  assumes "keys_distinct m"
  shows "mset (js_object_values (map_doc f m)) = mset (map (f \<circ> snd) m)"
proof -
  obtain kvs where kvs: "map_doc f m = JObj kvs" "keys_distinct kvs" "mset kvs = mset (map (\<lambda>(k, v). (k, f v)) m)"
    using map_doc_entries [OF assms] by blast
  have ob: "obj_spread [] kvs = kvs" using obj_spread_no_dups [of kvs "[]"] kvs(2) by simp
  have "mset (own_props kvs) = mset kvs"
    by (simp add: own_props_def ob Let_def case_prod_unfold)
  then have "mset (map snd (own_props kvs)) = mset (map snd (map (\<lambda>(k, v). (k, f v)) m))"
    using kvs(3) by (metis mset_map)
  also have "map snd (map (\<lambda>(k, v). (k, f v)) m) = map (f \<circ> snd) m" by (simp add: case_prod_unfold)
  finally show ?thesis by (simp add: kvs(1))
qed

section \<open>The status as it arrives\<close>

lemma repair_eq_Nil [simp]: "repair s = [] \<longleftrightarrow> s = []"
  by (subst repair.simps) (simp add: utf8_def)

abbreviation utf8_keys :: "'a gomap \<Rightarrow> bool" where
  "utf8_keys m \<equiv> list_all (\<lambda>kv. valid_utf8 (fst kv)) m"

lemma repaired_key_insert:
  "utf8_keys ((k, v) # m) \<Longrightarrow> map (\<lambda>kv. (repair (fst kv), g (snd kv))) (key_insert k v m)
     = key_insert k (g v) (map (\<lambda>kv. (repair (fst kv), g (snd kv))) m)"
  by (induction k v m rule: key_insert.induct) auto

lemma repaired_map_doc:
  assumes "utf8_keys m"
  shows "repaired (map_doc f m) = map_doc (repaired \<circ> f) m"
proof -
  let ?h = "map (\<lambda>kv. (repair (fst kv), repaired (snd kv)))"
  let ?ins = "\<lambda>g. foldr (\<lambda>(k, v) acc. key_insert k (g v) acc)"
  have "?h (?ins f m []) = ?ins (repaired \<circ> f) m [] \<and> utf8_keys (?ins f m [])"
    using assms
  proof (induction m)
    case (Cons e m)
    obtain k v where e: "e = (k, v)" by (cases e)
    with Cons have IH: "?h (?ins f m []) = ?ins (repaired \<circ> f) m []" "utf8_keys (?ins f m [])" "valid_utf8 k" by simp_all
    then have "utf8_keys ((k, f v) # ?ins f m [])" by simp
    from repaired_key_insert [OF this, of repaired] IH e show ?case by (auto intro!: list_all_key_insert)
  qed simp
  then show ?thesis by (simp add: map_doc_def)
qed

lemma source_list_doc:
  assumes "db_signatures s = Some (repaired (sig_doc F st))" "utf8_keys (sig_sources st)"
  shows "source_list s = js_object_values (map_doc (repaired \<circ> source_doc F) (sig_sources st))"
proof -
  have "js_opt_prop (db_signatures s) ''sources'' = Some (repaired (map_doc (source_doc F) (sig_sources st)))"
    by (simp add: assms(1) sig_doc_def obj_get_def)
  then show ?thesis
    by (simp add: source_list_def js_or_def repaired_map_doc [OF assms(2)]) (simp add: map_doc_def)
qed

lemma map_res_Inr: "(\<And>x. x \<in> set xs \<Longrightarrow> f x = Inr (g x)) \<Longrightarrow> map_res f xs = Inr (map g xs)"
  by (induction xs) auto

definition source_failed :: "json \<Rightarrow> bool" where
  "source_failed j = truthy (js_opt_prop (Some j) ''error'')"

lemma source_counts:
  assumes "keys_distinct (sig_sources st)" "utf8_keys (sig_sources st)" "db_signatures s = Some (repaired (sig_doc F st))"
  shows "total_sources s = length (sig_sources st)"
    and "ok_sources s = Inr (int (length (filter (\<lambda>(k, src). ss_error src = []) (sig_sources st))))"
proof -
  note m = mset_object_values [OF assms(1), of "repaired \<circ> source_doc F"]
  let ?js = "source_list s" and ?ds = "map (repaired \<circ> source_doc F \<circ> snd) (sig_sources st)"
  have ms: "mset ?js = mset ?ds" using m by (simp add: source_list_doc [OF assms(3,2)])
  then show t: "total_sources s = length (sig_sources st)"
    by (metis length_map mset_eq_length total_sources_def)
  have failed: "source_failed (repaired (source_doc F src)) \<longleftrightarrow> ss_error src \<noteq> []" for src
    by (simp add: source_failed_def source_doc_def obj_get_def)
  have "bind_res (js_prop (Some j) ''error'') (\<lambda>e. Inr (truthy e)) = Inr (source_failed j)" if "j \<in> set ?js" for j
  proof -
    have "j \<in> set ?ds" using that mset_eq_setD [OF ms] by simp
    then show ?thesis by (auto simp: source_failed_def source_doc_def)
  qed
  then have "source_errors s = Inr (map source_failed ?js)"
    unfolding source_errors_def by (intro map_res_Inr) auto
  then have "failed_sources s = Inr (length (filter source_failed ?js))"
    by (simp add: failed_sources_def filter_map)
  also have "length (filter source_failed ?js) = length (filter source_failed ?ds)"
    using ms by (metis mset_filter size_mset)
  also have "\<dots> = length (filter (\<lambda>(k, src). ss_error src \<noteq> []) (sig_sources st))"
    by (simp add: filter_map comp_def failed case_prod_unfold)
  finally have "ok_sources s = Inr (int (length (sig_sources st))
      - int (length (filter (\<lambda>(k, src). ss_error src \<noteq> []) (sig_sources st))))"
    by (simp add: ok_sources_def t)
  moreover have "length (sig_sources st) = length (filter (\<lambda>(k, src). ss_error src \<noteq> []) (sig_sources st))
      + length (filter (\<lambda>(k, src). ss_error src = []) (sig_sources st))"
    using sum_length_filter_compl [of "\<lambda>(k, src). ss_error src \<noteq> []" "sig_sources st"]
    by (simp add: case_prod_unfold)
  ultimately show "ok_sources s = Inr (int (length (filter (\<lambda>(k, src). ss_error src = []) (sig_sources st))))"
    by simp
qed

section \<open>A call of the dashboard, answered by the servers\<close>

definition dash_browse ::
  "(string \<Rightarrow> string) \<Rightarrow> wire \<Rightarrow> 'w backend \<Rightarrow> 'w \<Rightarrow> local_storage \<Rightarrow> dash_call \<Rightarrow> dash_state \<Rightarrow> dash_state" where
  "dash_browse msg N serve w ls c s = dash_settle (json_parse msg) c (browse N serve w (dash_request ls c)) s"

lemma api_fetch_endpoint:
  "fetch_settle parse (net (endpoint_request ls e)) = api_fetch parse net ls (fst e) (snd e)"
  by (simp add: api_fetch_def endpoint_request_def)

lemma dash_browse_signatures:
  assumes "wired F E A W"
    and "accepts (wu_token W) (token_or_empty ls)" "accepts (ap_token A) (token_or_empty ls)"
  shows "ap_signatures A = Some (Inr st)
      \<Longrightarrow> dash_browse msg N (web_serve W) w ls CallSignatures s
        = s\<lparr>db_pending := remove1 CallSignatures (db_pending s), db_signatures := Some (repaired (sig_doc F st)),
            db_sig_error := [], db_sig_loading := False\<rparr>"
    and "ap_update A = Some (Inr st)
      \<Longrightarrow> dash_browse msg N (web_serve W) w ls CallUpdate s
        = s\<lparr>db_pending := remove1 CallUpdate (db_pending s), db_signatures := Some (repaired (sig_doc F st)),
            db_sig_error := [], db_sig_loading := False\<rparr>"
proof -
  have settled: "dash_browse msg N (web_serve W) w ls c s
      = s\<lparr>db_pending := remove1 c (db_pending s), db_signatures := Some (repaired (sig_doc F st)),
          db_sig_error := [], db_sig_loading := False\<rparr>"
    if "web_serve W (http_of (dash_request ls c)) w = (writeJSON 200 (Some (sig_doc F st)), None, w)"
      and "c = CallSignatures \<and> e = getSignaturesStatus \<or> c = CallUpdate \<and> e = triggerSignaturesUpdate" for c e
  proof -
    have e: "dash_request ls c = endpoint_request ls e" using that(2) by auto
    have "api_fetch (json_parse msg) (browse N (web_serve W) w) ls (fst e) (snd e) = Inr (repaired (sig_doc F st))"
      using that(1) unfolding e
      by (intro browse_document [where serve = "web_serve W"] whole_sig_doc) (simp add: endpoint_request_def)
    with that(2) e show ?thesis
      by (auto simp: dash_browse_def dash_settle_def signatures_settled_def api_fetch_endpoint)
  qed
  show "ap_signatures A = Some (Inr st) \<Longrightarrow> dash_browse msg N (web_serve W) w ls CallSignatures s
        = s\<lparr>db_pending := remove1 CallSignatures (db_pending s), db_signatures := Some (repaired (sig_doc F st)),
            db_sig_error := [], db_sig_loading := False\<rparr>"
  proof (rule settled)
    assume a: "ap_signatures A = Some (Inr st)"
    let ?r = "http_of (dash_request ls CallSignatures)"
    have "web_serve W ?r w = api_handle F E A RSignaturesStatus ?r w"
      using assms(2,3) by (intro serve_endpoint [OF assms(1), of "''/signatures/status''"])
        (simp_all add: api_paths_def getSignaturesStatus_def endpoint_request_def)
    with a show "web_serve W ?r w = (writeJSON 200 (Some (sig_doc F st)), None, w)"
      by (simp add: reply_def handleSignaturesStatus_def)
  qed simp
  show "ap_update A = Some (Inr st) \<Longrightarrow> dash_browse msg N (web_serve W) w ls CallUpdate s
        = s\<lparr>db_pending := remove1 CallUpdate (db_pending s), db_signatures := Some (repaired (sig_doc F st)),
            db_sig_error := [], db_sig_loading := False\<rparr>"
  proof (rule settled)
    assume a: "ap_update A = Some (Inr st)"
    let ?r = "http_of (dash_request ls CallUpdate)"
    have "web_serve W ?r w = api_handle F E A RSignaturesUpdate ?r w"
      using assms(2,3) by (intro serve_endpoint [OF assms(1), of "''/signatures/update''"])
        (simp_all add: api_paths_def triggerSignaturesUpdate_def endpoint_request_def post_init_def init_headers_def)
    with a show "web_serve W ?r w = (writeJSON 200 (Some (sig_doc F st)), None, w)"
      by (simp add: reply_def handleSignaturesUpdate_def triggerSignaturesUpdate_def endpoint_request_def post_init_def
          init_method_def)
  qed simp
qed

section \<open>Gauges of the samples\<close>

lemma sample_gauges: "list_all (\<lambda>(n, i). \<bar>i\<bar> \<le> 2 ^ 53) (metric_gauges sample_api)"
  by (simp add: metric_gauges_def sample_api_def sample_status_def empty_sig_status_def is_zero_time_def
      manager_list_def NewManager_def manager_register_def sample_plugin_def Let_def ListJobs_def sched_init_def
      cache_history_def FindingsHistory_def cache_add_def NewResultCache_def sample_result_def register_plugins_def)

end
