(* ===== verification/SchedulerReload.thy ===== *)
theory SchedulerReload
  imports SchedulerRun
begin

text \<open>
  The scheduler as the daemon uses it (\<open>internal/daemon/runner.go\<close>): jobs are added and started once,
  then only replaced, never stopped alone. Who owns a goroutine, that closing a stop channel cannot
  panic, what \<open>ReplaceJobs\<close> leaves behind when one job is refused, and that a job has one goroutine.
\<close>

section \<open>Ownership\<close>

text \<open>
  Every goroutine belongs to a job that was started, and a job that is not closed and has a goroutine is
  one of the current ones; the current jobs are open, and no job has two goroutines.
\<close>

definition current :: "'d sched \<Rightarrow> nat set" where
  "current s = snd ` set (sc_jobs s)"

definition owned :: "'d sched \<Rightarrow> bool" where
  "owned s \<longleftrightarrow>
     (\<forall>i \<in> current s. i < length (sc_heap s) \<and> \<not> jb_closed (sc_heap s ! i))
     \<and> (\<forall>i < length (sc_heap s). jb_started (sc_heap s ! i) \<longrightarrow> i \<in> current s \<and> i \<in> fst ` set (sc_gos s))
     \<and> (\<forall>i \<in> fst ` set (sc_gos s). i < length (sc_heap s)
          \<and> (jb_started (sc_heap s ! i) \<or> jb_closed (sc_heap s ! i)))
     \<and> distinct (map fst (sc_gos s))
     \<and> distinct (map snd (sc_jobs s)) \<and> keys_distinct (sc_jobs s)"

lemma ownedI:
  assumes "\<And>i. i \<in> current s \<Longrightarrow> i < length (sc_heap s) \<and> \<not> jb_closed (sc_heap s ! i)"
    and "\<And>i. i < length (sc_heap s) \<Longrightarrow> jb_started (sc_heap s ! i) \<Longrightarrow> i \<in> current s \<and> i \<in> fst ` set (sc_gos s)"
    and "\<And>i. i \<in> fst ` set (sc_gos s) \<Longrightarrow> i < length (sc_heap s)
          \<and> (jb_started (sc_heap s ! i) \<or> jb_closed (sc_heap s ! i))"
    and "distinct (map fst (sc_gos s))" "distinct (map snd (sc_jobs s))" "keys_distinct (sc_jobs s)"
  shows "owned s"
  using assms unfolding owned_def by blast

lemma ownedD:
  assumes "owned s"
  shows "i \<in> current s \<Longrightarrow> i < length (sc_heap s)" "i \<in> current s \<Longrightarrow> \<not> jb_closed (sc_heap s ! i)"
    and "i < length (sc_heap s) \<Longrightarrow> jb_started (sc_heap s ! i) \<Longrightarrow> i \<in> current s \<and> i \<in> fst ` set (sc_gos s)"
    and "i \<in> fst ` set (sc_gos s) \<Longrightarrow> i < length (sc_heap s)"
    and "i \<in> fst ` set (sc_gos s) \<Longrightarrow> jb_started (sc_heap s ! i) \<or> jb_closed (sc_heap s ! i)"
    and "distinct (map fst (sc_gos s))" "distinct (map snd (sc_jobs s))" "keys_distinct (sc_jobs s)"
  using assms unfolding owned_def by blast+

text \<open>The goroutines of a scheduler whose current jobs were never started all belong to closed jobs.\<close>

definition halted :: "'d sched \<Rightarrow> bool" where
  "halted s \<longleftrightarrow> owned s \<and> (\<forall>i < length (sc_heap s). \<not> jb_started (sc_heap s ! i))"

lemma halted_closed: "halted s \<Longrightarrow> i \<in> fst ` set (sc_gos s) \<Longrightarrow> jb_closed (sc_heap s ! i) \<and> i \<notin> current s"
  by (auto simp: halted_def owned_def)

lemma owned_init [inv_intros]: "owned (sched_init now d)"
  by (simp add: owned_def current_def sched_init_def)

text \<open>Steps that change no job, no goroutine's owner and no map.\<close>

lemma owned_cong:
  assumes "length (sc_heap t) = length (sc_heap s)" "sc_jobs t = sc_jobs s" "map fst (sc_gos t) = map fst (sc_gos s)"
    and "\<And>i. i < length (sc_heap s) \<Longrightarrow> jb_started (sc_heap t ! i) = jb_started (sc_heap s ! i)
           \<and> jb_closed (sc_heap t ! i) = jb_closed (sc_heap s ! i)"
  shows "owned t \<longleftrightarrow> owned s" "halted t \<longleftrightarrow> halted s"
proof -
  have g: "fst ` set (sc_gos t) = fst ` set (sc_gos s)"
    using assms(3) by (metis list.set_map)
  show o: "owned t \<longleftrightarrow> owned s"
    unfolding owned_def current_def assms(1-3) g by (meson assms(4))
  show "halted t \<longleftrightarrow> halted s"
    unfolding halted_def o assms(1) using assms(4) by blast
qed

section \<open>Adding and starting\<close>

lemma obj_set_fresh: "k \<notin> fst ` set m \<Longrightarrow> obj_set m k v = m @ [(k, v)]"
  by (induction m k v rule: obj_set.induct) auto

lemma AddJob_Inr:
  assumes "AddJob cron store C cfg s = Inr t"
  obtains j where "t = s\<lparr>sc_heap := sc_heap s @ [j], sc_jobs := sc_jobs s @ [(jc_name cfg, length (sc_heap s))]\<rparr>"
    and "jb_cfg j = normalize_config cfg" "\<not> jb_closed j" "\<not> jb_started j" "\<not> jb_running j"
    and "jc_name cfg \<notin> fst ` set (sc_jobs s)"
proof -
  from assms obtain j where j: "new_job cron store C (sc_db s) (sc_now s) (fst ` set (sc_jobs s)) cfg = Inr j"
    and t: "t = s\<lparr>sc_heap := sc_heap s @ [j],
                 sc_jobs := obj_set (sc_jobs s) (jc_name (jb_cfg j)) (length (sc_heap s))\<rparr>"
    by (auto simp: AddJob_def split: sum.splits)
  note n = new_job_simps [OF j]
  have "jc_name cfg \<notin> fst ` set (sc_jobs s)"
    using j by (auto simp: new_job_def Let_def normalize_config_def split: if_splits sum.splits)
  with n t that show thesis by (simp add: obj_set_fresh normalize_config_def)
qed

definition fresh_job :: "job \<Rightarrow> bool" where
  "fresh_job j \<longleftrightarrow> \<not> jb_closed j \<and> \<not> jb_started j \<and> \<not> jb_running j"

text \<open>The jobs of a loop that adds, up to its end or the first refusal.\<close>

definition added :: "job list \<Rightarrow> 'd sched \<Rightarrow> 'd sched" where
  "added js s =
     s\<lparr>sc_heap := sc_heap s @ js,
       sc_jobs := sc_jobs s @ zip (map (\<lambda>j. jc_name (jb_cfg j)) js) [length (sc_heap s)..<length (sc_heap s) + length js]\<rparr>"

lemma added_Nil [simp]: "added [] s = s"
  by (simp add: added_def)

lemma added_Cons: "added js (added [j] s) = added (j # js) s"
  by (simp add: added_def upt_conv_Cons del: upt_Suc)

lemma AddJob_added:
  assumes "AddJob cron store C cfg s = Inr t"
  obtains j where "t = added [j] s" "jb_cfg j = normalize_config cfg" "fresh_job j"
    and "jc_name cfg \<notin> fst ` set (sc_jobs s)"
  using assms by (rule AddJob_Inr) (simp add: that added_def normalize_config_def fresh_job_def)

lemma owned_added:
  assumes "owned s" "fresh_job j" "jc_name (jb_cfg j) \<notin> fst ` set (sc_jobs s)"
  shows "owned (added [j] s)"
proof -
  have c: "current (added [j] s) = insert (length (sc_heap s)) (current s)"
    by (auto simp: current_def added_def)
  have "length (sc_heap s) \<notin> snd ` set (sc_jobs s)"
    using assms(1) by (auto simp: owned_def current_def)
  with assms show ?thesis
    unfolding owned_def c by (auto simp: added_def nth_append less_Suc_eq fresh_job_def)
qed

lemma add_all_added:
  assumes "add_all cron store C cfgs s = (e, t)" "owned s"
  obtains js where "t = added js s" "list_all fresh_job js" "owned t" "length js \<le> length cfgs"
    and "map jb_cfg js = map normalize_config (take (length js) cfgs)"
    and "case e of None \<Rightarrow> length js = length cfgs
         | Some err \<Rightarrow> length js < length cfgs \<and> AddJob cron store C (cfgs ! length js) t = Inl err"
proof -
  have "\<exists>js. t = added js s \<and> list_all fresh_job js \<and> owned t \<and> length js \<le> length cfgs
      \<and> map jb_cfg js = map normalize_config (take (length js) cfgs)
      \<and> (case e of None \<Rightarrow> length js = length cfgs
         | Some err \<Rightarrow> length js < length cfgs \<and> AddJob cron store C (cfgs ! length js) t = Inl err)"
    using assms
  proof (induction cron store C cfgs s rule: add_all.induct)
    case (2 cron store C cfg cfgs s)
    show ?case
    proof (cases "AddJob cron store C cfg s")
      case (Inl err)
      with 2 show ?thesis by (intro exI [of _ "[]"]) auto
    next
      case (Inr s')
      obtain j where j: "s' = added [j] s" "jb_cfg j = normalize_config cfg" "fresh_job j"
        "jc_name cfg \<notin> fst ` set (sc_jobs s)" using Inr by (rule AddJob_added)
      have "owned s'" unfolding j(1) using 2(3) j by (intro owned_added) (simp_all add: normalize_config_def)
      moreover have "add_all cron store C cfgs s' = (e, t)" using 2(2) Inr by simp
      ultimately obtain js where js: "t = added js s'" "list_all fresh_job js" "owned t" "length js \<le> length cfgs"
        "map jb_cfg js = map normalize_config (take (length js) cfgs)"
        "case e of None \<Rightarrow> length js = length cfgs
         | Some err \<Rightarrow> length js < length cfgs \<and> AddJob cron store C (cfgs ! length js) t = Inl err"
        using 2(1) [OF Inr] by blast
      with j show ?thesis
        by (intro exI [of _ "j # js"]) (auto simp: added_Cons split: option.splits)
    qed
  qed auto
  then show thesis using that by blast
qed

text \<open>\<open>Start\<close> starts exactly the jobs that were not, in the map's order.\<close>

definition marked :: "nat set \<Rightarrow> (job \<Rightarrow> job) \<Rightarrow> job list \<Rightarrow> job list" where
  "marked is f heap = map (\<lambda>i. if i \<in> is then f (heap ! i) else heap ! i) [0..<length heap]"

lemma length_marked [simp]: "length (marked is f heap) = length heap"
  by (simp add: marked_def)

lemma nth_marked [simp]: "i < length heap \<Longrightarrow> marked is f heap ! i = (if i \<in> is then f (heap ! i) else heap ! i)"
  by (simp add: marked_def)

lemma marked_empty [simp]: "marked {} f heap = heap"
  by (simp add: marked_def map_nth)

lemma marked_insert:
  assumes "i < length heap" "i \<notin> is"
  shows "marked is f (heap[i := f (heap ! i)]) = marked (insert i is) f heap"
  using assms by (intro nth_equalityI) (auto simp: nth_list_update)

definition start_job :: "job \<Rightarrow> job" where
  "start_job j = j\<lparr>jb_started := True\<rparr>"

lemma start_job_started: "jb_started j \<Longrightarrow> start_job j = j"
  by (simp add: start_job_def)

lemma start_one_marked:
  "i < length (sc_heap s) \<Longrightarrow> start_one i s =
     s\<lparr>sc_heap := (sc_heap s)[i := start_job (sc_heap s ! i)],
       sc_gos := sc_gos s @ (if jb_started (sc_heap s ! i) then [] else [(i, AtTop)])\<rparr>"
  by (simp add: start_one_def start_job_started) (simp add: start_job_def)

lemma foldl_start_one:
  assumes "distinct (map snd xs)" "\<forall>i \<in> snd ` set xs. i < length (sc_heap s)"
  shows "foldl (\<lambda>s (n, i). start_one i s) s xs =
    s\<lparr>sc_heap := marked (snd ` set xs) start_job (sc_heap s),
      sc_gos := sc_gos s @ map (\<lambda>i. (i, AtTop)) (filter (\<lambda>i. \<not> jb_started (sc_heap s ! i)) (map snd xs))\<rparr>"
  using assms
proof (induction xs arbitrary: s)
  case (Cons x xs)
  obtain n i where x: "x = (n, i)" by (cases x)
  with Cons.prems have i: "i < length (sc_heap s)" "i \<notin> snd ` set xs" by auto
  have "filter (\<lambda>k. \<not> jb_started ((sc_heap s)[i := start_job (sc_heap s ! i)] ! k)) (map snd xs)
      = filter (\<lambda>k. \<not> jb_started (sc_heap s ! k)) (map snd xs)"
    using i(2) by (intro filter_cong refl) (metis list.set_map nth_list_update_neq)
  then show ?case
    using Cons.IH [of "start_one i s"] Cons.prems i marked_insert [OF i, of start_job]
    by (simp add: x start_one_marked)
qed simp

lemma Start_owned:
  assumes "owned s" "mset (order (sc_jobs s)) = mset (sc_jobs s)"
  shows "Start order s = s\<lparr>sc_heap := marked (current s) start_job (sc_heap s),
      sc_gos := sc_gos s @ map (\<lambda>i. (i, AtTop))
        (filter (\<lambda>i. \<not> jb_started (sc_heap s ! i)) (map snd (order (sc_jobs s))))\<rparr>"
    and "distinct (map snd (order (sc_jobs s)))" "set (map snd (order (sc_jobs s))) = current s"
proof -
  have m: "mset (map snd (order (sc_jobs s))) = mset (map snd (sc_jobs s))" using assms(2) by simp
  have "distinct (map snd (sc_jobs s))" using assms(1) by (simp add: owned_def)
  with m show d: "distinct (map snd (order (sc_jobs s)))" using mset_eq_imp_distinct_iff by blast
  from m show c: "set (map snd (order (sc_jobs s))) = current s"
    unfolding current_def using mset_eq_setD [OF m] by simp
  have "\<forall>i \<in> snd ` set (order (sc_jobs s)). i < length (sc_heap s)"
    using assms(1) c by (auto simp: owned_def)
  from foldl_start_one [OF d this] c
  show "Start order s = s\<lparr>sc_heap := marked (current s) start_job (sc_heap s),
      sc_gos := sc_gos s @ map (\<lambda>i. (i, AtTop))
        (filter (\<lambda>i. \<not> jb_started (sc_heap s ! i)) (map snd (order (sc_jobs s))))\<rparr>"
    unfolding Start_def by simp
qed

lemma start_job_simps [simp]:
  "jb_started (start_job j)" "jb_closed (start_job j) = jb_closed j" "jb_cfg (start_job j) = jb_cfg j"
  "jb_running (start_job j) = jb_running j" "jb_state (start_job j) = jb_state j"
  "jb_next (start_job j) = jb_next j" "jb_spec (start_job j) = jb_spec j"
  by (simp_all add: start_job_def)

lemma owned_Start:
  assumes "owned s" "mset (order (sc_jobs s)) = mset (sc_jobs s)"
  shows "owned (Start order s)" "current (Start order s) = current s"
    and "\<forall>i \<in> current s. jb_started (sc_heap (Start order s) ! i) \<and> i \<in> fst ` set (sc_gos (Start order s))"
proof -
  note st = Start_owned [where order = order and s = s, OF assms]
  let ?new = "filter (\<lambda>i. \<not> jb_started (sc_heap s ! i)) (map snd (order (sc_jobs s)))"
  show c: "current (Start order s) = current s" by (simp add: st(1) current_def)
  have new: "distinct ?new" "set ?new = {i \<in> current s. \<not> jb_started (sc_heap s ! i)}"
    using st(2,3) by (simp_all only: distinct_filter set_filter)
  note o = ownedD [OF assms(1)]
  have "i \<notin> fst ` set (sc_gos s)" if "i \<in> set ?new" for i
    using that o(2) [of i] o(5) [of i] unfolding new(2) by blast
  then have "set (map fst (sc_gos s)) \<inter> set ?new = {}" by auto
  with new(1) o(6) have "distinct (map fst (sc_gos s) @ ?new)" by (simp only: distinct_append)
  moreover have "map fst (sc_gos (Start order s)) = map fst (sc_gos s) @ ?new" by (simp add: st(1) comp_def)
  ultimately have d: "distinct (map fst (sc_gos (Start order s)))" by simp
  have g: "fst ` set (sc_gos (Start order s)) = fst ` set (sc_gos s) \<union> set ?new" by (simp add: st(1) image_Un image_image)
  have h: "length (sc_heap (Start order s)) = length (sc_heap s)" "sc_jobs (Start order s) = sc_jobs s"
    by (simp_all add: st(1))
  have n: "sc_heap (Start order s) ! i = (if i \<in> current s then start_job (sc_heap s ! i) else sc_heap s ! i)"
    if "i < length (sc_heap s)" for i using that by (simp add: st(1))
  have all: "jb_started (sc_heap (Start order s) ! i) \<and> i \<in> fst ` set (sc_gos (Start order s))"
    if "i \<in> current s" for i
  proof
    note l = o(1) [OF that]
    show "jb_started (sc_heap (Start order s) ! i)" unfolding n [OF l] using that by simp
    show "i \<in> fst ` set (sc_gos (Start order s))"
      using that o(3) [OF l] unfolding g new(2) by blast
  qed
  then show "\<forall>i \<in> current s. jb_started (sc_heap (Start order s) ! i) \<and> i \<in> fst ` set (sc_gos (Start order s))"
    by blast
  show "owned (Start order s)"
  proof (rule ownedI, unfold c h)
    show "i < length (sc_heap s) \<and> \<not> jb_closed (sc_heap (Start order s) ! i)" if "i \<in> current s" for i
      using that o(1,2) [of i] by (simp add: n)
    show "i \<in> current s \<and> i \<in> fst ` set (sc_gos (Start order s))"
      if "i < length (sc_heap s)" "jb_started (sc_heap (Start order s) ! i)" for i
      using that all [of i] o(3) [of i] by (simp add: n split: if_splits)
    show "i < length (sc_heap s) \<and> (jb_started (sc_heap (Start order s) ! i) \<or> jb_closed (sc_heap (Start order s) ! i))"
      if "i \<in> fst ` set (sc_gos (Start order s))" for i
    proof (cases "i \<in> current s")
      case True
      then show ?thesis using all o(1) by blast
    next
      case False
      with that have "i \<in> fst ` set (sc_gos s)" unfolding g new(2) by blast
      with False o(4,5) [of i] show ?thesis by (simp add: n)
    qed
  qed (rule d o(7,8))+
qed

section \<open>Stopping\<close>

definition stop_job :: "job \<Rightarrow> job" where
  "stop_job j = (if jb_started j then j\<lparr>jb_closed := True, jb_started := False\<rparr> else j)"

lemma stop_job_simps [simp]:
  "\<not> jb_started (stop_job j)" "jb_closed (stop_job j) \<longleftrightarrow> jb_closed j \<or> jb_started j" "jb_cfg (stop_job j) = jb_cfg j"
  "jb_running (stop_job j) = jb_running j"
  by (simp_all add: stop_job_def)

lemma stop_all_marked:
  assumes "distinct (map snd xs)" "\<forall>i \<in> snd ` set xs. i < length (sc_heap s) \<and> \<not> jb_closed (sc_heap s ! i)"
  shows "stop_all xs s = Some (s\<lparr>sc_heap := marked (snd ` set xs) stop_job (sc_heap s)\<rparr>)"
  using assms
proof (induction xs arbitrary: s)
  case (Cons x xs)
  obtain n i where x: "x = (n, i)" by (cases x)
  with Cons.prems have i: "i < length (sc_heap s)" "i \<notin> snd ` set xs" "\<not> jb_closed (sc_heap s ! i)" by auto
  let ?s = "s\<lparr>sc_heap := (sc_heap s)[i := stop_job (sc_heap s ! i)]\<rparr>"
  have "stop_one i s = Some ?s"
    using i(3) by (simp add: stop_one_def stop_job_def Let_def)
  moreover have "stop_all xs ?s = Some (?s\<lparr>sc_heap := marked (snd ` set xs) stop_job (sc_heap ?s)\<rparr>)"
    using Cons.prems i x by (intro Cons.IH) (auto simp: nth_list_update)
  ultimately show ?case using marked_insert [OF i(1,2), of stop_job] by (simp add: x)
qed simp

text \<open>The scheduler after the first half of \<open>ReplaceJobs\<close>.\<close>

definition retired :: "'d sched \<Rightarrow> 'd sched" where
  "retired s = s\<lparr>sc_heap := marked (current s) stop_job (sc_heap s), sc_jobs := []\<rparr>"

lemma Stop_owned:
  assumes "owned s" "mset (order (sc_jobs s)) = mset (sc_jobs s)"
  shows "Stop order s = Some (s\<lparr>sc_heap := marked (current s) stop_job (sc_heap s)\<rparr>)"
proof -
  have "snd ` set (order (sc_jobs s)) = current s" using Start_owned(3) [where order = order and s = s, OF assms] by simp
  then show ?thesis
    unfolding Stop_def using assms(1) Start_owned(2) [where order = order and s = s, OF assms]
    by (subst stop_all_marked) (auto simp: owned_def)
qed

lemma halted_retired: "owned s \<Longrightarrow> halted (retired s)"
proof -
  assume "owned s"
  moreover have "current (retired s) = {}" by (simp add: retired_def current_def)
  ultimately show "halted (retired s)"
    unfolding halted_def owned_def by (auto simp: retired_def)
qed

section \<open>Replacing\<close>

lemma ReplaceJobs_owned:
  assumes "owned s" "\<And>m. mset (order m) = mset m"
  obtains js where "list_all fresh_job js" "length js \<le> length cfgs"
    and "map jb_cfg js = map normalize_config (take (length js) cfgs)" "owned (added js (retired s))"
    and "(ReplaceJobs cron store C order cfgs s = Some (None, Start order (added js (retired s))) \<and> length js = length cfgs)
       \<or> (\<exists>err. ReplaceJobs cron store C order cfgs s = Some (Some err, added js (retired s)) \<and> length js < length cfgs
            \<and> AddJob cron store C (cfgs ! length js) (added js (retired s)) = Inl err)"
proof -
  obtain e t where t: "add_all cron store C cfgs (retired s) = (e, t)" by (metis prod.collapse)
  have "owned (retired s)" using halted_retired [OF assms(1)] by (simp add: halted_def)
  with t obtain js where js: "t = added js (retired s)" "list_all fresh_job js" "owned t" "length js \<le> length cfgs"
    "map jb_cfg js = map normalize_config (take (length js) cfgs)"
    "case e of None \<Rightarrow> length js = length cfgs
     | Some err \<Rightarrow> length js < length cfgs \<and> AddJob cron store C (cfgs ! length js) t = Inl err"
    by (rule add_all_added)
  have "ReplaceJobs cron store C order cfgs s
      = Some (case e of None \<Rightarrow> (None, Start order t) | Some err \<Rightarrow> (Some err, t))"
    using t by (simp add: ReplaceJobs_def Stop_owned [where order = order and s = s, OF assms] retired_def split: option.split)
  with js show thesis by (cases e) (auto intro!: that)
qed

lemma halted_added:
  assumes "halted s" "list_all fresh_job js" "owned (added js s)"
  shows "halted (added js s)"
  using assms by (auto simp: halted_def added_def nth_append list_all_length fresh_job_def)

lemma owned_ReplaceJobs:
  assumes "owned s" "\<And>m. mset (order m) = mset m" "ReplaceJobs cron store C order cfgs s = Some (e, t)"
  shows "owned t" "case e of None \<Rightarrow> current t \<subseteq> fst ` set (sc_gos t) | Some err \<Rightarrow> halted t"
proof -
  obtain js where js: "list_all fresh_job js" "owned (added js (retired s))"
    "(ReplaceJobs cron store C order cfgs s = Some (None, Start order (added js (retired s))) \<and> length js = length cfgs)
     \<or> (\<exists>err. ReplaceJobs cron store C order cfgs s = Some (Some err, added js (retired s)) \<and> length js < length cfgs
          \<and> AddJob cron store C (cfgs ! length js) (added js (retired s)) = Inl err)"
    using ReplaceJobs_owned [where order = order and s = s, OF assms(1,2)] by metis
  note st = owned_Start [where order = order, OF js(2) assms(2)]
  from js(3) have t: "(e = None \<and> t = Start order (added js (retired s))) \<or> (e \<noteq> None \<and> t = added js (retired s))"
    using assms(3) by auto
  show "owned t" using t st(1) js(2) by auto
  show "case e of None \<Rightarrow> current t \<subseteq> fst ` set (sc_gos t) | Some err \<Rightarrow> halted t"
    using t st(2,3) halted_added [OF halted_retired [OF assms(1)] js(1,2)] by (auto simp: subset_eq split: option.splits)
qed

lemma ReplaceJobs_frame:
  assumes "owned s" "\<And>m. mset (order m) = mset m" "ReplaceJobs cron store C order cfgs s = Some (e, t)"
  shows "sc_db t = sc_db s" "sc_out t = sc_out s" "sc_now t = sc_now s" "sc_cancelled t = sc_cancelled s"
proof -
  obtain js where js: "owned (added js (retired s))" "t = added js (retired s) \<or> t = Start order (added js (retired s))"
    using ReplaceJobs_owned [where order = order and s = s and cron = cron and store = store and C = C and cfgs = cfgs,
        OF assms(1,2)] assms(3) by (metis option.inject prod.inject)
  then show "sc_db t = sc_db s" "sc_out t = sc_out s" "sc_now t = sc_now s" "sc_cancelled t = sc_cancelled s"
    using Start_owned(1) [where order = order, OF js(1) assms(2)] by (auto simp: added_def retired_def)
qed

section \<open>Goroutines\<close>

lemma end_job_flags:
  "end_job store C now outcome (j, d) = ((j1, d'), out) \<Longrightarrow> jb_closed j1 = jb_closed j \<and> jb_started j1 = jb_started j"
  by (auto simp: end_job_def end_running_def updateState_def Let_def split: prod.splits option.splits if_splits)

lemma enter_wait_flags:
  "enter_wait j now = (j', ph) \<Longrightarrow> jb_closed j' = jb_closed j \<and> jb_started j' = jb_started j"
  by (auto simp: enter_wait_def Let_def split: if_splits)

lemma begin_job_flags:
  "begin_job j = Some j' \<Longrightarrow> jb_closed j' = jb_closed j \<and> jb_started j' = jb_started j"
  by (auto simp: begin_job_def split: if_splits)

lemma go_flags:
  "go store C cancelled now (j, d, ph) (j', d', ph', out) \<Longrightarrow>
     jb_closed j' = jb_closed j \<and> jb_started j' = jb_started j"
  by (erule go_cases) (auto dest!: end_job_flags enter_wait_flags begin_job_flags)

text \<open>One step of the goroutine \<open>g\<close>.\<close>

definition go_step ::
  "('d, 'b) store_ops option \<Rightarrow> (job_state, 'b) codec \<Rightarrow> 'd sched \<Rightarrow> nat \<Rightarrow> scan_result list \<Rightarrow> 'd sched \<Rightarrow> bool" where
  "go_step store C s g out t \<longleftrightarrow>
     g < length (sc_gos s) \<and>
     (\<exists>i ph j' d' ph'. sc_gos s ! g = (i, ph)
        \<and> go store C (sc_cancelled s) (sc_now s) (sc_heap s ! i, sc_db s, ph) (j', d', ph', out)
        \<and> t = s\<lparr>sc_heap := (sc_heap s)[i := j'], sc_db := d', sc_gos := (sc_gos s)[g := (i, ph')],
               sc_out := sc_out s @ out\<rparr>)"

lemma go_step_sched: "go_step store C s g out t \<Longrightarrow> sched_step cron store C s t"
  unfolding go_step_def by (blast intro: sched_step.StepGo)

lemma go_step_owned:
  assumes "go_step store C s g out t"
  shows "owned t \<longleftrightarrow> owned s" "halted t \<longleftrightarrow> halted s" "sc_jobs t = sc_jobs s" "sc_out t = sc_out s @ out"
    and "fst ` set (sc_gos t) = fst ` set (sc_gos s)"
proof -
  obtain i ph j' d' ph' where g: "g < length (sc_gos s)" "sc_gos s ! g = (i, ph)"
    and go: "go store C (sc_cancelled s) (sc_now s) (sc_heap s ! i, sc_db s, ph) (j', d', ph', out)"
    and t: "t = s\<lparr>sc_heap := (sc_heap s)[i := j'], sc_db := d', sc_gos := (sc_gos s)[g := (i, ph')],
               sc_out := sc_out s @ out\<rparr>"
    using assms unfolding go_step_def by blast
  have m: "map fst (sc_gos t) = map fst (sc_gos s)"
    using g by (simp add: t map_update) (metis fst_conv list_update_id nth_map)
  have f: "jb_started (sc_heap t ! k) = jb_started (sc_heap s ! k) \<and> jb_closed (sc_heap t ! k) = jb_closed (sc_heap s ! k)"
    if "k < length (sc_heap s)" for k
    using that go_flags [OF go] by (cases "k = i") (simp_all add: t)
  show "owned t \<longleftrightarrow> owned s" "halted t \<longleftrightarrow> halted s"
    by (rule owned_cong [OF _ _ m f]; simp add: t)+
  show "sc_jobs t = sc_jobs s" "sc_out t = sc_out s @ out" by (simp_all add: t)
  show "fst ` set (sc_gos t) = fst ` set (sc_gos s)" using m by (metis list.set_map)
qed

text \<open>With one goroutine per job the overlap guard has nothing to refuse.\<close>

lemma exec_count_distinct:
  assumes "distinct (map fst gs)" "(i, ph) \<in> set gs"
  shows "exec_count gs i = (if executing ph then 1 else 0)"
proof -
  have none: "exec_count gs i = 0" if "i \<notin> fst ` set gs" for gs :: "(nat \<times> phase) list"
    using that by (induction gs) (auto simp: exec_count_def)
  show ?thesis
    using assms
  proof (induction gs)
    case (Cons x gs)
    obtain k p where x: "x = (k, p)" by (cases x)
    show ?case
    proof (cases "k = i")
      case True
      with Cons.prems x have "p = ph" "exec_count gs i = 0" using none [of gs] by force+
      with True x show ?thesis by (simp add: exec_count_def)
    next
      case False
      with Cons x show ?thesis by (simp add: exec_count_def)
    qed
  qed simp
qed

lemma exec_count_le:
  assumes "distinct (map fst gs)"
  shows "exec_count gs i \<le> 1"
proof (cases "i \<in> fst ` set gs")
  case True
  then obtain ph where "(i, ph) \<in> set gs" by auto
  from exec_count_distinct [OF assms this] show ?thesis by simp
next
  case False
  then show ?thesis by (induction gs) (auto simp: exec_count_def)
qed

lemma guard_never_refuses:
  assumes "owned s" "sched_inv s" "(i, ph) \<in> set (sc_gos s)" "\<not> executing ph"
  shows "begin_job (sc_heap s ! i) \<noteq> None"
proof -
  note o = ownedD [OF assms(1)]
  have "i < length (sc_heap s)" using o(4) [of i] assms(3) by force
  moreover have "exec_count (sc_gos s) i = 0" using exec_count_distinct [OF o(6) assms(3)] assms(4) by simp
  ultimately have "\<not> jc_overlap (jb_cfg (sc_heap s ! i)) \<longrightarrow> \<not> jb_running (sc_heap s ! i)"
    using assms(2) by (auto simp: sched_inv_def split: if_splits)
  then show ?thesis by (simp add: begin_job_def)
qed

end
