(* ===== verification/Privileges.thy ===== *)
theory Privileges
  imports GoTime
begin

text \<open>
  The privileges of the process and its check of itself: \<open>internal/daemon/privileges.go\<close> and
  \<open>integrity.go\<close>, with what they use of the standard library: \<open>strconv.Atoi\<close>, the line scanner of
  \<open>bufio\<close> with its bound on a line, and the two system calls. The system calls are those of Linux on a
  process whose capabilities are the ones to set ids or none; an id is cut to 32 bits and the greatest one
  is refused. The contents of files and the hash are parameters.
\<close>

section \<open>Standard library\<close>

definition atoi :: "string \<Rightarrow> int option" where
  "atoi s =
     (let neg = has_prefix s ''-'';
          ds = (if neg \<or> has_prefix s ''+'' then drop 1 s else s);
          v = (if neg then - int (digits_val ds) else int (digits_val ds))
      in if ds = [] \<or> \<not> list_all is_digit ds \<or> v < min_int64 \<or> max_int64 < v then None else Some v)"

text \<open>What \<open>bufio.Scanner\<close> yields, and whether it stops at a line that does not fit its buffer.\<close>

definition max_token :: nat where
  "max_token = 65536"

definition drop_cr :: "string \<Rightarrow> string" where
  "drop_cr l = (if l \<noteq> [] \<and> last l = CHR 0x0D then butlast l else l)"

definition raw_lines :: "string \<Rightarrow> string list" where
  "raw_lines s = (let ls = split_on newline s in if last ls = [] then butlast ls else ls)"

definition scan_lines :: "string \<Rightarrow> string list \<times> bool" where
  "scan_lines s =
     (map drop_cr (takeWhile (\<lambda>l. length l < max_token) (raw_lines s)),
      list_ex (\<lambda>l. max_token \<le> length l) (raw_lines s))"

text \<open>Opening a file and reading it to its end, or to an error.\<close>

datatype file_read = OpenFails string | ReadsTo string "string option"

section \<open>Names and ids\<close>

datatype id_error =
    IdFileOpen string string
  | IdFileRead string string
  | IdInvalid string string string
  | IdUnknown string string

definition passwdPath :: string where "passwdPath = ''/etc/passwd''"
definition groupPath :: string where "groupPath = ''/etc/group''"

text \<open>The loop of \<open>lookupName\<close>; \<open>None\<close> when no line ends it.\<close>

fun lookup_lines :: "string \<Rightarrow> string \<Rightarrow> string \<Rightarrow> string list \<Rightarrow> (id_error, int) result option" where
  "lookup_lines label name path [] = None"
| "lookup_lines label name path (line # lines) =
     (let parts = split_on (CHR '':'') line in
      if line = [] \<or> has_prefix line ''#'' then lookup_lines label name path lines
      else if length parts < 3 then lookup_lines label name path lines
      else if parts ! 0 \<noteq> name then lookup_lines label name path lines
      else Some (case atoi (parts ! 2) of
          None \<Rightarrow> Inl (IdInvalid label name path)
        | Some i \<Rightarrow> if i < 0 then Inl (IdInvalid label name path) else Inr i))"

definition lookupName ::
  "(string \<Rightarrow> file_read) \<Rightarrow> string \<Rightarrow> string \<Rightarrow> string \<Rightarrow> (id_error, int) result" where
  "lookupName files label name path =
     (case files path of
        OpenFails e \<Rightarrow> Inl (IdFileOpen path e)
      | ReadsTo bytes err \<Rightarrow>
          (let (lines, too_long) = scan_lines bytes in
           case lookup_lines label name path lines of
             Some r \<Rightarrow> r
           | None \<Rightarrow>
               if too_long then Inl (IdFileRead path ''bufio.Scanner: token too long'')
               else (case err of Some e \<Rightarrow> Inl (IdFileRead path e) | None \<Rightarrow> Inl (IdUnknown label name))))"

definition resolveID ::
  "(string \<Rightarrow> file_read) \<Rightarrow> string \<Rightarrow> string \<Rightarrow> string \<Rightarrow> (id_error, int) result" where
  "resolveID files label value path =
     (if value = [] then Inr (- 1)
      else case atoi value of
        None \<Rightarrow> lookupName files label value path
      | Some parsed \<Rightarrow> if parsed < 0 then lookupName files label value path else Inr parsed)"

definition resolveUserID :: "(string \<Rightarrow> file_read) \<Rightarrow> string \<Rightarrow> (id_error, int) result" where
  "resolveUserID files value = resolveID files ''user'' value passwdPath"

definition resolveGroupID :: "(string \<Rightarrow> file_read) \<Rightarrow> string \<Rightarrow> (id_error, int) result" where
  "resolveGroupID files value = resolveID files ''group'' value groupPath"

section \<open>The process\<close>

record credentials =
  cr_ruid :: int
  cr_euid :: int
  cr_suid :: int
  cr_rgid :: int
  cr_egid :: int
  cr_sgid :: int
  cr_groups :: "int list" \<comment> \<open>the supplementary groups\<close>
  cr_set_ids :: bool \<comment> \<open>may set any id\<close>

definition as_id :: "int \<Rightarrow> int" where
  "as_id i = i mod 2 ^ 32"

definition invalid_id :: "int \<Rightarrow> bool" where
  "invalid_id i \<longleftrightarrow> as_id i = 2 ^ 32 - 1"

definition sys_setgid :: "int \<Rightarrow> credentials \<Rightarrow> (string, credentials) result" where
  "sys_setgid i c =
     (let g = as_id i in
      if invalid_id i then Inl ''invalid argument''
      else if cr_set_ids c then Inr (c\<lparr>cr_rgid := g, cr_egid := g, cr_sgid := g\<rparr>)
      else if g = cr_rgid c \<or> g = cr_sgid c then Inr (c\<lparr>cr_egid := g\<rparr>)
      else Inl ''operation not permitted'')"

text \<open>A process that leaves user 0 for good loses its capabilities.\<close>

definition sys_setuid :: "int \<Rightarrow> credentials \<Rightarrow> (string, credentials) result" where
  "sys_setuid i c =
     (let u = as_id i; was_root = (0 \<in> {cr_ruid c, cr_euid c, cr_suid c}) in
      if invalid_id i then Inl ''invalid argument''
      else if cr_set_ids c
        then Inr (c\<lparr>cr_ruid := u, cr_euid := u, cr_suid := u, cr_set_ids := \<not> (was_root \<and> u \<noteq> 0)\<rparr>)
      else if u = cr_ruid c \<or> u = cr_suid c then Inr (c\<lparr>cr_euid := u\<rparr>)
      else Inl ''operation not permitted'')"

datatype drop_error = ResolveFails id_error | SetgidFails string | SetuidFails string | UserMissing | GroupMissing

definition DropPrivileges ::
  "(string \<Rightarrow> file_read) \<Rightarrow> string \<Rightarrow> string \<Rightarrow> credentials \<Rightarrow> drop_error option \<times> credentials" where
  "DropPrivileges files userID groupID c =
     (if userID = [] \<and> groupID = [] then (None, c)
      else case resolveUserID files userID of
        Inl e \<Rightarrow> (Some (ResolveFails e), c)
      | Inr uid \<Rightarrow>
          (case resolveGroupID files groupID of
             Inl e \<Rightarrow> (Some (ResolveFails e), c)
           | Inr gid \<Rightarrow>
               (case (if gid \<ge> 0 then sys_setgid gid c else Inr c) of
                  Inl e \<Rightarrow> (Some (SetgidFails e), c)
                | Inr c1 \<Rightarrow>
                    (case (if uid \<ge> 0 then sys_setuid uid c1 else Inr c1) of
                       Inl e \<Rightarrow> (Some (SetuidFails e), c1)
                     | Inr c2 \<Rightarrow> (None, c2)))))"

definition RequirePrivilegeDrop :: "string \<Rightarrow> string \<Rightarrow> credentials \<Rightarrow> drop_error option" where
  "RequirePrivilegeDrop userID groupID c =
     (if cr_euid c \<noteq> 0 then None
      else if userID = [] then Some UserMissing
      else if groupID = [] then Some GroupMissing
      else None)"

section \<open>The check of the executable\<close>

text \<open>\<open>%x\<close> of a byte slice.\<close>

definition hex_bytes :: "nat list \<Rightarrow> string" where
  "hex_bytes bs = concat (map (\<lambda>b. [hex_digit (b div 16), hex_digit (b mod 16)]) bs)"

datatype integrity_error =
  ResolveExecutable string | OpenExecutable string | HashExecutable string | IntegrityMismatch string string

definition VerifySelfIntegrity ::
  "(string, string) result \<Rightarrow> (string \<Rightarrow> file_read) \<Rightarrow> (string \<Rightarrow> nat list) \<Rightarrow> string
     \<Rightarrow> integrity_error option" where
  "VerifySelfIntegrity executable files sha256 expected =
     (case executable of
        Inl e \<Rightarrow> Some (ResolveExecutable e)
      | Inr exe \<Rightarrow>
          (case files exe of
             OpenFails e \<Rightarrow> Some (OpenExecutable e)
           | ReadsTo bytes (Some e) \<Rightarrow> Some (HashExecutable e)
           | ReadsTo bytes None \<Rightarrow>
               (let actual = hex_bytes (sha256 bytes) in
                if actual \<noteq> expected then Some (IntegrityMismatch expected actual) else None)))"

section \<open>Facts about the files\<close>

text \<open>A file of entries, a name, an id and the fields that follow.\<close>

definition id_line :: "string \<times> nat \<times> string \<Rightarrow> string" where
  "id_line e = (case e of (name, i, rest) \<Rightarrow> name @ '':x:'' @ show_nat i @ '':'' @ rest)"

definition id_file :: "(string \<times> nat \<times> string) list \<Rightarrow> string" where
  "id_file es = concat (map (\<lambda>e. id_line e @ [newline]) es)"

definition id_entry :: "string \<times> nat \<times> string \<Rightarrow> bool" where
  "id_entry e \<longleftrightarrow>
     (case e of (name, i, rest) \<Rightarrow>
        name \<noteq> [] \<and> \<not> has_prefix name ''#'' \<and> CHR '':'' \<notin> set name \<and> newline \<notin> set (name @ rest)
        \<and> CHR 0x0D \<notin> set rest \<and> int i \<le> max_int64 \<and> length (id_line e) < max_token)"

lemma set_show_nat: "c \<in> set (show_nat n) \<Longrightarrow> is_digit c"
  using show_nat_digits [of n] by (simp add: list_all_iff)

lemma show_nat_clean: "newline \<notin> set (show_nat n)" "CHR '':'' \<notin> set (show_nat n)"
  using set_show_nat [of newline n] set_show_nat [of "CHR '':''" n] by (auto simp: is_digit_def newline_def)

lemma show_nat_no_sign: "\<not> has_prefix (show_nat n) ''-''" "\<not> has_prefix (show_nat n) ''+''"
  using set_show_nat [of "CHR ''-''" n] set_show_nat [of "CHR ''+''" n]
  by (auto simp: is_digit_def has_prefix_iff)

lemma atoi_show_nat: "int n \<le> max_int64 \<Longrightarrow> atoi (show_nat n) = Some (int n)"
  by (simp add: atoi_def show_nat_no_sign show_nat_digits min_int64_def)

lemma raw_lines_id_file:
  assumes "list_all (\<lambda>l. newline \<notin> set l) ls"
  shows "raw_lines (concat (map (\<lambda>l. l @ [newline]) ls)) = ls"
proof -
  have "split_on newline (concat (map (\<lambda>l. l @ [newline]) ls)) = ls @ [[]]"
    using assms by (induction ls) (simp_all add: split_on_append)
  then show ?thesis by (simp add: raw_lines_def)
qed

lemma id_line_clean:
  assumes "id_entry e"
  shows "newline \<notin> set (id_line e)" "drop_cr (id_line e) = id_line e" "length (id_line e) < max_token"
    and "id_line e \<noteq> []" "\<not> has_prefix (id_line e) ''#''"
proof -
  obtain n i r where e: "e = (n, i, r)" by (cases e)
  then have r: "id_line e = n @ '':x:'' @ show_nat i @ '':'' @ r" by (simp add: id_line_def)
  with assms e show "newline \<notin> set (id_line e)" "length (id_line e) < max_token" "id_line e \<noteq> []"
    using show_nat_clean(1) [of i] by (auto simp: id_entry_def newline_def)
  have "last (id_line e) \<noteq> CHR 0x0D"
  proof (cases "r = []")
    case False
    with assms e have "last r \<noteq> CHR 0x0D" by (metis (no_types, lifting) case_prod_conv id_entry_def last_in_set)
    with False r show ?thesis by simp
  qed (simp add: r)
  then show "drop_cr (id_line e) = id_line e" by (simp add: drop_cr_def)
  show "\<not> has_prefix (id_line e) ''#''"
    using assms e by (cases n) (auto simp: id_line_def id_entry_def)
qed

lemma scan_id_file:
  assumes "list_all id_entry es"
  shows "scan_lines (id_file es) = (map id_line es, False)"
proof -
  have l: "raw_lines (id_file es) = map id_line es"
    using raw_lines_id_file [of "map id_line es"] assms
    by (simp add: id_file_def list_all_iff id_line_clean(1) comp_def)
  have t: "takeWhile (\<lambda>l. length l < max_token) (map id_line es) = map id_line es"
    using assms by (simp add: list_all_iff id_line_clean(3))
  have d: "map drop_cr (map id_line es) = map id_line es"
    using assms by (simp add: list_all_iff id_line_clean(2))
  have "\<not> list_ex (\<lambda>l. max_token \<le> length l) (map id_line es)"
    using assms id_line_clean(3) unfolding list_ex_iff list_all_iff set_map by (metis imageE leD)
  with d show ?thesis unfolding scan_lines_def l t by simp
qed

lemma lookup_id_lines:
  assumes "list_all id_entry es"
  shows "lookup_lines label name path (map id_line es)
    = map_option (\<lambda>(n, i, r). Inr (int i)) (find (\<lambda>(n, i, r). n = name) es)"
  using assms
proof (induction es)
  case (Cons e es)
  obtain n i r where e: "e = (n, i, r)" by (cases e)
  with Cons.prems have c: "CHR '':'' \<notin> set n" "int i \<le> max_int64" by (auto simp: id_entry_def)
  have "split_on (CHR '':'') (id_line e) = n # ''x'' # show_nat i # split_on (CHR '':'') r"
    using split_on_append [OF c(1), of "CHR ''x'' # CHR '':'' # show_nat i @ CHR '':'' # r"]
      split_on_append [of "CHR '':''" "''x''" "show_nat i @ CHR '':'' # r"]
      split_on_append [OF show_nat_clean(2) [of i], of r]
    by (simp add: e id_line_def)
  with Cons e c(2) id_line_clean(4,5) [of e] show ?case by (auto simp: atoi_show_nat Let_def)
qed simp

text \<open>An id that a configured name or number resolves to is not negative.\<close>

lemma lookup_lines_nonneg: "lookup_lines label name path lines = Some (Inr i) \<Longrightarrow> 0 \<le> i"
  by (induction lines) (auto simp: Let_def split: if_splits option.splits)

lemma lookupName_nonneg: "lookupName files label name path = Inr i \<Longrightarrow> 0 \<le> i"
  by (auto simp: lookupName_def Let_def split: file_read.splits prod.splits option.splits if_splits
      dest: lookup_lines_nonneg)

lemma resolveID_nonneg: "resolveID files label value path = Inr i \<Longrightarrow> value \<noteq> [] \<Longrightarrow> 0 \<le> i"
  by (auto simp: resolveID_def split: option.splits if_splits dest: lookupName_nonneg)

lemma as_id_0: "as_id i = 0 \<longleftrightarrow> 2 ^ 32 dvd i"
  by (simp add: as_id_def dvd_eq_mod_eq_0)

section \<open>Properties\<close>

text \<open>A user name that is no number is resolved to the id of the first line of the password file with that
  name, and is unknown when no line has it.\<close>

theorem names_resolve_to_first_entry:
  assumes "files passwdPath = ReadsTo (id_file es) None" "list_all id_entry es"
    and "name \<noteq> []" "atoi name = None"
  shows "resolveUserID files name
    = (case find (\<lambda>(n, i, r). n = name) es of None \<Rightarrow> Inl (IdUnknown ''user'' name) | Some (n, i, r) \<Rightarrow> Inr (int i))"
  using assms
  by (simp add: resolveUserID_def resolveID_def lookupName_def scan_id_file lookup_id_lines split: option.splits)

definition sample_files :: "string \<Rightarrow> file_read" where
  "sample_files p =
     ReadsTo (id_file [(''root'', 0, ''0::/root:/bin/sh''), (''arcsent'', 990, ''990::/:/bin/false'')]) None"

lemma sample_entries:
  "list_all id_entry [(''root'', 0, ''0::/root:/bin/sh''), (''arcsent'', 990, ''990::/:/bin/false'')]"
  by (simp add: id_entry_def id_line_def newline_def max_int64_def max_token_def show_nat.simps)

lemma atoi_arcsent: "atoi ''arcsent'' = None"
  by (simp add: atoi_def is_digit_def)

theorem names_resolve_to_first_entry_witness:
  "resolveUserID sample_files ''arcsent'' = Inr 990"
  using names_resolve_to_first_entry [OF _ sample_entries _ atoi_arcsent, of sample_files]
  by (simp add: sample_files_def)

text \<open>C35 What dropping the privileges does to a process that may set its ids, when a user and a group are
  configured: on success its real, effective and saved ids are the resolved ones, its supplementary groups
  are all those it had, and it still runs as root exactly when the user's id is zero in its last 32 bits;
  on an error the user ids are what they were.\<close>

theorem drop_keeps_groups:
  assumes "DropPrivileges files user grp c = (err, c')" "user \<noteq> []" "grp \<noteq> []" "cr_set_ids c"
  shows "(case err of
      None \<Rightarrow> \<exists>uid gid. resolveUserID files user = Inr uid \<and> resolveGroupID files grp = Inr gid
        \<and> cr_ruid c' = as_id uid \<and> cr_euid c' = as_id uid \<and> cr_suid c' = as_id uid
        \<and> cr_rgid c' = as_id gid \<and> cr_egid c' = as_id gid \<and> cr_sgid c' = as_id gid
        \<and> (cr_euid c' = 0 \<longleftrightarrow> 2 ^ 32 dvd uid)
    | Some e \<Rightarrow> cr_ruid c' = cr_ruid c \<and> cr_euid c' = cr_euid c \<and> cr_suid c' = cr_suid c)
    \<and> cr_groups c' = cr_groups c"
proof -
  have u: "resolveUserID files user = Inr i \<Longrightarrow> 0 \<le> i" and g: "resolveGroupID files grp = Inr i \<Longrightarrow> 0 \<le> i" for i
    using assms(2,3) resolveID_nonneg unfolding resolveUserID_def resolveGroupID_def by blast+
  show ?thesis
    using assms(1) unfolding DropPrivileges_def sys_setgid_def sys_setuid_def Let_def
    by (auto simp: assms(2-4) as_id_0 dest: u g split: sum.splits if_splits)
qed

definition root_process :: credentials where
  "root_process = \<lparr>cr_ruid = 0, cr_euid = 0, cr_suid = 0, cr_rgid = 0, cr_egid = 0, cr_sgid = 0,
     cr_groups = [0, 4, 27], cr_set_ids = True\<rparr>"

theorem drop_keeps_groups_witness:
  "cr_euid (snd (DropPrivileges sample_files ''990'' ''990'' root_process)) = 990
   \<and> cr_groups (snd (DropPrivileges sample_files ''990'' ''990'' root_process)) = [0, 4, 27]"
proof -
  have a: "atoi ''990'' = Some 990"
    by (simp add: atoi_def is_digit_def digits_val_def digit_val_def min_int64_def max_int64_def)
  then have r: "resolveUserID sample_files ''990'' = Inr 990" "resolveGroupID sample_files ''990'' = Inr 990"
    by (simp_all add: resolveUserID_def resolveGroupID_def resolveID_def)
  then have "DropPrivileges sample_files ''990'' ''990'' root_process
      = (None, snd (DropPrivileges sample_files ''990'' ''990'' root_process))"
    by (simp add: DropPrivileges_def sys_setgid_def sys_setuid_def root_process_def Let_def invalid_id_def as_id_def)
  from drop_keeps_groups [OF this] r show ?thesis by (simp add: root_process_def as_id_def)
qed

end
