(* ===== verification/Runner.thy ===== *)
theory Runner
  imports Daemon SchedulerReload SigUpdate WebServer Privileges
begin

text \<open>
  The daemon as a whole, \<open>Runner\<close> of \<open>internal/daemon/runner.go\<close>: its start, the reload on a signal, the
  shutdown, and the steps of everything that runs in between. The state holds the variables the closures
  of \<open>Run\<close> share. There is one store, the scheduler's \<open>sc_db\<close>; the pipeline is handed it at each call.
  A reload, a callback and a request are single steps, and of the log only the lines of this file are
  kept. What a plugin's \<open>Init\<close> answers may depend on the calls of \<open>Init\<close> before it.
\<close>

section \<open>State\<close>

text \<open>What the daemon finds around it.\<close>

record ('d, 'b) platform =
  pt_badger :: "('d, 'b) badger"
  pt_jobs :: "(job_state, 'b) codec"
  pt_baselines :: "(baseline, 'b) codec"
  pt_results :: "(scan_result, 'b) codec"
  pt_status :: "(sig_status, 'b) codec"
  pt_open :: "string \<Rightarrow> nat list option \<Rightarrow> (string, 'd) result" \<comment> \<open>\<open>badger.Open\<close> at a path, with a key\<close>
  pt_cron :: cron_parser
  pt_hash :: "string \<Rightarrow> string"
  pt_dial :: "string \<Rightarrow> string \<Rightarrow> string \<Rightarrow> bool"
  pt_init :: "(string \<times> dyn gomap) list \<Rightarrow> string \<times> dyn gomap \<Rightarrow> string option"
  pt_days_before :: "int \<Rightarrow> int \<Rightarrow> int" \<comment> \<open>\<open>AddDate(0, 0, -n)\<close> in the local zone\<close>
  pt_parse_url :: "string \<Rightarrow> bool"
  pt_files :: "string \<Rightarrow> file_read"
  pt_executable :: "(string, string) result"
  pt_sha256 :: "string \<Rightarrow> nat list"

definition pt_store :: "('d, 'b) platform \<Rightarrow> ('d, 'b) store_ops" where
  "pt_store P = badger_store (pt_badger P)"

datatype log_line =
    WithoutPrivilegeDrop
  | DaemonStarted
  | IntegrityPassed
  | ChannelsFailed channels_error
  | PluginMissing string
  | PluginInitFailed string string
  | ScheduleFailed string sched_error
  | ReloadRequested
  | ReloadSkipped
  | ReloadFailed load_error
  | NeedsRestart string string string
  | SchedulerReloadFailed sched_error
  | ReloadComplete
  | ShutdownSignal
  | UnexpectedSignal
  | ShutdownStarting int
  | ShutdownComplete

text \<open>A server listens once \<open>Start\<close> found it enabled; its configuration is read at each request.\<close>

record server =
  sv_cfg :: endpoint_config
  sv_listening :: bool

record ('w, 'd) daemon =
  dm_path :: string
  dm_config :: config
  dm_creds :: credentials
  dm_mgr :: "'w manager"
  dm_inits :: "(string \<times> dyn gomap) list" \<comment> \<open>calls of \<open>Init\<close>\<close>
  dm_pipeline :: "'d pipeline"
  dm_retired :: "engine list" \<comment> \<open>engines of earlier configurations, whose workers go on\<close>
  dm_sent :: "alert list" \<comment> \<open>alerts a worker took from its queue\<close>
  dm_sched :: "'d sched"
  dm_updater :: updater
  dm_calls :: calls
  dm_api :: server
  dm_web :: server
  dm_api_url :: bool \<comment> \<open>the web server knows the API's address\<close>
  dm_handling :: bool \<comment> \<open>\<open>handleSignals\<close> still runs\<close>
  dm_log :: "log_line list"

section \<open>Start\<close>

fun init_plugins ::
  "('d, 'b) platform \<Rightarrow> 'w manager \<Rightarrow> bool \<Rightarrow> scanner_config list
     \<Rightarrow> (string \<times> dyn gomap) list \<times> log_line list \<Rightarrow> (string \<times> dyn gomap) list \<times> log_line list" where
  "init_plugins P m report [] il = il"
| "init_plugins P m report (sc # scs) il =
     init_plugins P m report scs
       (case manager_get m (sn_plugin sc) of
          Inl e \<Rightarrow> (fst il, if report then snd il @ [PluginMissing (sn_plugin sc)] else snd il)
        | Inr p \<Rightarrow>
            let call = (sn_plugin sc, sn_config sc) in
            (fst il @ [call],
             case pt_init P (fst il) call of
               None \<Rightarrow> snd il | Some e \<Rightarrow> snd il @ [PluginInitFailed (sn_plugin sc) e]))"

definition channels_log :: "('d, 'b) platform \<Rightarrow> alerting_config \<Rightarrow> log_line list" where
  "channels_log P cfg = (case BuildChannels (pt_dial P) cfg of Inl e \<Rightarrow> [ChannelsFailed e] | Inr chs \<Rightarrow> [])"

definition apply_retention :: "('d, 'b) platform \<Rightarrow> int \<Rightarrow> int \<Rightarrow> 'd \<Rightarrow> 'd" where
  "apply_retention P now days d =
     (if days > 0
      then let cutoff = pt_days_before P now days in
        snd (prune_baselines (pt_badger P) (pt_baselines P) cutoff
              (snd (PruneOlderThan (pt_badger P) (pt_results P) cutoff d)))
      else d)"

text \<open>At the start a job that is refused is logged, and the others are scheduled.\<close>

fun schedule_all ::
  "('d, 'b) platform \<Rightarrow> job_config list \<Rightarrow> 'd sched \<times> log_line list \<Rightarrow> 'd sched \<times> log_line list" where
  "schedule_all P [] sl = sl"
| "schedule_all P (cfg # cfgs) sl =
     schedule_all P cfgs
       (case AddJob (pt_cron P) (Some (pt_store P)) (pt_jobs P) cfg (fst sl) of
          Inl e \<Rightarrow> (fst sl, snd sl @ [ScheduleFailed (jc_name cfg) e])
        | Inr s' \<Rightarrow> (s', snd sl))"

definition server_new :: "endpoint_config \<Rightarrow> server" where
  "server_new c = \<lparr>sv_cfg = c, sv_listening = ec_enabled c\<rparr>"

definition server_update :: "endpoint_config \<Rightarrow> server \<Rightarrow> server" where
  "server_update c sv = sv\<lparr>sv_cfg := c\<rparr>"

text \<open>\<open>webui.New\<close>: the address of the proxy is that of the API's configuration at the start.\<close>

definition knows_api :: "('d, 'b) platform \<Rightarrow> config \<Rightarrow> bool" where
  "knows_api P c \<longleftrightarrow>
     ec_bind_addr (c_api c) \<noteq> [] \<and> pt_parse_url P (''http://'' @ ec_bind_addr (c_api c))"

text \<open>From the open store to the started goroutines.\<close>

definition daemon_start ::
  "('d, 'b) platform \<Rightarrow> 'w plugin list \<Rightarrow> nat range_order \<Rightarrow> int \<Rightarrow> credentials \<Rightarrow> config \<Rightarrow> string
     \<Rightarrow> log_line list \<Rightarrow> 'd \<Rightarrow> ('w, 'd) daemon" where
  "daemon_start P ps order now creds cfg path log0 d0 =
     (let mgr = register_plugins ps;
          (inits, log1) = init_plugins P mgr True (c_scanners cfg) ([], log0 @ channels_log P (c_alerting cfg));
          d = apply_retention P now (sg_retention_days (c_storage cfg)) d0;
          (s, log2) = schedule_all P (enabled_jobs (c_scanners cfg)) (sched_init now d, log1)
      in \<lparr>dm_path = path, dm_config = cfg, dm_creds = creds, dm_mgr = mgr, dm_inits = inits,
          dm_pipeline = pipeline_new (pt_dial P) (buildRules (de_rules (c_detection cfg)))
            (correlator_of (c_detection cfg)) (c_alerting cfg) d (de_drift_consecutive (c_detection cfg)),
          dm_retired = [], dm_sent = [], dm_sched = Start order s,
          dm_updater = NewUpdater (updater_config_of (c_signatures cfg)), dm_calls = [],
          dm_api = server_new (c_api cfg), dm_web = server_new (c_webui cfg), dm_api_url = knows_api P cfg,
          dm_handling = True, dm_log = log2\<rparr>)"

datatype run_error = PrivilegesError drop_error | IntegrityError integrity_error | StoreError open_error

definition drop_for :: "('d, 'b) platform \<Rightarrow> daemon_config \<Rightarrow> credentials \<Rightarrow> (run_error, credentials) result" where
  "drop_for P dc c =
     (case RequirePrivilegeDrop (dc_user dc) (dc_group dc) c of
        Some e \<Rightarrow> Inl (PrivilegesError e)
      | None \<Rightarrow>
          (case DropPrivileges (pt_files P) (dc_user dc) (dc_group dc) c of
             (Some e, c') \<Rightarrow> Inl (PrivilegesError e)
           | (None, c') \<Rightarrow> Inr c'))"

definition check_integrity :: "('d, 'b) platform \<Rightarrow> security_config \<Rightarrow> (run_error, log_line list) result" where
  "check_integrity P se =
     (if se_self_integrity se
      then (case VerifySelfIntegrity (pt_executable P) (pt_files P) (pt_sha256 P) (se_expected_sha256 se) of
              Some e \<Rightarrow> Inl (IntegrityError e)
            | None \<Rightarrow> Inr [IntegrityPassed])
      else Inr [])"

definition Run_start ::
  "('d, 'b) platform \<Rightarrow> 'w plugin list \<Rightarrow> nat range_order \<Rightarrow> int \<Rightarrow> credentials \<Rightarrow> config \<Rightarrow> string
     \<Rightarrow> (run_error, ('w, 'd) daemon) result" where
  "Run_start P ps order now creds cfg path =
     bind_res (if dc_drop_privileges (c_daemon cfg)
               then bind_res (drop_for P (c_daemon cfg) creds) (\<lambda>c. Inr ([], c))
               else Inr ([WithoutPrivilegeDrop], creds)) (\<lambda>(log1, c).
     bind_res (check_integrity P (c_security cfg)) (\<lambda>log2.
     bind_res (case NewBadgerStoreWithKey (pt_open P) (sg_db_path (c_storage cfg)) (sg_encryption_key (c_storage cfg)) of
                 Inl e \<Rightarrow> Inl (StoreError e) | Inr d \<Rightarrow> Inr d) (\<lambda>d.
     Inr (daemon_start P ps order now c cfg path (log1 @ [DaemonStarted] @ log2) d))))"

section \<open>Reload\<close>

definition restart_warnings :: "config \<Rightarrow> config \<Rightarrow> log_line list" where
  "restart_warnings old new =
     (let warn = (\<lambda>key a b. if b \<noteq> a then [NeedsRestart key a b] else []) in
      warn ''api.bind_addr'' (ec_bind_addr (c_api old)) (ec_bind_addr (c_api new))
      @ warn ''web_ui.bind_addr'' (ec_bind_addr (c_webui old)) (ec_bind_addr (c_webui new))
      @ warn ''storage.db_path'' (sg_db_path (c_storage old)) (sg_db_path (c_storage new)))"

definition reload_pipeline :: "('d, 'b) platform \<Rightarrow> config \<Rightarrow> 'd pipeline \<Rightarrow> 'd pipeline" where
  "reload_pipeline P new p =
     p\<lparr>pp_rules := buildRules (de_rules (c_detection new)), pp_correlator := correlator_of (c_detection new),
       pp_engine := alert_engine (pt_dial P) (c_alerting new),
       pp_consecutive := de_drift_consecutive (c_detection new)\<rparr>"

text \<open>Everything of a reload but the scheduler's part.\<close>

definition reload_config :: "('d, 'b) platform \<Rightarrow> config \<Rightarrow> ('w, 'd) daemon \<Rightarrow> ('w, 'd) daemon" where
  "reload_config P new s =
     (let log1 = dm_log s @ restart_warnings (dm_config s) new @ channels_log P (c_alerting new);
          (inits, log2) = init_plugins P (dm_mgr s) False (c_scanners new) (dm_inits s, log1)
      in s\<lparr>dm_config := new, dm_pipeline := reload_pipeline P new (dm_pipeline s),
           dm_retired := dm_retired s @ [pp_engine (dm_pipeline s)],
           dm_updater := UpdateConfig (updater_config_of (c_signatures new)) (dm_updater s),
           dm_api := server_update (c_api new) (dm_api s), dm_web := server_update (c_webui new) (dm_web s),
           dm_inits := inits, dm_log := log2\<rparr>)"

text \<open>\<open>load\<close> is \<open>config.Load\<close> at the time of the signal; \<open>None\<close> is a panic.\<close>

definition reload ::
  "('d, 'b) platform \<Rightarrow> (string \<Rightarrow> (load_error, config) result) \<Rightarrow> nat range_order \<Rightarrow> ('w, 'd) daemon
     \<Rightarrow> ('w, 'd) daemon option" where
  "reload P load order s =
     (if dm_path s = [] then Some (s\<lparr>dm_log := dm_log s @ [ReloadSkipped]\<rparr>)
      else case load (dm_path s) of
        Inl e \<Rightarrow> Some (s\<lparr>dm_log := dm_log s @ [ReloadFailed e]\<rparr>)
      | Inr new \<Rightarrow>
          (let s1 = reload_config P new s in
           case ReplaceJobs (pt_cron P) (Some (pt_store P)) (pt_jobs P) order (enabled_jobs (c_scanners new))
                  (dm_sched s1) of
             None \<Rightarrow> None
           | Some (err, sched) \<Rightarrow>
               Some (s1\<lparr>dm_sched := sched,
                        dm_log := dm_log s1 @ (case err of None \<Rightarrow> [] | Some e \<Rightarrow> [SchedulerReloadFailed e])
                          @ [ReloadComplete]\<rparr>)))"

datatype signal = SIGHUP | SIGINT | SIGTERM | OtherSignal

fun handle_signal ::
  "('d, 'b) platform \<Rightarrow> (string \<Rightarrow> (load_error, config) result) \<Rightarrow> nat range_order \<Rightarrow> signal
     \<Rightarrow> ('w, 'd) daemon \<Rightarrow> ('w, 'd) daemon option" where
  "handle_signal P load order SIGHUP s = reload P load order (s\<lparr>dm_log := dm_log s @ [ReloadRequested]\<rparr>)"
| "handle_signal P load order OtherSignal s = Some (s\<lparr>dm_log := dm_log s @ [UnexpectedSignal]\<rparr>)"
| "handle_signal P load order _ s =
     Some (s\<lparr>dm_log := dm_log s @ [ShutdownSignal], dm_handling := False,
             dm_sched := (dm_sched s)\<lparr>sc_cancelled := True\<rparr>\<rparr>)"

text \<open>After the context is cancelled: both servers stop, and \<open>shutdown\<close> logs its timeout.\<close>

definition run_shutdown :: "('w, 'd) daemon \<Rightarrow> ('w, 'd) daemon" where
  "run_shutdown s =
     (let timeout = ShutdownTimeoutDuration (c_daemon (dm_config s)) in
      s\<lparr>dm_api := (dm_api s)\<lparr>sv_listening := False\<rparr>, dm_web := (dm_web s)\<lparr>sv_listening := False\<rparr>,
        dm_log := dm_log s @ [ShutdownStarting (if timeout \<le> 0 then 10 * second else timeout), ShutdownComplete]\<rparr>)"

end
