(* ===== verification/DaemonRun.thy ===== *)
theory DaemonRun
  imports Runner
begin

text \<open>
  The running daemon (\<open>internal/daemon/runner.go\<close>) as a transition system over the state of \<open>Runner\<close>:
  the goroutines of the jobs with the callback, requests to the API, the alert workers, the signature
  updater, and signals. The invariant of its reachable states: one loaded configuration is in force
  everywhere, the scheduler is in a state of its own transition system, the history is a function of the
  finished scans, and no alert queue overflows. Then what a reload keeps, replaces and breaks.
\<close>

section \<open>Steps\<close>

text \<open>What the HTTP handlers see of the daemon. Iteration orders of maps are arguments.\<close>

record 'w orders =
  or_plugins :: "'w plugin range_order"
  or_jobs :: "nat range_order"
  or_latest :: "scan_result range_order"

definition api_of ::
  "('d, 'b) platform \<Rightarrow> os \<Rightarrow> net \<Rightarrow> 'w orders \<Rightarrow> ('w, 'd) daemon \<Rightarrow> ('w, 'd) api" where
  "api_of P S net R s =
     (let d = sc_db (dm_sched s) in
      \<lparr>ap_token = ec_auth_token (sv_cfg (dm_api s)), ap_euid0 = (cr_euid (dm_creds s) = 0), ap_mgr = dm_mgr s,
       ap_plugin_order = or_plugins R, ap_sched = dm_sched s, ap_job_order = or_jobs R,
       ap_cache = pp_cache (dm_pipeline s), ap_latest_order = or_latest R,
       ap_baselines = Some (list_baselines (pt_badger P) (pt_baselines P) d),
       ap_results = Some (results_list (pt_badger P) (pt_results P) d),
       ap_signatures = Some (LoadStatus (pt_store P) (pt_status P) d),
       ap_update = Some (fst (Trigger S net (Some (pt_store P, pt_status P)) (dm_updater s) (dm_calls s) d))\<rparr>)"

text \<open>The web server before a site of files \<open>W0\<close>; its backend is the API's listener.\<close>

definition web_of ::
  "formats \<Rightarrow> 'w env \<Rightarrow> ('w, 'd) api \<Rightarrow> 'w webui \<Rightarrow> ('w, 'd) daemon \<Rightarrow> 'w webui" where
  "web_of F E A W0 s =
     W0\<lparr>wu_token := ec_auth_token (sv_cfg (dm_web s)), wu_has_api := dm_api_url s,
        wu_backend := (if sv_listening (dm_api s) then Some (api_serve F E A) else None)\<rparr>"

text \<open>The callback on a result.\<close>

definition handle_result ::
  "('d, 'b) platform \<Rightarrow> string \<Rightarrow> dyn range_order \<Rightarrow> scan_result \<Rightarrow> ('w, 'd) daemon \<Rightarrow> ('w, 'd) daemon" where
  "handle_result P suffix order res s =
     (let p = on_result (pt_badger P) (pt_baselines P) (pt_results P) (pt_hash P) suffix (sc_now (dm_sched s)) order res
                ((dm_pipeline s)\<lparr>pp_db := sc_db (dm_sched s)\<rparr>)
      in s\<lparr>dm_pipeline := p, dm_sched := (dm_sched s)\<lparr>sc_db := pp_db p\<rparr>\<rparr>)"

definition handle_results ::
  "('d, 'b) platform \<Rightarrow> string \<Rightarrow> dyn range_order \<Rightarrow> scan_result list \<Rightarrow> ('w, 'd) daemon \<Rightarrow> ('w, 'd) daemon" where
  "handle_results P suffix order rs s = foldl (\<lambda>s res. handle_result P suffix order res s) s rs"

text \<open>A result of the API's trigger reaches the callback like those of the jobs.\<close>

definition with_result :: "scan_result option \<Rightarrow> ('w, 'd) daemon \<Rightarrow> ('w, 'd) daemon" where
  "with_result out s =
     s\<lparr>dm_sched := (dm_sched s)\<lparr>sc_out := sc_out (dm_sched s) @ (case out of None \<Rightarrow> [] | Some r \<Rightarrow> [r])\<rparr>\<rparr>"

definition after_update :: "updater \<times> calls \<times> 'd \<Rightarrow> ('w, 'd) daemon \<Rightarrow> ('w, 'd) daemon" where
  "after_update r s =
     (case r of (u, cs, d) \<Rightarrow> s\<lparr>dm_updater := u, dm_calls := cs, dm_sched := (dm_sched s)\<lparr>sc_db := d\<rparr>\<rparr>)"

text \<open>Everything but signals. The world \<open>'w\<close> of the plugins is any.\<close>

type_synonym read_file = "string \<Rightarrow> (string, string) result"

inductive background ::
  "('d, 'b) platform \<Rightarrow> ('w, 'd) daemon \<Rightarrow> ('w, 'd) daemon \<Rightarrow> bool"
  for P where
  BgTick: "sc_now (dm_sched s) \<le> now
     \<Longrightarrow> background P s (s\<lparr>dm_sched := (dm_sched s)\<lparr>sc_now := now\<rparr>\<rparr>)"
| BgJob: "go_step (Some (pt_store P)) (pt_jobs P) (dm_sched s) g out t \<Longrightarrow> (\<And>m. mset (order m) = mset m)
     \<Longrightarrow> background P s (handle_results P suffix order out (s\<lparr>dm_sched := t\<rparr>))"
| BgRequest: "sv_listening (dm_api s) \<Longrightarrow> api_serve F E (api_of P S net R s) r w = (resp, out, w')
     \<Longrightarrow> (\<And>m. mset (order m) = mset m)
     \<Longrightarrow> background P s (handle_results P suffix order (case out of None \<Rightarrow> [] | Some res \<Rightarrow> [res]) (with_result out s))"
| BgTrigger: "sv_listening (dm_api s)
     \<Longrightarrow> Trigger S net (Some (pt_store P, pt_status P)) (dm_updater s) (dm_calls s) (sc_db (dm_sched s)) = (st, r)
     \<Longrightarrow> background P s (after_update r s)"
| BgUpdate: "start_turn S net (Some (pt_store P, pt_status P)) (dm_updater s) (dm_calls s) (sc_db (dm_sched s)) = (st, delay, r)
     \<Longrightarrow> background P s (after_update r s)"
| BgDeliver: "engine_take (pp_engine (dm_pipeline s)) = Some (a, e)
     \<Longrightarrow> background P s (s\<lparr>dm_pipeline := (dm_pipeline s)\<lparr>pp_engine := e\<rparr>, dm_sent := dm_sent s @ [a]\<rparr>)"
| BgDrain: "k < length (dm_retired s) \<Longrightarrow> engine_take (dm_retired s ! k) = Some (a, e)
     \<Longrightarrow> background P s (s\<lparr>dm_retired := (dm_retired s)[k := e], dm_sent := dm_sent s @ [a]\<rparr>)"

inductive daemon_step ::
  "('d, 'b) platform \<Rightarrow> ('w, 'd) daemon \<Rightarrow> ('w, 'd) daemon \<Rightarrow> bool"
  for P where
  StepBackground: "background P s t \<Longrightarrow> daemon_step P s t"
| StepSignal: "dm_handling s \<Longrightarrow> (\<And>m. mset (order m) = mset m)
     \<Longrightarrow> handle_signal P (Load (read :: read_file) unmarshal env vorder (cr_euid (dm_creds s) = 0)) order sg s = Some t
     \<Longrightarrow> daemon_step P s t"
| StepShutdown: "sc_cancelled (dm_sched s) \<Longrightarrow> daemon_step P s (run_shutdown s)"

inductive daemon_reachable :: "('d, 'b) platform \<Rightarrow> ('w, 'd) daemon \<Rightarrow> bool"
  for P where
  DaemonStart: "Load (read :: read_file) unmarshal env vorder euid0 path = Inr cfg \<Longrightarrow> (\<And>m. mset (order m) = mset m)
     \<Longrightarrow> Run_start P ps order now creds cfg path = Inr s \<Longrightarrow> daemon_reachable P s"
| DaemonStep: "daemon_reachable P s \<Longrightarrow> daemon_step P s t \<Longrightarrow> daemon_reachable P t"

section \<open>The configuration in force\<close>

definition engine_settings :: "engine \<Rightarrow> channel list \<times> int \<times> int \<times> int \<times> bool" where
  "engine_settings e = (en_channels e, en_throttle e, en_retry_max e, en_backoff e, en_enabled e)"

definition correlator_settings :: "correlator \<Rightarrow> int \<times> int \<times> int" where
  "correlator_settings c = (co_window c, co_min c, co_cooldown c)"

text \<open>A pipeline works under a configuration; of the jobs, every current one is one of its.\<close>

definition pipeline_under :: "('d, 'b) platform \<Rightarrow> config \<Rightarrow> 'd pipeline \<Rightarrow> bool" where
  "pipeline_under P c p \<longleftrightarrow>
     pp_rules p = buildRules (de_rules (c_detection c))
     \<and> correlator_settings (pp_correlator p) = correlator_settings (correlator_of (c_detection c))
     \<and> engine_settings (pp_engine p) = engine_settings (alert_engine (pt_dial P) (c_alerting c))
     \<and> pp_consecutive p = de_drift_consecutive (c_detection c)"

definition jobs_under :: "config \<Rightarrow> 'd sched \<Rightarrow> bool" where
  "jobs_under c s \<longleftrightarrow>
     (\<forall>i \<in> current s. jb_cfg (sc_heap s ! i) \<in> normalize_config ` set (enabled_jobs (c_scanners c)))"

definition updater_under :: "config \<Rightarrow> updater \<Rightarrow> bool" where
  "updater_under c u \<longleftrightarrow>
     up_config u = updater_config_of (c_signatures c) \<and> up_sources u = builtInSources (uc_source_urls (up_config u))"

definition in_force :: "('d, 'b) platform \<Rightarrow> config \<Rightarrow> ('w, 'd) daemon \<Rightarrow> bool" where
  "in_force P c s \<longleftrightarrow>
     dm_config s = c \<and> pipeline_under P c (dm_pipeline s) \<and> jobs_under c (dm_sched s)
     \<and> updater_under c (dm_updater s) \<and> sv_cfg (dm_api s) = c_api c \<and> sv_cfg (dm_web s) = c_webui c"

definition valid_config :: "config \<Rightarrow> bool" where
  "valid_config c \<longleftrightarrow> (\<exists>vorder euid0. Validate vorder euid0 c = [])"

text \<open>Every finished scan is in the history, completed under the rules of its time.\<close>

definition history_of :: "scan_result list \<Rightarrow> result_cache \<Rightarrow> bool" where
  "history_of outs c \<longleftrightarrow>
     (\<exists>fulls. list_all2 (\<lambda>res full. \<exists>rules. completes rules res full) outs fulls \<and> c = cache_of 50 fulls)"

definition daemon_inv :: "('d, 'b) platform \<Rightarrow> ('w, 'd) daemon \<Rightarrow> bool" where
  "daemon_inv P s \<longleftrightarrow>
     sched_reachable (pt_cron P) (Some (pt_store P)) (pt_jobs P) (dm_sched s) \<and> owned (dm_sched s)
     \<and> (\<exists>c. valid_config c \<and> in_force P c s)
     \<and> list_all engine_inv (pp_engine (dm_pipeline s) # dm_retired s)
     \<and> history_of (sc_out (dm_sched s)) (pp_cache (dm_pipeline s))"

section \<open>Settings are kept\<close>

named_theorems settings \<open>operations that leave the settings alone\<close>

lemma engine_settings_take [settings]: "engine_take e = Some (a, e') \<Longrightarrow> engine_settings e' = engine_settings e"
  by (auto simp: engine_take_def engine_settings_def split: list.splits)

lemma isThrottled_settings [settings]: "engine_settings (snd (isThrottled now i e)) = engine_settings e"
  by (auto simp: isThrottled_def engine_settings_def split: option.splits)

lemma engine_settings_send [settings]: "engine_settings (snd (engine_send hash now a e)) = engine_settings e"
proof -
  obtain b e1 where t: "isThrottled now (a_id (stamp_alert hash now a)) e = (b, e1)" by (metis prod.collapse)
  then have "engine_settings e1 = engine_settings e" by (metis isThrottled_settings snd_conv)
  with t show ?thesis by (simp add: engine_send_def engine_settings_def Let_def)
qed

lemma send_alerts_settings [settings]: "engine_settings (send_alerts hash now res fs e) = engine_settings e"
  by (induction fs arbitrary: e) (simp_all add: send_alerts_def settings)

lemma correlator_settings_add [settings]:
  "correlator_settings (snd (correlator_add now res c)) = correlator_settings c"
  by (simp add: correlator_add_def correlator_prune_def correlator_settings_def Let_def)

lemma on_result_settings [settings]:
  fixes D CB CR hash suffix now order res and p :: "'d pipeline"
  defines "q \<equiv> on_result D CB CR hash suffix now order res p"
  shows "correlator_settings (pp_correlator q) = correlator_settings (pp_correlator p)"
    and "engine_settings (pp_engine q) = engine_settings (pp_engine p)" "pp_consecutive q = pp_consecutive p"
    and "pp_rules q = pp_rules p"
  by (simp_all add: q_def on_result_def settings case_prod_unfold Let_def)

lemma pipeline_under_on_result [inv_intros]:
  "pipeline_under P c p \<Longrightarrow> pipeline_under P c (on_result D CB CR hash suffix now order res (p\<lparr>pp_db := d\<rparr>))"
  by (simp add: pipeline_under_def settings)

lemma updater_run_settings [settings]:
  "up_config (fst (snd (runOnce S net store u cs d))) = up_config u
   \<and> up_sources (fst (snd (runOnce S net store u cs d))) = up_sources u"
  by (simp add: runOnce_def Let_def split: prod.split)

lemma updater_trigger_settings [settings]:
  assumes "Trigger S net store u cs d = (st, u', cs', d')"
  shows "up_config u' = up_config u \<and> up_sources u' = up_sources u"
  using assms updater_run_settings [of S net store u cs d]
  by (auto simp: Trigger_def split: if_splits prod.splits)

lemma updater_turn_settings [settings]:
  assumes "start_turn S net store u cs d = (st, delay, u', cs', d')"
  shows "up_config u' = up_config u \<and> up_sources u' = up_sources u"
  using assms updater_run_settings [of S net store u cs d]
  by (auto simp: start_turn_def Let_def split: if_splits prod.splits)

section \<open>The callback on the daemon\<close>

lemma history_of_snoc:
  assumes "history_of outs (pp_cache p)" "\<And>m. mset (order m) = mset m"
  shows "history_of (outs @ [res]) (pp_cache (on_result D CB CR hash suffix now order res (p\<lparr>pp_db := d\<rparr>)))"
proof -
  from assms(1) obtain fulls where f: "list_all2 (\<lambda>res full. \<exists>rules. completes rules res full) outs fulls"
    "pp_cache p = cache_of 50 fulls" unfolding history_of_def by blast
  obtain full where g: "completes (pp_rules p) res full"
    "pp_cache (on_result D CB CR hash suffix now order res (p\<lparr>pp_db := d\<rparr>)) = cache_add full (pp_cache p)"
    using on_result_completes [where order = order and p = "p\<lparr>pp_db := d\<rparr>" and res = res and D = D and CB = CB and CR = CR
        and hash = hash and suffix = suffix and now = now, OF assms(2)] by auto
  show ?thesis
    unfolding history_of_def using f g
    by (intro exI [of _ "fulls @ [full]"]) (auto intro!: list_all2_appendI)
qed

lemma engine_inv_on_result:
  assumes "engine_inv (pp_engine p)" "\<And>m. mset (order m) = mset m"
  shows "engine_inv (pp_engine (on_result D CB CR hash suffix now order res (p\<lparr>pp_db := d\<rparr>)))"
  using on_result_completes [where order = order and p = "p\<lparr>pp_db := d\<rparr>" and res = res and D = D and CB = CB and CR = CR
      and hash = hash and suffix = suffix and now = now, OF assms(2)] assms(1) by auto

lemma handle_result_frame:
  fixes P suffix order res s
  defines "t \<equiv> handle_result P suffix order res s"
  shows "dm_sched t = (dm_sched s)\<lparr>sc_db := sc_db (dm_sched t)\<rparr>" "dm_config t = dm_config s"
    and "dm_updater t = dm_updater s" "dm_api t = dm_api s" "dm_web t = dm_web s" "dm_retired t = dm_retired s"
    and "dm_api_url t = dm_api_url s" "dm_creds t = dm_creds s"
  by (simp_all add: t_def handle_result_def Let_def)

lemma handle_results_simps [simp]:
  "handle_results P suffix order [] s = s"
  "handle_results P suffix order (res # rs) s = handle_results P suffix order rs (handle_result P suffix order res s)"
  by (simp_all add: handle_results_def)

lemma handle_results_frame:
  fixes P suffix order rs s
  defines "t \<equiv> handle_results P suffix order rs s"
  shows "\<exists>d. dm_sched t = (dm_sched s)\<lparr>sc_db := d\<rparr>" "dm_config t = dm_config s"
    and "dm_updater t = dm_updater s" "dm_api t = dm_api s" "dm_web t = dm_web s" "dm_retired t = dm_retired s"
    and "dm_api_url t = dm_api_url s" "dm_creds t = dm_creds s"
proof -
  have d: "\<exists>d. x = x\<lparr>sc_db := d\<rparr>" for x :: "'z sched" by (rule exI [of _ "sc_db x"]) simp
  have "(\<exists>d. dm_sched t = (dm_sched s)\<lparr>sc_db := d\<rparr>) \<and> dm_config t = dm_config s \<and> dm_updater t = dm_updater s
      \<and> dm_api t = dm_api s \<and> dm_web t = dm_web s \<and> dm_retired t = dm_retired s \<and> dm_api_url t = dm_api_url s
      \<and> dm_creds t = dm_creds s"
    unfolding t_def
  proof (induction rs arbitrary: s)
    case (Cons res rs)
    obtain d' where d': "dm_sched (handle_result P suffix order res s) = (dm_sched s)\<lparr>sc_db := d'\<rparr>"
      using handle_result_frame(1) by blast
    show ?case
      using Cons.IH [of "handle_result P suffix order res s"] by (auto simp: handle_result_frame(2-8) d')
  qed (simp add: d)
  then show "\<exists>d. dm_sched t = (dm_sched s)\<lparr>sc_db := d\<rparr>" "dm_config t = dm_config s"
    "dm_updater t = dm_updater s" "dm_api t = dm_api s" "dm_web t = dm_web s" "dm_retired t = dm_retired s"
    "dm_api_url t = dm_api_url s" "dm_creds t = dm_creds s" by blast+
qed

lemma handle_results_pipeline:
  assumes "\<And>m. mset (order m) = mset m" "pipeline_under P c (dm_pipeline s)" "engine_inv (pp_engine (dm_pipeline s))"
    and "history_of outs (pp_cache (dm_pipeline s))"
  shows "pipeline_under P c (dm_pipeline (handle_results P suffix order rs s))"
    and "engine_inv (pp_engine (dm_pipeline (handle_results P suffix order rs s)))"
    and "history_of (outs @ rs) (pp_cache (dm_pipeline (handle_results P suffix order rs s)))"
proof -
  have "pipeline_under P c (dm_pipeline (handle_results P suffix order rs s))
      \<and> engine_inv (pp_engine (dm_pipeline (handle_results P suffix order rs s)))
      \<and> history_of (outs @ rs) (pp_cache (dm_pipeline (handle_results P suffix order rs s)))"
    using assms(2-4)
  proof (induction rs arbitrary: outs s)
    case (Cons res rs)
    let ?t = "handle_result P suffix order res s"
    have t: "dm_pipeline ?t = on_result (pt_badger P) (pt_baselines P) (pt_results P) (pt_hash P) suffix
        (sc_now (dm_sched s)) order res ((dm_pipeline s)\<lparr>pp_db := sc_db (dm_sched s)\<rparr>)"
      by (simp add: handle_result_def Let_def)
    have "pipeline_under P c (dm_pipeline ?t)" unfolding t by (rule pipeline_under_on_result [OF Cons.prems(1)])
    moreover have "engine_inv (pp_engine (dm_pipeline ?t))"
      unfolding t by (rule engine_inv_on_result [where order = order, OF Cons.prems(2) assms(1)])
    moreover have "history_of (outs @ [res]) (pp_cache (dm_pipeline ?t))"
      unfolding t by (rule history_of_snoc [where order = order, OF Cons.prems(3) assms(1)])
    ultimately show ?case using Cons.IH [of ?t "outs @ [res]"] by simp
  qed simp
  then show "pipeline_under P c (dm_pipeline (handle_results P suffix order rs s))"
    "engine_inv (pp_engine (dm_pipeline (handle_results P suffix order rs s)))"
    "history_of (outs @ rs) (pp_cache (dm_pipeline (handle_results P suffix order rs s)))" by blast+
qed

section \<open>The scheduler inside the daemon\<close>

definition sched_ok :: "('d, 'b) platform \<Rightarrow> config \<Rightarrow> 'd sched \<Rightarrow> bool" where
  "sched_ok P c s \<longleftrightarrow>
     sched_reachable (pt_cron P) (Some (pt_store P)) (pt_jobs P) s \<and> owned s \<and> jobs_under c s"

lemma sched_ok_step:
  assumes "sched_ok P c s" "sched_step (pt_cron P) (Some (pt_store P)) (pt_jobs P) s t"
    and "owned t" "current t = current s" "\<And>i. jb_cfg (sc_heap t ! i) = jb_cfg (sc_heap s ! i)"
  shows "sched_ok P c t"
  using assms sched_reachable.ReachStep unfolding sched_ok_def jobs_under_def by metis

lemma owned_fields:
  "owned (s\<lparr>sc_db := d\<rparr>) = owned s" "owned (s\<lparr>sc_now := now\<rparr>) = owned s" "owned (s\<lparr>sc_out := rs\<rparr>) = owned s"
  "owned (s\<lparr>sc_cancelled := b\<rparr>) = owned s" "halted (s\<lparr>sc_db := d\<rparr>) = halted s" "halted (s\<lparr>sc_now := now\<rparr>) = halted s"
  "halted (s\<lparr>sc_out := rs\<rparr>) = halted s" "halted (s\<lparr>sc_cancelled := b\<rparr>) = halted s"
  by (rule owned_cong; simp)+

lemma current_fields [simp]:
  "current (s\<lparr>sc_db := d\<rparr>) = current s" "current (s\<lparr>sc_now := now\<rparr>) = current s"
  "current (s\<lparr>sc_out := rs\<rparr>) = current s" "current (s\<lparr>sc_cancelled := b\<rparr>) = current s"
  by (simp_all add: current_def)

lemma sched_ok_fields:
  assumes "sched_ok P c s"
  shows "sched_ok P c (s\<lparr>sc_db := d\<rparr>)" "sc_now s \<le> now \<Longrightarrow> sched_ok P c (s\<lparr>sc_now := now\<rparr>)"
    and "sched_ok P c (s\<lparr>sc_out := sc_out s @ [r]\<rparr>)" "sched_ok P c (s\<lparr>sc_cancelled := True\<rparr>)"
  using assms
  by (rule sched_ok_step; auto simp: owned_fields sched_ok_def intro: sched_step.intros)+

lemma sched_ok_go_step:
  assumes "sched_ok P c s" "go_step (Some (pt_store P)) (pt_jobs P) s g out t"
  shows "sched_ok P c t"
proof (rule sched_ok_step [OF assms(1) go_step_sched [OF assms(2)]])
  show "owned t" using assms go_step_owned(1) [OF assms(2)] by (simp add: sched_ok_def)
  show "current t = current s" using go_step_owned(3) [OF assms(2)] by (simp add: current_def)
  obtain i ph j' d' ph' where g: "g < length (sc_gos s)" "sc_gos s ! g = (i, ph)"
    and go: "go (Some (pt_store P)) (pt_jobs P) (sc_cancelled s) (sc_now s) (sc_heap s ! i, sc_db s, ph) (j', d', ph', out)"
    and t: "sc_heap t = (sc_heap s)[i := j']"
    using assms(2) unfolding go_step_def by auto
  show "jb_cfg (sc_heap t ! k) = jb_cfg (sc_heap s ! k)" for k
    using go_job(1) [OF go] by (cases "k = i \<and> i < length (sc_heap s)") (auto simp: t nth_list_update list_update_beyond)
qed

text \<open>The jobs that were added are the current ones, with normalised configurations.\<close>

lemma current_added_retired:
  "current (added js (retired s)) = {length (sc_heap s)..<length (sc_heap s) + length js}"
  by (simp add: added_def retired_def current_def flip: set_map)

lemma nth_added_retired:
  "i < length js \<Longrightarrow> sc_heap (added js (retired s)) ! (length (sc_heap s) + i) = js ! i"
  by (simp add: added_def retired_def nth_append)

lemma jobs_under_added:
  assumes "map jb_cfg js = map normalize_config (take (length js) (enabled_jobs (c_scanners c)))"
  shows "jobs_under c (added js (retired s))"
proof -
  have "jb_cfg (sc_heap (added js (retired s)) ! i) \<in> normalize_config ` set (enabled_jobs (c_scanners c))"
    if "i \<in> current (added js (retired s))" for i
  proof -
    from that obtain k where k: "k < length js" "i = length (sc_heap s) + k"
      unfolding current_added_retired using nat_le_iff_add by auto
    have "jb_cfg (js ! k) \<in> set (map jb_cfg js)" using k(1) by simp
    also have "\<dots> \<subseteq> normalize_config ` set (enabled_jobs (c_scanners c))"
      unfolding assms by (auto dest: in_set_takeD)
    finally show ?thesis by (simp add: k(2) nth_added_retired [OF k(1)])
  qed
  then show ?thesis by (simp add: jobs_under_def)
qed

lemma jobs_under_Start:
  assumes "owned s" "mset (order (sc_jobs s)) = mset (sc_jobs s)" "jobs_under c s"
  shows "jobs_under c (Start order s)"
  using assms ownedD(1) [OF assms(1)]
  unfolding jobs_under_def owned_Start(2) [where order = order and s = s, OF assms(1,2)]
  by (auto simp: Start_owned(1) [where order = order and s = s, OF assms(1,2)])

lemma sched_ok_ReplaceJobs:
  assumes "sched_ok P c0 s" "\<And>m. mset (order m) = mset m"
    and "ReplaceJobs (pt_cron P) (Some (pt_store P)) (pt_jobs P) order (enabled_jobs (c_scanners c)) s = Some (e, t)"
  shows "sched_ok P c t"
proof -
  have o: "owned s" using assms(1) by (simp add: sched_ok_def)
  obtain js where js: "map jb_cfg js = map normalize_config (take (length js) (enabled_jobs (c_scanners c)))"
    "owned (added js (retired s))" "t = added js (retired s) \<or> t = Start order (added js (retired s))"
    using ReplaceJobs_owned [where order = order and s = s and cron = "pt_cron P" and store = "Some (pt_store P)"
        and C = "pt_jobs P" and cfgs = "enabled_jobs (c_scanners c)", OF o assms(2)] assms(3)
    by (metis (no_types, lifting) option.inject prod.inject)
  have "jobs_under c t"
    using js(3) jobs_under_added [OF js(1)] jobs_under_Start [where order = order, OF js(2) assms(2)] by metis
  moreover have "owned t" using owned_ReplaceJobs(1) [where order = order and s = s, OF o assms(2,3)] .
  moreover have "sched_reachable (pt_cron P) (Some (pt_store P)) (pt_jobs P) t"
    using assms(1) sched_step.StepReplace [where order = order, OF assms(2,3)]
    unfolding sched_ok_def by (blast intro: sched_reachable.ReachStep)
  ultimately show ?thesis by (simp add: sched_ok_def)
qed

lemma sched_ok_init: "sched_ok P c (sched_init now d)"
  by (simp add: sched_ok_def jobs_under_def current_def sched_init_def owned_init [unfolded sched_init_def]
      sched_reachable.ReachInit [unfolded sched_init_def])

lemma sched_ok_AddJob:
  assumes "sched_ok P c s" "cfg \<in> set (enabled_jobs (c_scanners c))"
    and "AddJob (pt_cron P) (Some (pt_store P)) (pt_jobs P) cfg s = Inr t"
  shows "sched_ok P c t"
proof -
  obtain j where j: "t = added [j] s" "jb_cfg j = normalize_config cfg" "fresh_job j"
    "jc_name cfg \<notin> fst ` set (sc_jobs s)" using assms(3) by (rule AddJob_added)
  have o: "owned s" using assms(1) by (simp add: sched_ok_def)
  have "jc_name (jb_cfg j) \<notin> fst ` set (sc_jobs s)" using j(2,4) by (simp add: normalize_config_def)
  then have "owned t" unfolding j(1) by (rule owned_added [OF o j(3)])
  moreover have "jobs_under c t"
    using assms(1,2) ownedD(1) [OF o]
    by (auto simp: sched_ok_def jobs_under_def j(1,2) added_def current_def nth_append)
  ultimately show ?thesis
    using assms(1) sched_step.StepAdd [OF assms(3)] by (auto simp: sched_ok_def intro: sched_reachable.ReachStep)
qed

lemma sched_ok_schedule_all:
  assumes "sched_ok P c (fst sl)" "set cfgs \<subseteq> set (enabled_jobs (c_scanners c))"
  shows "sched_ok P c (fst (schedule_all P cfgs sl))"
  using assms
proof (induction P cfgs sl rule: schedule_all.induct)
  case (2 P cfg cfgs sl)
  then show ?case
    by (cases "AddJob (pt_cron P) (Some (pt_store P)) (pt_jobs P) cfg (fst sl)") (auto dest: sched_ok_AddJob)
qed simp

lemma sched_ok_Start:
  assumes "sched_ok P c s" "\<And>m. mset (order m) = mset m"
  shows "sched_ok P c (Start order s)"
  using assms(1) owned_Start(1) [where order = order and s = s, OF _ assms(2)]
    jobs_under_Start [where order = order and s = s, OF _ assms(2)]
    sched_step.StepStart [of order s] assms(2) sched_reachable.ReachStep
  unfolding sched_ok_def by metis

lemma schedule_all_out: "sc_out (fst (schedule_all P cfgs sl)) = sc_out (fst sl)"
proof (induction P cfgs sl rule: schedule_all.induct)
  case (2 P cfg cfgs sl)
  then show ?case
    by (cases "AddJob (pt_cron P) (Some (pt_store P)) (pt_jobs P) cfg (fst sl)") (auto elim!: AddJob_added simp: added_def)
qed simp

section \<open>The invariant\<close>

lemma daemon_inv_alt:
  "daemon_inv P s \<longleftrightarrow> (\<exists>c. valid_config c \<and> dm_config s = c \<and> pipeline_under P c (dm_pipeline s)
     \<and> sched_ok P c (dm_sched s) \<and> updater_under c (dm_updater s)
     \<and> sv_cfg (dm_api s) = c_api c \<and> sv_cfg (dm_web s) = c_webui c)
     \<and> engine_inv (pp_engine (dm_pipeline s)) \<and> list_all engine_inv (dm_retired s)
     \<and> history_of (sc_out (dm_sched s)) (pp_cache (dm_pipeline s))"
  by (auto simp: daemon_inv_def in_force_def sched_ok_def)

lemma daemon_inv_start:
  assumes "valid_config cfg" "\<And>m. mset (order m) = mset m"
  shows "daemon_inv P (daemon_start P ps order now creds cfg path log0 d0)"
proof -
  let ?d = "apply_retention P now (sg_retention_days (c_storage cfg)) d0"
  obtain inits log1 where i: "init_plugins P (register_plugins ps) True (c_scanners cfg)
      ([], log0 @ channels_log P (c_alerting cfg)) = (inits, log1)" by (metis prod.collapse)
  obtain s log2 where s: "schedule_all P (enabled_jobs (c_scanners cfg)) (sched_init now ?d, log1) = (s, log2)"
    by (metis prod.collapse)
  have "sched_ok P cfg s"
    using sched_ok_schedule_all [of P cfg "(sched_init now ?d, log1)" "enabled_jobs (c_scanners cfg)"] s sched_ok_init
    by (metis fst_conv order_refl)
  then have "sched_ok P cfg (Start order s)" by (rule sched_ok_Start [OF _ assms(2)])
  moreover have "sc_out (Start order s) = []"
    using schedule_all_out [of P "enabled_jobs (c_scanners cfg)" "(sched_init now ?d, log1)"] s
      Start_owned(1) [where order = order and s = s, OF _ assms(2)] \<open>sched_ok P cfg s\<close>
    by (simp add: sched_init_def sched_ok_def)
  moreover have "history_of [] (cache_of 50 [])" by (auto simp: history_of_def)
  ultimately show ?thesis
    using assms(1) i s
    by (simp add: daemon_inv_alt daemon_start_def pipeline_under_def pipeline_new_def updater_under_def
        NewUpdater_def server_new_def alert_engine_start Let_def)
qed

lemma daemon_inv_after_update:
  assumes "daemon_inv P s" "up_config u = up_config (dm_updater s)" "up_sources u = up_sources (dm_updater s)"
  shows "daemon_inv P (after_update (u, cs, d) s)"
  using assms by (auto simp: daemon_inv_alt after_update_def sched_ok_fields updater_under_def)

lemma daemon_inv_background:
  assumes "background P s t" "daemon_inv P s"
  shows "daemon_inv P t"
  using assms
proof (induction rule: background.induct)
  case (BgTick s now)
  then show ?case by (auto simp: daemon_inv_alt sched_ok_fields)
next
  case (BgJob s g out t order suffix)
  note inv = BgJob.prems [unfolded daemon_inv_alt]
  have "sc_out t = sc_out (dm_sched s) @ out" using go_step_owned(4) [OF BgJob.hyps(1)] .
  moreover have "sched_ok P (dm_config s) t" using inv sched_ok_go_step [OF _ BgJob.hyps(1)] by blast
  moreover note handle_results_frame [of P suffix order out "s\<lparr>dm_sched := t\<rparr>"]
    handle_results_pipeline [where order = order and P = P and c = "dm_config s" and s = "s\<lparr>dm_sched := t\<rparr>"
      and outs = "sc_out (dm_sched s)" and suffix = suffix and rs = out, OF BgJob.hyps(2)]
  ultimately show ?case using inv by (auto simp: daemon_inv_alt sched_ok_fields)
next
  case (BgRequest s F E S net R r w resp out w' order suffix)
  note inv = BgRequest.prems [unfolded daemon_inv_alt]
  let ?rs = "case out of None \<Rightarrow> [] | Some res \<Rightarrow> [res]"
  have "sched_ok P (dm_config s) (dm_sched (with_result out s))"
    using inv by (auto simp: with_result_def sched_ok_fields split: option.splits)
  moreover have "sc_out (dm_sched (with_result out s)) = sc_out (dm_sched s) @ ?rs" by (simp add: with_result_def)
  moreover note handle_results_frame [of P suffix order ?rs "with_result out s"]
    handle_results_pipeline [where order = order and P = P and c = "dm_config s" and s = "with_result out s"
      and outs = "sc_out (dm_sched s)" and suffix = suffix and rs = ?rs, OF BgRequest.hyps(3)]
  ultimately show ?case using inv by (auto simp: daemon_inv_alt sched_ok_fields with_result_def)
next
  case (BgTrigger s S net st r)
  then show ?case by (cases r) (auto intro!: daemon_inv_after_update dest: updater_trigger_settings)
next
  case (BgUpdate S net s st delay r)
  then show ?case by (cases r) (auto intro!: daemon_inv_after_update dest: updater_turn_settings)
next
  case (BgDeliver s a e)
  then show ?case
    using engine_inv_take engine_settings_take by (auto simp: daemon_inv_alt pipeline_under_def)
next
  case (BgDrain k s a e)
  then have "engine_inv e" using engine_inv_take by (auto simp: daemon_inv_alt list_all_length)
  with BgDrain show ?case by (auto simp: daemon_inv_alt list_all_length nth_list_update)
qed

lemma Load_valid: "Load read unmarshal env vorder euid0 path = Inr c \<Longrightarrow> valid_config c"
  by (auto simp: Load_def Let_def valid_config_def split: sum.splits if_splits)

lemma daemon_inv_log: "daemon_inv P (s\<lparr>dm_log := l\<rparr>) \<longleftrightarrow> daemon_inv P s"
  by (simp add: daemon_inv_alt)

text \<open>What \<open>reload\<close> does when the configuration loads: the state before the scheduler's part, and the whole.\<close>

lemma reload_config_fields:
  fixes P new s
  defines "t \<equiv> reload_config P new s"
  shows "dm_config t = new" "dm_pipeline t = reload_pipeline P new (dm_pipeline s)" "dm_sched t = dm_sched s"
    and "dm_retired t = dm_retired s @ [pp_engine (dm_pipeline s)]" "dm_sent t = dm_sent s"
    and "dm_updater t = UpdateConfig (updater_config_of (c_signatures new)) (dm_updater s)"
    and "dm_api t = server_update (c_api new) (dm_api s)" "dm_web t = server_update (c_webui new) (dm_web s)"
    and "dm_mgr t = dm_mgr s" "dm_creds t = dm_creds s" "dm_path t = dm_path s" "dm_handling t = dm_handling s"
    and "dm_api_url t = dm_api_url s" "dm_calls t = dm_calls s"
  by (simp_all add: t_def reload_config_def Let_def split: prod.split)

lemma reload_loaded:
  assumes "reload P load order s = Some t" "dm_path s \<noteq> []" "load (dm_path s) = Inr new"
  obtains e sched log where "ReplaceJobs (pt_cron P) (Some (pt_store P)) (pt_jobs P) order
        (enabled_jobs (c_scanners new)) (dm_sched s) = Some (e, sched)"
    and "t = (reload_config P new s)\<lparr>dm_sched := sched, dm_log := log @ [ReloadComplete]\<rparr>"
proof -
  let ?s1 = "reload_config P new s"
  from assms obtain e sched where r: "ReplaceJobs (pt_cron P) (Some (pt_store P)) (pt_jobs P) order
        (enabled_jobs (c_scanners new)) (dm_sched s) = Some (e, sched)"
    by (auto simp: reload_def reload_config_fields Let_def split: option.splits)
  then have "t = ?s1\<lparr>dm_sched := sched, dm_log := (dm_log ?s1
      @ (case e of None \<Rightarrow> [] | Some e \<Rightarrow> [SchedulerReloadFailed e])) @ [ReloadComplete]\<rparr>"
    using assms by (simp add: reload_def reload_config_fields Let_def)
  with r show thesis by (rule that)
qed

lemma daemon_inv_reload:
  assumes "daemon_inv P s" "\<And>m. mset (order m) = mset m" "reload P load order s = Some t"
    and "\<And>path c. load path = Inr c \<Longrightarrow> valid_config c"
  shows "daemon_inv P t"
proof (cases "dm_path s = [] \<or> (\<exists>e. load (dm_path s) = Inl e)")
  case True
  with assms(3) have "\<exists>l. t = s\<lparr>dm_log := l\<rparr>" by (auto simp: reload_def split: if_splits)
  with assms(1) show ?thesis by (auto simp: daemon_inv_log)
next
  case False
  then obtain new where new: "dm_path s \<noteq> []" "load (dm_path s) = Inr new" by (cases "load (dm_path s)") auto
  obtain e sched log where r: "ReplaceJobs (pt_cron P) (Some (pt_store P)) (pt_jobs P) order
        (enabled_jobs (c_scanners new)) (dm_sched s) = Some (e, sched)"
    and t: "t = (reload_config P new s)\<lparr>dm_sched := sched, dm_log := log @ [ReloadComplete]\<rparr>"
    using reload_loaded [OF assms(3) new] .
  note inv = assms(1) [unfolded daemon_inv_alt]
  have "sched_ok P new sched"
    using inv sched_ok_ReplaceJobs [where order = order and P = P and c = new, OF _ assms(2) r] by blast
  moreover have "sc_out sched = sc_out (dm_sched s)"
    using inv ReplaceJobs_frame(2) [where order = order, OF _ assms(2) r] by (auto simp: sched_ok_def)
  ultimately show ?thesis
    using inv assms(4) [OF new(2)]
    by (simp add: daemon_inv_alt t reload_config_fields reload_pipeline_def pipeline_under_def updater_under_def
        UpdateConfig_def server_update_def alert_engine_start)
qed

lemma daemon_inv_signal:
  assumes "daemon_inv P s" "\<And>m. mset (order m) = mset m" "handle_signal P load order sg s = Some t"
    and "\<And>path c. load path = Inr c \<Longrightarrow> valid_config c"
  shows "daemon_inv P t"
proof (cases sg)
  case SIGHUP
  show ?thesis
    by (rule daemon_inv_reload [where order = order and s = "s\<lparr>dm_log := dm_log s @ [ReloadRequested]\<rparr>",
          OF _ assms(2) _ assms(4)])
       (use assms(1,3) SIGHUP in \<open>simp_all add: daemon_inv_log\<close>)
qed (use assms(1,3) in \<open>auto simp: daemon_inv_alt sched_ok_fields\<close>)

lemma daemon_inv_shutdown: "daemon_inv P s \<Longrightarrow> daemon_inv P (run_shutdown s)"
  by (simp add: daemon_inv_alt run_shutdown_def Let_def)

lemma daemon_inv_step: "daemon_step P s t \<Longrightarrow> daemon_inv P s \<Longrightarrow> daemon_inv P t"
proof (induction rule: daemon_step.induct)
  case (StepSignal s order read unmarshal env vorder sg t)
  show ?case
    by (rule daemon_inv_signal [where order = order, OF StepSignal.prems StepSignal.hyps(2,3) Load_valid])
qed (auto intro: daemon_inv_background daemon_inv_shutdown)

lemma reachable_inv: "daemon_reachable P s \<Longrightarrow> daemon_inv P s"
proof (induction rule: daemon_reachable.induct)
  case (DaemonStart read unmarshal env vorder euid0 path cfg order ps now creds s)
  obtain c log d where "s = daemon_start P ps order now c cfg path log d"
    using DaemonStart(3) by (auto simp: Run_start_def bind_res_Inr_iff split: if_splits)
  then show ?case
    using daemon_inv_start [where order = order, OF Load_valid [OF DaemonStart(1)] DaemonStart(2)] by metis
qed (rule daemon_inv_step)

end
