(* ===== verification/Reload.thy ===== *)
theory Reload
  imports DaemonRun
begin

text \<open>
  What a signal does to the running daemon (\<open>internal/daemon/runner.go\<close>): the properties of the reload
  and of the start, over the transition system of \<open>DaemonRun\<close>.
\<close>

section \<open>Jobs that are refused\<close>

lemma AddJob_schedule: "AddJob cron store C cfg s = Inr t \<Longrightarrow> \<exists>spec. parseSchedule cron (jc_schedule cfg) = Inr spec"
  by (auto simp: AddJob_def split: sum.splits dest: new_job_simps(5))

lemma add_all_schedules:
  "add_all cron store C cfgs s = (None, t) \<Longrightarrow> cfg \<in> set cfgs
     \<Longrightarrow> \<exists>spec. parseSchedule cron (jc_schedule cfg) = Inr spec"
  by (induction cron store C cfgs s rule: add_all.induct) (auto split: sum.splits dest: AddJob_schedule)

lemma ReplaceJobs_schedules:
  "ReplaceJobs cron store C order cfgs s = Some (None, t) \<Longrightarrow> cfg \<in> set cfgs
     \<Longrightarrow> \<exists>spec. parseSchedule cron (jc_schedule cfg) = Inr spec"
  by (auto simp: ReplaceJobs_def split: option.splits prod.splits dest: add_all_schedules)

text \<open>The loop of the start, on the other hand, passes over them.\<close>

lemma AddJob_good:
  assumes "jc_name cfg \<noteq> []" "jc_plugin cfg \<noteq> []" "parseSchedule cron (jc_schedule cfg) = Inr spec"
  shows "case AddJob cron store C cfg s of Inl e \<Rightarrow> jc_name cfg \<in> fst ` set (sc_jobs s)
    | Inr t \<Rightarrow> jc_name cfg \<in> fst ` set (sc_jobs t)"
proof (cases "AddJob cron store C cfg s")
  case (Inl e)
  with assms show ?thesis by (auto simp: AddJob_def new_job_def normalize_config_def Let_def split: sum.splits if_splits)
next
  case (Inr t)
  from Inr show ?thesis by (rule AddJob_Inr) (simp add: Inr)
qed

lemma schedule_all_names:
  "fst ` set (sc_jobs (fst sl)) \<subseteq> fst ` set (sc_jobs (fst (schedule_all P cfgs sl)))"
proof (induction P cfgs sl rule: schedule_all.induct)
  case (2 P cfg cfgs sl)
  show ?case
  proof (cases "AddJob (pt_cron P) (Some (pt_store P)) (pt_jobs P) cfg (fst sl)")
    case (Inr t)
    from Inr have "fst ` set (sc_jobs (fst sl)) \<subseteq> fst ` set (sc_jobs t)" by (rule AddJob_Inr) auto
    with 2 Inr show ?thesis by auto
  qed (use 2 in auto)
qed simp

lemma schedule_all_gos: "sc_gos (fst (schedule_all P cfgs sl)) = sc_gos (fst sl)"
proof (induction P cfgs sl rule: schedule_all.induct)
  case (2 P cfg cfgs sl)
  then show ?case
    by (cases "AddJob (pt_cron P) (Some (pt_store P)) (pt_jobs P) cfg (fst sl)") (auto elim!: AddJob_added simp: added_def)
qed simp

lemma schedule_all_good:
  assumes "cfg \<in> set cfgs" "jc_name cfg \<noteq> []" "jc_plugin cfg \<noteq> []" "parseSchedule (pt_cron P) (jc_schedule cfg) = Inr spec"
  shows "jc_name cfg \<in> fst ` set (sc_jobs (fst (schedule_all P cfgs sl)))"
  using assms(1)
proof (induction cfgs arbitrary: sl)
  case (Cons c cfgs)
  let ?sl = "case AddJob (pt_cron P) (Some (pt_store P)) (pt_jobs P) c (fst sl) of
          Inl e \<Rightarrow> (fst sl, snd sl @ [ScheduleFailed (jc_name c) e]) | Inr s' \<Rightarrow> (s', snd sl)"
  show ?case
  proof (cases "cfg \<in> set cfgs")
    case True
    from Cons.IH [OF this, of ?sl] show ?thesis by simp
  next
    case False
    with Cons.prems have "jc_name cfg \<in> fst ` set (sc_jobs (fst ?sl))"
      using AddJob_good [where store = "Some (pt_store P)" and C = "pt_jobs P" and s = "fst sl", OF assms(2-4)] by (auto split: sum.splits)
    then show ?thesis using schedule_all_names [of ?sl P cfgs] by auto
  qed
qed simp

lemma daemon_start_sched:
  "\<exists>d log1. dm_sched (daemon_start P ps order now c cfg path log0 d0)
     = Start order (fst (schedule_all P (enabled_jobs (c_scanners cfg)) (sched_init now d, log1)))"
  unfolding daemon_start_def Let_def case_prod_unfold by (simp only: daemon.simps) blast

text \<open>A scheduler that halted stays so until the next signal.\<close>

lemma halted_background:
  assumes "background P s t" "halted (dm_sched s)"
  shows "halted (dm_sched t)"
  using assms
proof (induction rule: background.induct)
  case (BgJob s g out t order suffix)
  then show ?case
    using handle_results_frame(1) [of P suffix order out "s\<lparr>dm_sched := t\<rparr>"] go_step_owned(2) [OF BgJob(1)]
    by (auto simp: owned_fields)
next
  case (BgRequest s F E S net R r w resp out w' order suffix)
  then show ?case
    using handle_results_frame(1) [of P suffix order "case out of None \<Rightarrow> [] | Some res \<Rightarrow> [res]" "with_result out s"]
    by (auto simp: owned_fields with_result_def)
qed (auto simp: owned_fields after_update_def split: prod.splits)

lemma halted_backgrounds: "rtranclp (background P) s t \<Longrightarrow> halted (dm_sched s) \<Longrightarrow> halted (dm_sched t)"
  by (induction rule: rtranclp_induct) (auto intro: halted_background)

text \<open>The state a reload starts from and the one it ends in.\<close>

lemma sighup_loaded:
  assumes "handle_signal P load order SIGHUP s = Some t" "dm_path s \<noteq> []" "load (dm_path s) = Inr new"
  obtains e sched log where "ReplaceJobs (pt_cron P) (Some (pt_store P)) (pt_jobs P) order
        (enabled_jobs (c_scanners new)) (dm_sched s) = Some (e, sched)"
    and "t = (reload_config P new (s\<lparr>dm_log := dm_log s @ [ReloadRequested]\<rparr>))\<lparr>dm_sched := sched, dm_log := log @ [ReloadComplete]\<rparr>"
proof -
  let ?s = "s\<lparr>dm_log := dm_log s @ [ReloadRequested]\<rparr>"
  have "reload P load order ?s = Some t" "dm_path ?s \<noteq> []" "load (dm_path ?s) = Inr new" using assms by simp_all
  then obtain e sched log where "ReplaceJobs (pt_cron P) (Some (pt_store P)) (pt_jobs P) order
        (enabled_jobs (c_scanners new)) (dm_sched ?s) = Some (e, sched)"
    "t = (reload_config P new ?s)\<lparr>dm_sched := sched, dm_log := log @ [ReloadComplete]\<rparr>" by (rule reload_loaded)
  then show thesis by (intro that [of e sched log]) simp_all
qed

lemma handle_signal_total:
  assumes "daemon_reachable P s" "\<And>m. mset (order m) = mset m"
  shows "handle_signal P load order sg s \<noteq> None"
proof (cases sg)
  case SIGHUP
  have o: "owned (dm_sched s)" using reachable_inv [OF assms(1)] by (simp add: daemon_inv_def)
  have r: "\<exists>e t. ReplaceJobs (pt_cron P) (Some (pt_store P)) (pt_jobs P) order cfgs (dm_sched s) = Some (e, t)" for cfgs
    using ReplaceJobs_owned [where order = order and s = "dm_sched s" and cron = "pt_cron P" and cfgs = cfgs
        and store = "Some (pt_store P)" and C = "pt_jobs P", OF o assms(2)] by metis
  show ?thesis
  proof (cases "load (dm_path s)")
    case (Inr new)
    obtain e t where "ReplaceJobs (pt_cron P) (Some (pt_store P)) (pt_jobs P) order
        (enabled_jobs (c_scanners new)) (dm_sched s) = Some (e, t)" using r by blast
    with SIGHUP Inr show ?thesis by (simp add: reload_def reload_config_fields Let_def)
  qed (use SIGHUP in \<open>simp add: reload_def\<close>)
qed simp_all

section \<open>A sample daemon\<close>

definition sample_platform :: "(bool gomap, bool) platform" where
  "sample_platform =
     \<lparr>pt_badger = mem_badger, pt_jobs = no_codec, pt_baselines = no_codec, pt_results = no_codec, pt_status = no_codec,
      pt_open = (\<lambda>path key. Inr []), pt_cron = (\<lambda>e. None), pt_hash = id, pt_dial = (\<lambda>_ _ _. False),
      pt_init = (\<lambda>cs c. None), pt_days_before = (\<lambda>now n. now - n * 24 * hour), pt_parse_url = (\<lambda>u. True),
      pt_files = sample_files, pt_executable = Inl ''unknown'', pt_sha256 = (\<lambda>b. [])\<rparr>"

definition scanner_entry :: "string \<Rightarrow> string \<Rightarrow> scanner_config" where
  "scanner_entry name schedule =
     \<lparr>sn_name = name, sn_plugin = ''p'', sn_active = True, sn_schedule = schedule, sn_timeout = [], sn_max_retries = 0,
      sn_retry_backoff = [], sn_retry_max = [], sn_allow_overlap = True, sn_run_on_start = True, sn_config = []\<rparr>"

definition serving :: "endpoint_config \<Rightarrow> endpoint_config" where
  "serving e = e\<lparr>ec_enabled := True, ec_auth_token := ''secret''\<rparr>"

definition start_config :: config where
  "start_config = Default\<lparr>c_api := serving (c_api Default), c_webui := serving (c_webui Default),
     c_scanners := [scanner_entry ''a'' ''1s'']\<rparr>"

definition bad_config :: config where
  "bad_config = Default\<lparr>c_api := serving (c_api Default), c_webui := serving (c_webui Default),
     c_scanners := [scanner_entry ''a'' ''1s'', scanner_entry ''b'' ''weekly'']\<rparr>"

definition open_config :: config where
  "open_config = Default\<lparr>c_api := c_api Default, c_webui := c_webui Default, c_scanners := []\<rparr>"

definition load_as :: "config \<Rightarrow> string \<Rightarrow> (load_error, config) result" where
  "load_as cfg = Load (\<lambda>p. Inr ([] :: string)) (\<lambda>raw c. Inr cfg) Map.empty id True"

lemma load_as_valid: "Validate id True cfg = [] \<Longrightarrow> load_as cfg path = Inr cfg"
  by (simp add: load_as_def Load_def applyEnvOverrides_def env_bool_def env_token_def Let_def)

lemma validate_entry: "name \<noteq> [] \<Longrightarrow> schedule \<noteq> [] \<Longrightarrow> validate_scanner (i, scanner_entry name schedule) = []"
  by (simp add: validate_scanner_def scanner_entry_def bad_duration_def)

text \<open>All three configurations are valid.\<close>

lemma loads:
  "load_as start_config path = Inr start_config" "load_as bad_config path = Inr bad_config"
  "load_as open_config path = Inr open_config"
  by (rule load_as_valid, unfold start_config_def bad_config_def open_config_def Validate_Default_scanners,
      simp add: validate_entry validate_endpoint_def serving_def Default_def)+

definition sample_daemon :: "(int, bool gomap) daemon" where
  "sample_daemon = daemon_start sample_platform [sample_plugin] id 0 root_process start_config ''/etc/arcsent.json''
     [WithoutPrivilegeDrop, DaemonStarted] []"

lemma sample_run: "Run_start sample_platform [sample_plugin] id 0 root_process start_config ''/etc/arcsent.json'' = Inr sample_daemon"
  by (simp add: Run_start_def sample_daemon_def check_integrity_def start_config_def Default_def sample_platform_def
      NewBadgerStoreWithKey_def)

lemma sample_reachable: "daemon_reachable sample_platform sample_daemon"
  by (rule daemon_reachable.DaemonStart [OF loads(1) [unfolded load_as_def] _ sample_run]) simp

lemma sample_daemon_fields:
  "dm_path sample_daemon = ''/etc/arcsent.json''" "sv_listening (dm_api sample_daemon)" "dm_api_url sample_daemon"
  "dm_config sample_daemon = start_config" "pp_cache (dm_pipeline sample_daemon) = NewResultCache 50"
  "ec_auth_token (c_api start_config) = ''secret''" "ec_auth_token (c_webui start_config) = ''secret''"
  by (simp_all add: sample_daemon_def daemon_start_def server_new_def start_config_def serving_def knows_api_def
      sample_platform_def pipeline_new_def Default_def Let_def split: prod.split)

lemma schedules: "parseSchedule (pt_cron sample_platform) ''weekly'' = Inl (UnsupportedSchedule ''weekly'')"
proof -
  have "parse_duration ''weekly'' = None" by code_simp
  then show ?thesis
    by (simp add: sample_platform_def parseSchedule_def trim_space_def trim_left_def is_space_def every_prefix_def has_prefix_def)
qed

section \<open>Properties\<close>

text \<open>C14 In every state the daemon can reach one validated configuration is in force everywhere: the rules, the
  correlator, the alert engine, the drift threshold, the updater and both servers are set up from it, and
  every current job is one of its enabled scanners.\<close>

theorem config_in_force:
  assumes "daemon_reachable P s"
  shows "valid_config (dm_config s) \<and> in_force P (dm_config s) s"
  using reachable_inv [OF assms] by (auto simp: daemon_inv_def in_force_def)

theorem config_in_force_witness:
  "valid_config (dm_config sample_daemon) \<and> in_force sample_platform (dm_config sample_daemon) sample_daemon"
  by (rule config_in_force [OF sample_reachable])



text \<open>C33 No signal makes a reachable daemon panic: the stop channel a reload closes is never closed already.\<close>

theorem signals_never_panic:
  assumes "daemon_reachable P s" "\<And>m. mset (order m) = mset m"
  shows "handle_signal P load order sg s \<noteq> None"
  using handle_signal_total [where order = order, OF assms] .

theorem signals_never_panic_witness:
  "handle_signal sample_platform (load_as bad_config) rev SIGHUP sample_daemon \<noteq> None"
  by (rule signals_never_panic [OF sample_reachable]) simp

text \<open>C16 A reload whose configuration has one enabled scanner with a schedule that does not parse, which the
  validation of the configuration does not notice, stops every job and starts none, yet reports itself
  complete: from then until the next signal every goroutine left is that of a replaced job whose stop
  channel is closed, and no job of the configuration has one.\<close>

theorem reload_bad_schedule_halts:
  assumes "daemon_reachable P s" "\<And>m. mset (order m) = mset m"
    and "dm_path s \<noteq> []" "load (dm_path s) = Inr new"
    and "sc \<in> set (c_scanners new)" "sn_active sc" "parseSchedule (pt_cron P) (sn_schedule sc) = Inl err"
    and "handle_signal P load order SIGHUP s = Some t" "rtranclp (background P) t u"
  shows "last (dm_log t) = ReloadComplete
    \<and> list_all (\<lambda>(i, ph). jb_closed (sc_heap (dm_sched u) ! i) \<and> i \<notin> current (dm_sched u)) (sc_gos (dm_sched u))"
proof -
  have o: "owned (dm_sched s)" using reachable_inv [OF assms(1)] by (simp add: daemon_inv_def)
  obtain e sched log where r: "ReplaceJobs (pt_cron P) (Some (pt_store P)) (pt_jobs P) order
        (enabled_jobs (c_scanners new)) (dm_sched s) = Some (e, sched)"
    and t: "t = (reload_config P new (s\<lparr>dm_log := dm_log s @ [ReloadRequested]\<rparr>))\<lparr>dm_sched := sched, dm_log := log @ [ReloadComplete]\<rparr>"
    using sighup_loaded [OF assms(8,3,4)] .
  have job: "job_of_scanner sc \<in> set (enabled_jobs (c_scanners new))" using assms(5,6) by (simp add: enabled_jobs_def)
  have "e \<noteq> None"
  proof
    assume "e = None"
    with r ReplaceJobs_schedules [OF _ job] have "\<exists>spec. parseSchedule (pt_cron P) (jc_schedule (job_of_scanner sc)) = Inr spec"
      by blast
    with assms(7) show False by (simp add: job_of_scanner_def)
  qed
  then have "halted sched"
    using owned_ReplaceJobs(2) [where order = order, OF o assms(2) r] by auto
  then have "halted (dm_sched t)" by (simp add: t)
  from halted_backgrounds [OF assms(9) this] have h: "halted (dm_sched u)" .
  have "jb_closed (sc_heap (dm_sched u) ! i) \<and> i \<notin> current (dm_sched u)" if "(i, ph) \<in> set (sc_gos (dm_sched u))" for i ph
    by (rule halted_closed [OF h]) (use that in force)
  then have "list_all (\<lambda>(i, ph). jb_closed (sc_heap (dm_sched u) ! i) \<and> i \<notin> current (dm_sched u)) (sc_gos (dm_sched u))"
    by (auto simp: list_all_iff)
  then show ?thesis by (simp add: t)
qed

theorem reload_bad_schedule_halts_witness:
  "\<exists>t. handle_signal sample_platform (load_as bad_config) id SIGHUP sample_daemon = Some t
     \<and> last (dm_log t) = ReloadComplete
     \<and> list_all (\<lambda>(i, ph). jb_closed (sc_heap (dm_sched t) ! i) \<and> i \<notin> current (dm_sched t)) (sc_gos (dm_sched t))"
proof -
  obtain t where t: "handle_signal sample_platform (load_as bad_config) id SIGHUP sample_daemon = Some t"
    using handle_signal_total [OF sample_reachable, of id] by fastforce
  have "last (dm_log t) = ReloadComplete
     \<and> list_all (\<lambda>(i, ph). jb_closed (sc_heap (dm_sched t) ! i) \<and> i \<notin> current (dm_sched t)) (sc_gos (dm_sched t))"
    by (rule reload_bad_schedule_halts [OF sample_reachable _ _ loads(2) _ _ _ t rtranclp.rtrancl_refl,
        where sc = "scanner_entry ''b'' ''weekly''"])
       (simp_all add: sample_daemon_fields schedules, simp_all add: bad_config_def scanner_entry_def schedules)
  with t show ?thesis by blast
qed

text \<open>The overlap setting of a job decides nothing: in every state the daemon can reach no job, whatever its
  setting, is executed by two goroutines, and the guard in front of an execution never refuses one.\<close>

theorem overlap_guard_idle:
  assumes "daemon_reachable P s"
  shows "exec_count (sc_gos (dm_sched s)) i \<le> 1
    \<and> list_all (\<lambda>(i, ph). executing ph \<or> begin_job (sc_heap (dm_sched s) ! i) \<noteq> None) (sc_gos (dm_sched s))"
proof -
  have o: "owned (dm_sched s)" and r: "sched_reachable (pt_cron P) (Some (pt_store P)) (pt_jobs P) (dm_sched s)"
    using reachable_inv [OF assms] by (simp_all add: daemon_inv_def)
  show ?thesis
    using exec_count_le [OF ownedD(6) [OF o]] guard_never_refuses [OF o sched_reachable_inv [OF r]]
    unfolding list_all_iff by blast
qed

theorem overlap_guard_idle_witness:
  "exec_count (sc_gos (dm_sched sample_daemon)) 0 \<le> 1
    \<and> list_all (\<lambda>(i, ph). executing ph \<or> begin_job (sc_heap (dm_sched sample_daemon) ! i) \<noteq> None)
        (sc_gos (dm_sched sample_daemon))"
  by (rule overlap_guard_idle [OF sample_reachable])

text \<open>At the start a scanner that cannot be scheduled holds up no other: every enabled scanner with a name, a
  plugin and a schedule that parses has, under its name, a current job that was started and whose
  goroutine is about to begin.\<close>

theorem start_schedules_good_jobs:
  assumes "\<And>m. mset (order m) = mset m" "sc \<in> set (c_scanners cfg)" "sn_active sc" "sn_name sc \<noteq> []"
    and "sn_plugin sc \<noteq> []" "parseSchedule (pt_cron P) (sn_schedule sc) = Inr spec"
    and "Run_start P ps order now creds cfg path = Inr s"
  shows "\<exists>i. map_of (sc_jobs (dm_sched s)) (sn_name sc) = Some i \<and> jb_started (sc_heap (dm_sched s) ! i)
    \<and> (i, AtTop) \<in> set (sc_gos (dm_sched s))"
proof -
  let ?cfgs = "enabled_jobs (c_scanners cfg)" and ?job = "job_of_scanner sc"
  obtain c log0 d0 where s: "s = daemon_start P ps order now c cfg path log0 d0"
    using assms(7) by (auto simp: Run_start_def bind_res_Inr_iff split: if_splits)
  obtain log1 d where s': "dm_sched s = Start order (fst (schedule_all P ?cfgs (sched_init now d, log1)))"
    unfolding s using daemon_start_sched [of P ps order now c cfg path log0 d0] by blast
  define s0 where "s0 = fst (schedule_all P ?cfgs (sched_init now d, log1))"
  have "sched_ok P cfg s0" unfolding s0_def by (rule sched_ok_schedule_all) (simp_all add: sched_ok_init)
  then have o: "owned s0" by (simp add: sched_ok_def)
  have g: "sc_gos s0 = []" unfolding s0_def schedule_all_gos by (simp add: sched_init_def)
  have "?job \<in> set ?cfgs" using assms(2,3) by (simp add: enabled_jobs_def)
  then have "sn_name sc \<in> fst ` set (sc_jobs s0)"
    using schedule_all_good [of ?job ?cfgs P spec] assms(4-6) by (simp add: s0_def job_of_scanner_def)
  then obtain i where i: "map_of (sc_jobs s0) (sn_name sc) = Some i" by (metis map_of_eq_None_iff not_None_eq)
  then have c: "i \<in> current s0" by (force simp: current_def dest: map_of_SomeD)
  note st = Start_owned [where order = order and s = s0, OF o assms(1)]
  have "\<not> jb_started (sc_heap s0 ! k)" if "k \<in> current s0" for k
    using ownedD(1,3) [OF o, of k] that g by auto
  with c have "i \<in> set (filter (\<lambda>i. \<not> jb_started (sc_heap s0 ! i)) (map snd (order (sc_jobs s0))))"
    unfolding set_filter st(3) by blast
  moreover have "(i, AtTop) \<in> set (sc_gos (s0\<lparr>sc_heap := h, sc_gos := g @ map (\<lambda>i. (i, AtTop)) is\<rparr>))"
    if "i \<in> set is" for h g "is" using that by auto
  ultimately have "(i, AtTop) \<in> set (sc_gos (Start order s0))" unfolding st(1) by blast
  moreover have "sc_jobs (Start order s0) = sc_jobs s0" by (simp add: st(1))
  ultimately show ?thesis
    using i c owned_Start(3) [where order = order and s = s0, OF o assms(1)] by (auto simp: s' simp flip: s0_def)
qed

theorem start_schedules_good_jobs_witness:
  "\<exists>i. map_of (sc_jobs (dm_sched sample_daemon)) ''a'' = Some i \<and> jb_started (sc_heap (dm_sched sample_daemon) ! i)
    \<and> (i, AtTop) \<in> set (sc_gos (dm_sched sample_daemon))"
  using start_schedules_good_jobs [OF _ _ _ _ _ _ sample_run, of "scanner_entry ''a'' ''1s''"]
  by (simp add: start_config_def scanner_entry_def sample_schedule)

text \<open>C7 A reload with a configuration that leaves the API's token empty, which is valid as long as the API is
  disabled in it, opens the API that is already listening: it goes on, and every request is served whatever
  token it carries.\<close>

theorem reload_opens_api:
  assumes "sv_listening (dm_api s)" "dm_path s \<noteq> []" "load (dm_path s) = Inr new" "ec_auth_token (c_api new) = []"
    and "handle_signal P load order SIGHUP s = Some t"
  shows "sv_listening (dm_api t)
    \<and> api_serve F E (api_of P S net R t) r w
      = (case serve_mux api_routes (hq_path r) of
           MuxNotFound \<Rightarrow> (plain_response 404, None, w)
         | MuxRedirect loc \<Rightarrow> (redirect_response loc, None, w)
         | MuxRoute route \<Rightarrow> api_handle F E (api_of P S net R t) route r w)"
proof -
  obtain e sched log where t: "t = (reload_config P new (s\<lparr>dm_log := dm_log s @ [ReloadRequested]\<rparr>))
      \<lparr>dm_sched := sched, dm_log := log @ [ReloadComplete]\<rparr>"
    using sighup_loaded [OF assms(5,2,3)] by metis
  have a: "dm_api t = server_update (c_api new) (dm_api s)" by (simp add: t reload_config_fields)
  then have "ap_token (api_of P S net R t) = []" by (simp add: api_of_def server_update_def assms(4) Let_def)
  with a assms(1) show ?thesis by (simp add: api_serve_def withAuth_def server_update_def split: mux_result.split)
qed

definition sample_orders :: "int orders" where
  "sample_orders = \<lparr>or_plugins = id, or_jobs = id, or_latest = rev\<rparr>"

definition bare_request :: http_request where
  "bare_request = \<lparr>hq_method = ''GET'', hq_path = ''/findings'', hq_auth = [], hq_query = Map.empty\<rparr>"

theorem reload_opens_api_witness:
  "\<exists>t. handle_signal sample_platform (load_as open_config) id SIGHUP sample_daemon = Some t
     \<and> sv_listening (dm_api t)
     \<and> api_serve sample_formats sample_env (api_of sample_platform sample_os sample_net sample_orders t) bare_request 0
       = (case serve_mux api_routes (hq_path bare_request) of
           MuxNotFound \<Rightarrow> (plain_response 404, None, 0)
         | MuxRedirect loc \<Rightarrow> (redirect_response loc, None, 0)
         | MuxRoute route \<Rightarrow> api_handle sample_formats sample_env (api_of sample_platform sample_os sample_net sample_orders t) route bare_request 0)"
proof -
  obtain t where t: "handle_signal sample_platform (load_as open_config) id SIGHUP sample_daemon = Some t"
    using handle_signal_total [OF sample_reachable, of id] by fastforce
  have "ec_auth_token (c_api open_config) = []" by (simp add: open_config_def Default_def)
  with t show ?thesis using reload_opens_api [OF sample_daemon_fields(2) _ loads(3) _ t] by (simp add: sample_daemon_fields(1))
qed

definition pending :: "('w, 'd) daemon \<Rightarrow> alert multiset" where
  "pending s = (\<Sum>e\<leftarrow>dm_retired s @ [pp_engine (dm_pipeline s)]. mset (en_queue e))"



text \<open>C13 What the validation accepts, the store opens: after a configuration was loaded, its database path is
  not empty and its key, if it has one, decodes to 32 bytes, so when the start fails at the store the reason is
  badger's own answer for that path and that key.\<close>

theorem loaded_config_opens_store:
  assumes "Load read unmarshal env vorder euid0 path = Inr cfg"
    and "Run_start P ps order now creds cfg path = Inl (StoreError e)"
  shows "\<exists>key reason. (if sg_encryption_key (c_storage cfg) = [] then key = None
        else key \<noteq> None \<and> key = b64_decode (sg_encryption_key (c_storage cfg)) \<and> length (the key) = 32)
    \<and> sg_db_path (c_storage cfg) \<noteq> [] \<and> pt_open P (sg_db_path (c_storage cfg)) key = Inl reason \<and> e = BadgerOpen reason"
proof -
  obtain vorder' euid' where "Validate vorder' euid' cfg = []" using Load_valid [OF assms(1)] by (auto simp: valid_config_def)
  then have v: "validate_storage (c_storage cfg) = []" by (rule Validate_parts(2))
  have "NewBadgerStoreWithKey (pt_open P) (sg_db_path (c_storage cfg)) (sg_encryption_key (c_storage cfg)) = Inl e"
    using assms(2) by (auto simp: Run_start_def bind_res_Inl_iff drop_for_def check_integrity_def split: sum.splits if_splits option.splits prod.splits)
  with v show ?thesis
    by (auto simp: validate_storage_def NewBadgerStoreWithKey_def err_if_def Let_def split: if_splits option.splits sum.splits)
qed

definition locked_platform :: "(bool gomap, bool) platform" where
  "locked_platform = sample_platform\<lparr>pt_open := (\<lambda>path key. Inl ''locked'')\<rparr>"

theorem loaded_config_opens_store_witness:
  "\<exists>e. Run_start locked_platform [sample_plugin] id 0 root_process start_config ''/etc/arcsent.json'' = Inl (StoreError e)
     \<and> e = BadgerOpen ''locked''"
proof -
  have r: "Run_start locked_platform [sample_plugin] id 0 root_process start_config ''/etc/arcsent.json''
      = Inl (StoreError (BadgerOpen ''locked''))"
    by (simp add: Run_start_def check_integrity_def start_config_def Default_def locked_platform_def
        sample_platform_def NewBadgerStoreWithKey_def)
  from loaded_config_opens_store [OF loads(1) [unfolded load_as_def] this] show ?thesis
    using r by (auto simp: locked_platform_def)
qed

end
