(* ===== verification/SchedulerLive.thy ===== *)
theory SchedulerLive
  imports SchedulerReload
begin

text \<open>
  Progress of the scheduler's goroutines (\<open>runJob\<close> of \<open>internal/scheduler/scheduler.go\<close>): where every
  job's schedule comes from, that a goroutine ends only when it was told to, when it can move, and a rank
  that each of its steps lowers as long as the clock stands still.
\<close>

section \<open>Schedules and ends\<close>

definition spec_from :: "cron_parser \<Rightarrow> schedule_spec \<Rightarrow> bool" where
  "spec_from cron sp =
     (case sp of IntervalSpec i raw \<Rightarrow> 0 < i | CronSpec c raw \<Rightarrow> (\<exists>expr. cron expr = Some c))"

definition told_to_end :: "'d sched \<Rightarrow> nat \<Rightarrow> bool" where
  "told_to_end s i \<longleftrightarrow> sc_cancelled s \<or> jb_closed (sc_heap s ! i)"

definition timely :: "cron_parser \<Rightarrow> 'd sched \<Rightarrow> bool" where
  "timely cron s \<longleftrightarrow>
     list_all (\<lambda>j. spec_from cron (jb_spec j)) (sc_heap s)
     \<and> list_all (\<lambda>(i, ph). ph = Exited \<longrightarrow> told_to_end s i) (sc_gos s)"

lemma timelyI:
  assumes "\<And>n. n < length (sc_heap s) \<Longrightarrow> spec_from cron (jb_spec (sc_heap s ! n))"
    and "\<And>i. (i, Exited) \<in> set (sc_gos s) \<Longrightarrow> told_to_end s i"
  shows "timely cron s"
proof -
  have "list_all (\<lambda>j. spec_from cron (jb_spec j)) (sc_heap s)" using assms(1) by (simp add: list_all_length)
  moreover have "list_all (\<lambda>(i, ph). ph = Exited \<longrightarrow> told_to_end s i) (sc_gos s)"
    using assms(2) by (auto simp: list_all_iff)
  ultimately show ?thesis by (simp add: timely_def)
qed

lemma timelyD:
  assumes "timely cron s"
  shows "i < length (sc_heap s) \<Longrightarrow> spec_from cron (jb_spec (sc_heap s ! i))"
    and "(i, Exited) \<in> set (sc_gos s) \<Longrightarrow> told_to_end s i"
  using assms by (auto simp: timely_def list_all_length) (auto simp: list_all_iff in_set_conv_nth)

text \<open>What the operations on jobs do: jobs are added, kept with their schedules, and closed for good.\<close>

definition grows :: "cron_parser \<Rightarrow> 'd sched \<Rightarrow> 'd sched \<Rightarrow> bool" where
  "grows cron s t \<longleftrightarrow>
     length (sc_heap s) \<le> length (sc_heap t)
     \<and> (\<forall>i < length (sc_heap s). jb_spec (sc_heap t ! i) = jb_spec (sc_heap s ! i)
          \<and> (jb_closed (sc_heap s ! i) \<longrightarrow> jb_closed (sc_heap t ! i)))
     \<and> (\<forall>i < length (sc_heap t). length (sc_heap s) \<le> i \<longrightarrow> spec_from cron (jb_spec (sc_heap t ! i)))
     \<and> (sc_cancelled s \<longrightarrow> sc_cancelled t)
     \<and> (\<forall>x \<in> set (sc_gos t). x \<in> set (sc_gos s) \<or> snd x \<noteq> Exited)"

lemma growsI:
  assumes "length (sc_heap s) \<le> length (sc_heap t)"
    and "\<And>i. i < length (sc_heap s) \<Longrightarrow> jb_spec (sc_heap t ! i) = jb_spec (sc_heap s ! i)
          \<and> (jb_closed (sc_heap s ! i) \<longrightarrow> jb_closed (sc_heap t ! i))"
    and "\<And>i. i < length (sc_heap t) \<Longrightarrow> length (sc_heap s) \<le> i \<Longrightarrow> spec_from cron (jb_spec (sc_heap t ! i))"
    and "sc_cancelled s \<Longrightarrow> sc_cancelled t"
    and "\<And>x. x \<in> set (sc_gos t) \<Longrightarrow> x \<in> set (sc_gos s) \<or> snd x \<noteq> Exited"
  shows "grows cron s t"
  using assms unfolding grows_def by blast

named_theorems growing \<open>operations that only add, keep and close jobs\<close>

lemma grows_same [growing]:
  "sc_heap t = sc_heap s \<Longrightarrow> sc_gos t = sc_gos s \<Longrightarrow> (sc_cancelled s \<Longrightarrow> sc_cancelled t) \<Longrightarrow> grows cron s t"
  by (rule growsI) auto

lemma grows_trans [trans]: "grows cron s t \<Longrightarrow> grows cron t u \<Longrightarrow> grows cron s u"
proof (rule growsI)
  assume st: "grows cron s t" and tu: "grows cron t u"
  show "length (sc_heap s) \<le> length (sc_heap u)" using st tu by (simp add: grows_def)
  show "jb_spec (sc_heap u ! i) = jb_spec (sc_heap s ! i) \<and> (jb_closed (sc_heap s ! i) \<longrightarrow> jb_closed (sc_heap u ! i))"
    if "i < length (sc_heap s)" for i
    using st tu that by (simp add: grows_def)
  show "spec_from cron (jb_spec (sc_heap u ! i))" if "i < length (sc_heap u)" "length (sc_heap s) \<le> i" for i
    using st tu that by (cases "i < length (sc_heap t)") (auto simp: grows_def)
  show "sc_cancelled u" if "sc_cancelled s" using st tu that by (simp add: grows_def)
  show "x \<in> set (sc_gos s) \<or> snd x \<noteq> Exited" if "x \<in> set (sc_gos u)" for x
    using st tu that by (auto simp: grows_def)
qed

lemma spec_from_parse: "parseSchedule cron expr = Inr sp \<Longrightarrow> spec_from cron sp"
  by (auto simp: parseSchedule_def spec_from_def Let_def split: if_splits option.splits)

lemma grows_AddJob [growing]:
  assumes "AddJob cron store C cfg s = Inr t"
  shows "grows cron s t"
proof -
  from assms obtain j where j: "new_job cron store C (sc_db s) (sc_now s) (fst ` set (sc_jobs s)) cfg = Inr j"
    and t: "t = s\<lparr>sc_heap := sc_heap s @ [j],
                 sc_jobs := obj_set (sc_jobs s) (jc_name (jb_cfg j)) (length (sc_heap s))\<rparr>"
    by (auto simp: AddJob_def split: sum.splits)
  have "spec_from cron (jb_spec j)" using new_job_simps(5) [OF j] by (rule spec_from_parse)
  then show ?thesis by (intro growsI) (auto simp: t nth_append)
qed

lemma grows_update:
  assumes "sc_heap t = (sc_heap s)[i := j']" "jb_spec j' = jb_spec (sc_heap s ! i)"
    and "jb_closed (sc_heap s ! i) \<Longrightarrow> jb_closed j'" "sc_cancelled t = sc_cancelled s"
    and "\<And>x. x \<in> set (sc_gos t) \<Longrightarrow> x \<in> set (sc_gos s) \<or> snd x \<noteq> Exited"
  shows "grows cron s t"
proof (rule growsI)
  show "jb_spec (sc_heap t ! k) = jb_spec (sc_heap s ! k) \<and> (jb_closed (sc_heap s ! k) \<longrightarrow> jb_closed (sc_heap t ! k))"
    if "k < length (sc_heap s)" for k
    using that assms(1-3) by (cases "k = i") auto
qed (use assms in auto)

lemma grows_start_one [growing]: "grows cron s (start_one i s)"
proof (cases "jb_started (sc_heap s ! i)")
  case False
  then show ?thesis
    by (intro grows_update [of _ s i "(sc_heap s ! i)\<lparr>jb_started := True\<rparr>"]) (auto simp: start_one_def)
qed (simp add: start_one_def growing)

lemma grows_Start [growing]: "grows cron s (Start order s)"
proof -
  have "grows cron s (foldl (\<lambda>s (n, i). start_one i s) s xs)" for xs
  proof (induction xs arbitrary: s)
    case (Cons x xs)
    have "grows cron s (start_one (snd x) s)" by (rule growing)
    also have "grows cron \<dots> (foldl (\<lambda>s (n, i). start_one i s) (start_one (snd x) s) xs)" by (rule Cons.IH)
    finally show ?case by (simp add: case_prod_unfold)
  qed (simp add: growing)
  then show ?thesis by (simp add: Start_def)
qed

lemma grows_stop_one [growing]: "stop_one i s = Some t \<Longrightarrow> grows cron s t"
  by (cases "jb_started (sc_heap s ! i)")
     (auto simp: stop_one_def Let_def growing split: if_splits
       intro!: grows_update [of _ s i "(sc_heap s ! i)\<lparr>jb_closed := True, jb_started := False\<rparr>"])

lemma grows_stop_all [growing]: "stop_all xs s = Some t \<Longrightarrow> grows cron s t"
proof (induction xs s rule: stop_all.induct)
  case (2 n i rest s)
  then obtain s' where "stop_one i s = Some s'" "grows cron s' t" by (auto split: option.splits)
  then show ?case by (blast intro: grows_trans growing)
qed (simp add: growing)

lemma grows_add_all [growing]: "add_all cron store C cfgs s = (e, t) \<Longrightarrow> grows cron s t"
  by (induction cron store C cfgs s rule: add_all.induct)
     (auto split: sum.splits intro: growing grows_trans)

lemma grows_ReplaceJobs [growing]:
  assumes "ReplaceJobs cron store C order cfgs s = Some (e, t)"
  shows "grows cron s t"
proof -
  from assms obtain s1 e2 s2 where s1: "Stop order s = Some s1"
    and s2: "add_all cron store C cfgs (s1\<lparr>sc_jobs := []\<rparr>) = (e2, s2)"
    and t: "t = (case e2 of Some _ \<Rightarrow> s2 | None \<Rightarrow> Start order s2)"
    by (auto simp: ReplaceJobs_def split: option.splits prod.splits)
  have "grows cron s s1" using s1 unfolding Stop_def by (rule growing)
  also have "grows cron s1 (s1\<lparr>sc_jobs := []\<rparr>)" by (rule growing) simp_all
  also have "grows cron \<dots> s2" using s2 by (rule growing)
  also have "grows cron s2 t" by (cases e2) (simp_all add: t growing)
  finally show ?thesis .
qed

lemma timely_grows:
  assumes "timely cron s" "sched_inv s" "grows cron s t"
  shows "timely cron t"
proof (rule timelyI)
  show "spec_from cron (jb_spec (sc_heap t ! i))" if "i < length (sc_heap t)" for i
    using that assms(3) timelyD(1) [OF assms(1), of i] by (cases "i < length (sc_heap s)") (auto simp: grows_def)
  show "told_to_end t i" if "(i, Exited) \<in> set (sc_gos t)" for i
  proof -
    from that assms(3) have g: "(i, Exited) \<in> set (sc_gos s)" by (force simp: grows_def)
    with assms(2) have "i < length (sc_heap s)" by (auto simp: sched_inv_def list_all_iff)
    with assms(3) timelyD(2) [OF assms(1) g] show ?thesis by (auto simp: grows_def told_to_end_def)
  qed
qed

text \<open>One step of a goroutine keeps the job's schedule, and ends only when it was told to.\<close>

lemma go_keeps:
  assumes "go store C cancelled now (j, d, ph) (j', d', ph', out)"
  shows "jb_spec j' = jb_spec j \<and> jb_closed j' = jb_closed j \<and> (ph' = Exited \<longrightarrow> cancelled \<or> jb_closed j)"
  using assms go_flags [OF assms]
  by (elim go_cases)
     (auto dest!: enter_wait_simps end_job_running simp: begin_job_def split: if_splits)

lemma timely_go:
  assumes "timely cron s" "sched_inv s" "g < length (sc_gos s)" "sc_gos s ! g = (i, ph)"
    and go: "go store C (sc_cancelled s) (sc_now s) (sc_heap s ! i, sc_db s, ph) (j', d', ph', out)"
    and t: "t = s\<lparr>sc_heap := (sc_heap s)[i := j'], sc_db := d', sc_gos := (sc_gos s)[g := (i, ph')],
               sc_out := sc_out s @ out\<rparr>"
  shows "timely cron t"
proof -
  note k = go_keeps [OF go]
  have i: "i < length (sc_heap s)"
    using assms(2-4) by (metis (mono_tags, lifting) case_prodD list_all_length sched_inv_def)
  show ?thesis
  proof (rule timelyI)
    show "spec_from cron (jb_spec (sc_heap t ! n))" if "n < length (sc_heap t)" for n
      using that k timelyD(1) [OF assms(1), of n] by (cases "n = i") (auto simp: t)
    fix n assume that: "(n, Exited) \<in> set (sc_gos t)"
    have tell: "told_to_end t m \<longleftrightarrow> told_to_end s m" for m
      using k by (cases "m = i \<and> i < length (sc_heap s)") (auto simp: t told_to_end_def list_update_beyond)
    have "(n, Exited) = (i, ph') \<or> (n, Exited) \<in> set (sc_gos s)"
      using that set_update_subset_insert [of "sc_gos s" g "(i, ph')"] by (auto simp: t)
    then show "told_to_end t n"
      using k timelyD(2) [OF assms(1), of n] unfolding tell by (auto simp: told_to_end_def)
  qed
qed

lemma timely_step:
  assumes "sched_step cron store C s t" "sched_inv s" "timely cron s"
  shows "timely cron t"
  using assms(1)
proof cases
  case (StepGo g i ph j' d' ph' out)
  with timely_go [OF assms(3,2)] show ?thesis by blast
next
  case (StepAdd cfg)
  show ?thesis by (rule timely_grows [OF assms(3,2) grows_AddJob [OF StepAdd]])
next
  case (StepStart order)
  show ?thesis unfolding StepStart(1) by (rule timely_grows [OF assms(3,2) grows_Start])
next
  case (StepStop order)
  show ?thesis by (rule timely_grows [OF assms(3,2) grows_stop_all [OF StepStop(2) [unfolded Stop_def]]])
next
  case (StepReplace order cfgs e)
  show ?thesis by (rule timely_grows [OF assms(3,2) grows_ReplaceJobs [OF StepReplace(2)]])
qed (auto intro!: timely_grows [OF assms(3,2) grows_same])

lemma sched_reachable_timely: "sched_reachable cron store C s \<Longrightarrow> timely cron s"
proof (induction rule: sched_reachable.induct)
  case (ReachStep s t)
  then show ?case using sched_reachable_inv timely_step by blast
qed (simp add: timely_def sched_init_def)

section \<open>The rank of a goroutine\<close>

text \<open>An upper bound of the steps a goroutine can take before the clock has to move.\<close>

fun rank :: "int \<Rightarrow> job \<Rightarrow> phase \<Rightarrow> nat" where
  "rank now j Exited = 0"
| "rank now j (Waiting t) = (if t \<le> now then 4 else 1)"
| "rank now j RunningOnTimer = 3"
| "rank now j RunningAtStart = 5"
| "rank now j AtTop =
     (if runs_at_start j then 6 else if \<not> is_zero_time (jb_next j) \<and> jb_next j \<le> now then 5 else 2)"

lemma rank_le: "rank now j ph \<le> 6"
  by (cases ph) auto

lemma rank_enter_wait:
  assumes "enter_wait j now = (j', ph')" "spec_ok (jb_spec j)"
  shows "rank now j' ph' \<le> 4"
    and "is_zero_time (jb_next j) \<or> now < jb_next j \<Longrightarrow> rank now j' ph' = 1"
  using assms computeNextRun_future [OF assms(2), of now] by (auto simp: enter_wait_def Let_def split: if_splits)

lemma go_rank:
  assumes "go store C cancelled now (j, d, ph) (j', d', ph', out)"
    and ok: "spec_ok (jb_spec j)" and now: "zero_time < now" and free: "\<not> executing ph \<Longrightarrow> begin_job j \<noteq> None"
  shows "rank now j' ph' < rank now j ph"
  using assms(1)
proof (cases rule: go.cases)
  case GoWait
  note w = rank_enter_wait [OF GoWait(5) ok]
  show ?thesis using w GoWait(1,4) by (cases "is_zero_time (jb_next j) \<or> now < jb_next j") auto
next
  case (GoStarted outcome j1 ret)
  have "spec_ok (jb_spec j1)" using end_job_running [OF GoStarted(3)] ok by simp
  from rank_enter_wait(1) [OF GoStarted(4) this] GoStarted(1) show ?thesis by simp
next
  case (GoFired outcome j1 ret)
  note e = end_job_running [OF GoFired(4)]
  have "now < jb_next j'" using computeNextRun_future [of j1 now] e ok by (simp add: GoFired(5))
  moreover have "\<not> runs_at_start j'" using e now by (simp add: GoFired(5) runs_at_start_def is_zero_time_def)
  ultimately show ?thesis using GoFired(1,2) by simp
qed (use free rank_enter_wait(1) [OF _ ok] in \<open>force+\<close>)

text \<open>A goroutine that has not ended can move, unless its timer has not run out and nobody told it to end.\<close>

lemma go_enabled:
  assumes "ph \<noteq> Exited" "\<And>t. ph = Waiting t \<Longrightarrow> t \<le> now \<or> cancelled \<or> jb_closed j"
  shows "\<exists>j' d' ph' out. go store C cancelled now (j, d, ph) (j', d', ph', out)"
proof -
  obtain j1 d' out where e: "end_job store C now (None, None) (j, d) = ((j1, d'), out)" by (metis prod.collapse)
  show ?thesis
  proof (cases ph)
    case AtTop
    then show ?thesis by (cases "runs_at_start j"; cases "begin_job j") (metis go.GoStart go.GoSkip go.GoWait prod.collapse)+
  next
    case RunningAtStart
    with go.GoStarted [OF e] show ?thesis by (metis prod.collapse)
  next
    case (Waiting t)
    with assms(2) show ?thesis
      by (cases "begin_job j") (metis go.GoCancelled go.GoStopped go.GoFire go.GoFireSkip)+
  next
    case RunningOnTimer
    with go.GoFired [OF e] show ?thesis by blast
  qed (use assms in simp)
qed

section \<open>The rank of all goroutines\<close>

definition work :: "'d sched \<Rightarrow> nat" where
  "work s = (\<Sum>k < length (sc_gos s). rank (sc_now s) (sc_heap s ! fst (sc_gos s ! k)) (snd (sc_gos s ! k)))"

text \<open>Every schedule the cron parser accepts has a next time.\<close>

definition cron_matches :: "cron_parser \<Rightarrow> bool" where
  "cron_matches cron \<longleftrightarrow> (\<forall>expr c t. cron expr = Some c \<longrightarrow> t < c t)"

lemma spec_from_ok: "spec_from cron sp \<Longrightarrow> cron_matches cron \<Longrightarrow> spec_ok sp"
  by (auto simp: spec_from_def spec_ok_def cron_matches_def split: schedule_spec.splits)

lemma work_le: "work s \<le> 6 * length (sc_gos s)"
proof -
  have "work s \<le> (\<Sum>k < length (sc_gos s). 6)" unfolding work_def by (rule sum_mono) (rule rank_le)
  then show ?thesis by simp
qed

lemma go_stepE:
  assumes "go_step store C s g out t"
  obtains i ph j' d' ph' where "g < length (sc_gos s)" "sc_gos s ! g = (i, ph)"
    and "go store C (sc_cancelled s) (sc_now s) (sc_heap s ! i, sc_db s, ph) (j', d', ph', out)"
    and "t = s\<lparr>sc_heap := (sc_heap s)[i := j'], sc_db := d', sc_gos := (sc_gos s)[g := (i, ph')],
               sc_out := sc_out s @ out\<rparr>"
  using assms unfolding go_step_def by blast

lemma owned_same_job:
  assumes "owned s" "k < length (sc_gos s)" "g < length (sc_gos s)" "fst (sc_gos s ! k) = fst (sc_gos s ! g)"
  shows "k = g"
  using ownedD(6) [OF assms(1)] assms(2-4) nth_eq_iff_index_eq [of "map fst (sc_gos s)" k g] by simp

lemma go_step_work:
  assumes "go_step store C s g out t" "owned s" "sched_inv s" "timely cron s" "cron_matches cron" "zero_time < sc_now s"
  shows "work t < work s" "length (sc_gos t) = length (sc_gos s)" "sc_now t = sc_now s" "sc_cancelled t = sc_cancelled s"
proof -
  obtain i ph j' d' ph' where g: "g < length (sc_gos s)" "sc_gos s ! g = (i, ph)"
    and go: "go store C (sc_cancelled s) (sc_now s) (sc_heap s ! i, sc_db s, ph) (j', d', ph', out)"
    and t: "t = s\<lparr>sc_heap := (sc_heap s)[i := j'], sc_db := d', sc_gos := (sc_gos s)[g := (i, ph')],
               sc_out := sc_out s @ out\<rparr>"
    using assms(1) by (rule go_stepE)
  have m: "(i, ph) \<in> set (sc_gos s)" using g by (metis nth_mem)
  then have i: "i < length (sc_heap s)" using ownedD(4) [OF assms(2), of i] by force
  have low: "rank (sc_now s) j' ph' < rank (sc_now s) (sc_heap s ! i) ph"
  proof (rule go_rank [OF go])
    show "spec_ok (jb_spec (sc_heap s ! i))" using timelyD(1) [OF assms(4) i] assms(5) by (rule spec_from_ok)
    show "begin_job (sc_heap s ! i) \<noteq> None" if "\<not> executing ph"
      using guard_never_refuses [OF assms(2,3) m that] .
  qed (rule assms(6))
  have other: "sc_gos t ! k = sc_gos s ! k \<and> sc_heap t ! fst (sc_gos s ! k) = sc_heap s ! fst (sc_gos s ! k)"
    if "k < length (sc_gos s)" "k \<noteq> g" for k
  proof -
    have "i \<noteq> fst (sc_gos s ! k)" using that(2) owned_same_job [OF assms(2) that(1) g(1)] g(2) by auto
    with that show ?thesis by (simp add: t)
  qed
  let ?f = "\<lambda>u k. rank (sc_now u) (sc_heap u ! fst (sc_gos u ! k)) (snd (sc_gos u ! k))"
  have at: "sc_heap t ! i = j'" "sc_gos t ! g = (i, ph')" using i g by (simp_all add: t)
  show frame: "length (sc_gos t) = length (sc_gos s)" "sc_now t = sc_now s" "sc_cancelled t = sc_cancelled s"
    by (simp_all add: t)
  have at_g: "?f t g < ?f s g" unfolding frame at using g low by (simp add: at)
  have "?f t k \<le> ?f s k" if "k < length (sc_gos s)" for k
    using at_g other [OF that] frame(2) by (cases "k = g") simp_all
  then have "(\<Sum>k < length (sc_gos s). ?f t k) < (\<Sum>k < length (sc_gos s). ?f s k)"
    using at_g g(1) by (intro sum_strict_mono_ex1) auto
  then show "work t < work s" by (simp add: work_def frame(1))
qed

text \<open>In a state in which no goroutine can move all of them have ended or wait for their time.\<close>

lemma go_step_exists:
  assumes "g < length (sc_gos s)" "sc_gos s ! g = (i, ph)" "ph \<noteq> Exited"
    and "\<And>t. ph = Waiting t \<Longrightarrow> t \<le> sc_now s \<or> told_to_end s i"
  shows "\<exists>out t. go_step store C s g out t"
proof -
  have "\<exists>j' d' ph' out. go store C (sc_cancelled s) (sc_now s) (sc_heap s ! i, sc_db s, ph) (j', d', ph', out)"
    by (rule go_enabled [OF assms(3)]) (use assms(4) in \<open>auto simp: told_to_end_def\<close>)
  then obtain j' d' ph' out where
    "go store C (sc_cancelled s) (sc_now s) (sc_heap s ! i, sc_db s, ph) (j', d', ph', out)" by blast
  then have "go_step store C s g out (s\<lparr>sc_heap := (sc_heap s)[i := j'], sc_db := d', sc_gos := (sc_gos s)[g := (i, ph')],
      sc_out := sc_out s @ out\<rparr>)"
    unfolding go_step_def using assms(1,2) by (intro conjI exI) auto
  then show ?thesis by blast
qed

end
