(* ===== verification/DaemonLive.thy ===== *)
theory DaemonLive
  imports Reload SchedulerLive
begin

text \<open>
  Progress of the running daemon (\<open>internal/daemon/runner.go\<close> over \<open>internal/scheduler/scheduler.go\<close>): a
  job that was not told to end is executed again and again, between two ticks of the clock the goroutines
  come to rest, and then those told to end have ended; and the one kind of schedule that breaks this.
\<close>

section \<open>Turns of one goroutine\<close>

text \<open>The goroutine \<open>g\<close> takes one step, and the callback handles what it hands out.\<close>

inductive job_turn :: "('d, 'b) platform \<Rightarrow> nat \<Rightarrow> ('w, 'd) daemon \<Rightarrow> ('w, 'd) daemon \<Rightarrow> bool" for P g where
  JobTurn: "go_step (Some (pt_store P)) (pt_jobs P) (dm_sched s) g out u \<Longrightarrow> (\<And>m. mset (order m) = mset m)
     \<Longrightarrow> job_turn P g s (handle_results P suffix order out (s\<lparr>dm_sched := u\<rparr>))"

text \<open>The goroutine alone with the clock.\<close>

inductive alone :: "('d, 'b) platform \<Rightarrow> nat \<Rightarrow> ('w, 'd) daemon \<Rightarrow> ('w, 'd) daemon \<Rightarrow> bool" for P g where
  AloneTurn: "job_turn P g s t \<Longrightarrow> alone P g s t"
| AloneTick: "sc_now (dm_sched s) \<le> now \<Longrightarrow> alone P g s (s\<lparr>dm_sched := (dm_sched s)\<lparr>sc_now := now\<rparr>\<rparr>)"

lemma job_turn_background: "job_turn P g s t \<Longrightarrow> background P s t"
  by (auto elim!: job_turn.cases intro: background.BgJob)

lemma alone_background: "alone P g s t \<Longrightarrow> background P s t"
  by (auto elim!: alone.cases intro: background.BgTick job_turn_background)

lemma reachable_background: "daemon_reachable P s \<Longrightarrow> background P s t \<Longrightarrow> daemon_reachable P t"
  by (blast intro: daemon_reachable.DaemonStep daemon_step.StepBackground)

lemma reachable_alone: "rtranclp (alone P g) s t \<Longrightarrow> daemon_reachable P s \<Longrightarrow> daemon_reachable P t"
  by (induction rule: rtranclp_induct) (auto intro: reachable_background alone_background)

lemma alone_turns: "rtranclp (job_turn P g) s t \<Longrightarrow> rtranclp (alone P g) s t"
  by (induction rule: rtranclp_induct) (auto intro: alone.AloneTurn rtranclp.rtrancl_into_rtrancl)

text \<open>What the reachable states are for the scheduler.\<close>

lemma reachable_sched:
  assumes "daemon_reachable P s"
  shows "owned (dm_sched s)" "sched_inv (dm_sched s)" "timely (pt_cron P) (dm_sched s)"
  using reachable_inv [OF assms] sched_reachable_inv sched_reachable_timely by (auto simp: daemon_inv_def)

text \<open>A turn seen from the scheduler: the step, but for what the callback wrote to the store.\<close>

lemma job_turnE:
  assumes "job_turn P g s t"
  obtains out u d where "go_step (Some (pt_store P)) (pt_jobs P) (dm_sched s) g out u" "dm_sched t = u\<lparr>sc_db := d\<rparr>"
  using assms
proof cases
  case (JobTurn out u order suffix)
  then show ?thesis
    using handle_results_frame(1) [of P suffix order out "s\<lparr>dm_sched := u\<rparr>"] that by auto
qed

lemma turn_goes:
  assumes "g < length (sc_gos (dm_sched s))" "sc_gos (dm_sched s) ! g = (i, ph)" "i < length (sc_heap (dm_sched s))"
    and "go (Some (pt_store P)) (pt_jobs P) (sc_cancelled (dm_sched s)) (sc_now (dm_sched s))
           (sc_heap (dm_sched s) ! i, sc_db (dm_sched s), ph) (j', d', ph', out)"
  obtains t where "job_turn P g s t" "sc_gos (dm_sched t) = (sc_gos (dm_sched s))[g := (i, ph')]"
    and "sc_heap (dm_sched t) ! i = j'" "sc_out (dm_sched t) = sc_out (dm_sched s) @ out"
    and "sc_now (dm_sched t) = sc_now (dm_sched s)" "sc_cancelled (dm_sched t) = sc_cancelled (dm_sched s)"
    and "length (sc_heap (dm_sched t)) = length (sc_heap (dm_sched s))"
proof -
  define u where "u = (dm_sched s)\<lparr>sc_heap := (sc_heap (dm_sched s))[i := j'], sc_db := d',
      sc_gos := (sc_gos (dm_sched s))[g := (i, ph')], sc_out := sc_out (dm_sched s) @ out\<rparr>"
  define t where "t = handle_results P [] id out (s\<lparr>dm_sched := u\<rparr>)"
  have "go_step (Some (pt_store P)) (pt_jobs P) (dm_sched s) g out u"
    unfolding go_step_def u_def using assms by (intro conjI exI) auto
  then have turn: "job_turn P g s t" unfolding t_def by (rule job_turn.JobTurn) simp
  obtain d where "dm_sched t = u\<lparr>sc_db := d\<rparr>"
    unfolding t_def using handle_results_frame(1) [of P "[]" id out "s\<lparr>dm_sched := u\<rparr>"] by auto
  with turn assms(3) show thesis by (intro that [of t]) (simp_all add: u_def)
qed

section \<open>A job that goes on\<close>

text \<open>The goroutine \<open>g\<close> of the job \<open>i\<close>, which was not told to end, is at \<open>ph\<close>.\<close>

definition goes_on :: "('d, 'b) platform \<Rightarrow> nat \<Rightarrow> nat \<Rightarrow> phase \<Rightarrow> ('w, 'd) daemon \<Rightarrow> bool" where
  "goes_on P g i ph s \<longleftrightarrow>
     daemon_reachable P s \<and> g < length (sc_gos (dm_sched s)) \<and> sc_gos (dm_sched s) ! g = (i, ph)
     \<and> \<not> told_to_end (dm_sched s) i"

lemma goes_on_facts:
  assumes "goes_on P g i ph s"
  shows "i < length (sc_heap (dm_sched s))" "(i, ph) \<in> set (sc_gos (dm_sched s))" "ph \<noteq> Exited"
    and "\<not> executing ph \<Longrightarrow> \<exists>j'. begin_job (sc_heap (dm_sched s) ! i) = Some j'"
proof -
  have r: "daemon_reachable P s" using assms by (simp add: goes_on_def)
  show m: "(i, ph) \<in> set (sc_gos (dm_sched s))" using assms unfolding goes_on_def by (metis nth_mem)
  then show "i < length (sc_heap (dm_sched s))" using ownedD(4) [OF reachable_sched(1) [OF r], of i] by force
  show "ph \<noteq> Exited" using timelyD(2) [OF reachable_sched(3) [OF r]] m assms unfolding goes_on_def by blast
  show "\<exists>j'. begin_job (sc_heap (dm_sched s) ! i) = Some j'" if "\<not> executing ph"
    using guard_never_refuses [OF reachable_sched(1,2) [OF r] m that] by blast
qed

lemma goes_on_step:
  assumes "goes_on P g i ph s" "ph' \<noteq> Exited"
    and go: "go (Some (pt_store P)) (pt_jobs P) (sc_cancelled (dm_sched s)) (sc_now (dm_sched s))
           (sc_heap (dm_sched s) ! i, sc_db (dm_sched s), ph) (j', d', ph', out)"
  obtains t where "job_turn P g s t" "goes_on P g i ph' t" "sc_out (dm_sched t) = sc_out (dm_sched s) @ out"
    and "sc_now (dm_sched t) = sc_now (dm_sched s)" "sc_heap (dm_sched t) ! i = j'"
proof -
  note f = goes_on_facts [OF assms(1)] and a = assms(1) [unfolded goes_on_def]
  have g: "g < length (sc_gos (dm_sched s))" "sc_gos (dm_sched s) ! g = (i, ph)" using a by blast+
  obtain t where t: "job_turn P g s t" "sc_gos (dm_sched t) = (sc_gos (dm_sched s))[g := (i, ph')]"
    "sc_heap (dm_sched t) ! i = j'" "sc_out (dm_sched t) = sc_out (dm_sched s) @ out"
    "sc_now (dm_sched t) = sc_now (dm_sched s)" "sc_cancelled (dm_sched t) = sc_cancelled (dm_sched s)"
    using turn_goes [OF g f(1) go] by metis
  have "goes_on P g i ph' t"
    using a t go_keeps [OF go] reachable_background [OF _ job_turn_background [OF t(1)]]
    by (auto simp: goes_on_def told_to_end_def)
  with t that show thesis by blast
qed

lemma goes_on_tick:
  assumes "goes_on P g i ph s" "sc_now (dm_sched s) \<le> now"
  shows "goes_on P g i ph (s\<lparr>dm_sched := (dm_sched s)\<lparr>sc_now := now\<rparr>\<rparr>)"
  using assms reachable_background [OF _ background.BgTick [OF assms(2)]]
  by (auto simp: goes_on_def told_to_end_def)

text \<open>From wherever it is, its next execution can begin; and an execution can end with any result.\<close>

lemma waiting_fires:
  assumes "goes_on P g i (Waiting due) s"
  obtains t where "rtranclp (alone P g) s t" "goes_on P g i RunningOnTimer t" "sc_out (dm_sched t) = sc_out (dm_sched s)"
    and "sc_now (dm_sched t) = max (sc_now (dm_sched s)) due"
    and "\<exists>j'. begin_job (sc_heap (dm_sched s) ! i) = Some j' \<and> sc_heap (dm_sched t) ! i = j'"
proof -
  let ?now = "max (sc_now (dm_sched s)) due"
  let ?s = "s\<lparr>dm_sched := (dm_sched s)\<lparr>sc_now := ?now\<rparr>\<rparr>"
  have on: "goes_on P g i (Waiting due) ?s" by (rule goes_on_tick [OF assms]) simp
  have tick: "alone P g s ?s" by (rule alone.AloneTick) simp
  obtain j' where j': "begin_job (sc_heap (dm_sched s) ! i) = Some j'" using goes_on_facts(4) [OF assms] by auto
  have go: "go (Some (pt_store P)) (pt_jobs P) (sc_cancelled (dm_sched ?s)) (sc_now (dm_sched ?s))
      (sc_heap (dm_sched ?s) ! i, sc_db (dm_sched ?s), Waiting due) (j', sc_db (dm_sched ?s), RunningOnTimer, [])"
    by (rule go.GoFire) (simp_all add: j')
  obtain t where t: "job_turn P g ?s t" "goes_on P g i RunningOnTimer t" "sc_out (dm_sched t) = sc_out (dm_sched ?s)"
    "sc_now (dm_sched t) = sc_now (dm_sched ?s)" "sc_heap (dm_sched t) ! i = j'"
    by (rule goes_on_step [OF on _ go]) simp_all
  have "rtranclp (alone P g) s t" using tick alone.AloneTurn [OF t(1)] by (meson converse_rtranclp_into_rtranclp r_into_rtranclp)
  with t j' show thesis by (intro that [of t]) simp_all
qed

lemma next_execution:
  assumes "goes_on P g i ph s"
  obtains t ph' where "rtranclp (alone P g) s t" "goes_on P g i ph' t" "executing ph'"
    and "sc_out (dm_sched t) = sc_out (dm_sched s)"
proof -
  consider "executing ph" | due where "ph = Waiting due" | "ph = AtTop"
    using goes_on_facts(3) [OF assms] by (cases ph) auto
  then show thesis
  proof cases
    case 1
    with assms that show ?thesis by blast
  next
    case 2
    then show ?thesis using waiting_fires assms that by (metis executing.simps(2))
  next
    case 3
    obtain j1 where b: "begin_job (sc_heap (dm_sched s) ! i) = Some j1" using goes_on_facts(4) [OF assms] 3 by auto
    note on = assms [unfolded 3]
    show ?thesis
    proof (cases "runs_at_start (sc_heap (dm_sched s) ! i)")
      case True
      obtain t where "job_turn P g s t" "goes_on P g i RunningAtStart t" "sc_out (dm_sched t) = sc_out (dm_sched s) @ []"
        using goes_on_step [OF on _ go.GoStart [OF True b]] by blast
      then show ?thesis using that [of t RunningAtStart] by (auto intro: alone.AloneTurn)
    next
      case False
      obtain j2 ph2 where e: "enter_wait (sc_heap (dm_sched s) ! i) (sc_now (dm_sched s)) = (j2, ph2)" by (metis prod.collapse)
      then obtain due where w: "ph2 = Waiting due" using enter_wait_simps by blast
      obtain s1 where s1: "job_turn P g s s1" "goes_on P g i ph2 s1" "sc_out (dm_sched s1) = sc_out (dm_sched s) @ []"
        using goes_on_step [OF on _ go.GoWait [OF False e]] w by blast
      obtain t where "rtranclp (alone P g) s1 t" "goes_on P g i RunningOnTimer t" "sc_out (dm_sched t) = sc_out (dm_sched s1)"
        using waiting_fires [OF s1(2) [unfolded w]] by blast
      then show ?thesis
        using that [of t RunningOnTimer] s1 alone.AloneTurn [OF s1(1)] by (auto intro: converse_rtranclp_into_rtranclp)
    qed
  qed
qed

lemma end_job_result: "\<exists>j1 d'. end_job store C now (Some r, None) jd = ((j1, d'), Some r)"
  by (simp add: end_job_def case_prod_unfold Let_def)

lemma execution_ends:
  assumes "goes_on P g i ph s" "executing ph"
  obtains t ph' where "job_turn P g s t" "goes_on P g i ph' t" "sc_out (dm_sched t) = sc_out (dm_sched s) @ [r]"
proof -
  let ?S = "dm_sched s"
  obtain j1 d' where e: "end_job (Some (pt_store P)) (pt_jobs P) (sc_now ?S) (Some r, None) (sc_heap ?S ! i, sc_db ?S)
      = ((j1, d'), Some r)"
    by (metis end_job_result)
  obtain j2 ph2 where w: "enter_wait j1 (sc_now ?S) = (j2, ph2)" by (metis prod.collapse)
  then have ph2: "ph2 \<noteq> Exited" using enter_wait_simps by blast
  show thesis
    using assms(2)
  proof (cases ph)
    case RunningAtStart
    from goes_on_step [OF assms(1) [unfolded RunningAtStart] ph2 go.GoStarted [OF e w]] that show ?thesis by auto
  next
    case RunningOnTimer
    from goes_on_step [OF assms(1) [unfolded RunningOnTimer] _ go.GoFired [OF e refl]] that show ?thesis by auto
  qed simp_all
qed

section \<open>A schedule without a next time\<close>

text \<open>
  The cron library returns the zero time for a schedule it finds no match for. From its first timed
  execution on, a job with such a schedule is in one of these states.
\<close>

definition spinning :: "(int \<Rightarrow> int) \<Rightarrow> phase \<Rightarrow> job \<Rightarrow> bool" where
  "spinning c ph j \<longleftrightarrow>
     (\<exists>raw. jb_spec j = CronSpec c raw) \<and>
     (case ph of
        RunningOnTimer \<Rightarrow> True
      | AtTop \<Rightarrow> is_zero_time (jb_next j) \<and> \<not> is_zero_time (js_last_run (jb_state j))
      | Waiting t \<Rightarrow> is_zero_time t
      | RunningAtStart \<Rightarrow> False
      | Exited \<Rightarrow> True)"

lemma spinning_go:
  assumes "go store C cancelled now (j, d, ph) (j', d', ph', out)" "spinning c ph j" "\<And>t. c t = zero_time"
    and "zero_time < now" "\<not> executing ph \<Longrightarrow> begin_job j \<noteq> None"
  shows "spinning c ph' j'"
  using assms(1)
proof (cases rule: go.cases)
  case GoWait
  then show ?thesis
    using assms(2,3) by (auto simp: spinning_def enter_wait_def computeNextRun_def Let_def is_zero_time_def split: if_splits)
next
  case (GoFired outcome j1 ret)
  then show ?thesis
    using assms(2-4) end_job_running [OF GoFired(4)] by (auto simp: spinning_def computeNextRun_def is_zero_time_def)
qed (use assms in \<open>auto simp: spinning_def runs_at_start_def begin_job_def split: if_splits\<close>)

text \<open>The whole round, with any result, while the clock stands still.\<close>

lemma spinning_round:
  assumes "goes_on P g i RunningOnTimer s" "spinning c RunningOnTimer (sc_heap (dm_sched s) ! i)"
    and "\<And>t. c t = zero_time" "zero_time < sc_now (dm_sched s)"
  obtains t where "rtranclp (job_turn P g) s t" "goes_on P g i RunningOnTimer t"
    and "spinning c RunningOnTimer (sc_heap (dm_sched t) ! i)"
    and "sc_now (dm_sched t) = sc_now (dm_sched s)" "sc_out (dm_sched t) = sc_out (dm_sched s) @ [r]"
proof -
  let ?S = "dm_sched s" and ?now = "sc_now (dm_sched s)"
  obtain j1 d1 where e: "end_job (Some (pt_store P)) (pt_jobs P) ?now (Some r, None) (sc_heap ?S ! i, sc_db ?S) = ((j1, d1), Some r)"
    by (metis end_job_result)
  note go1 = go.GoFired [OF e refl, where cancelled = "sc_cancelled ?S"]
  obtain s1 where s1: "job_turn P g s s1" "goes_on P g i AtTop s1" "sc_out (dm_sched s1) = sc_out ?S @ [r]"
    "sc_now (dm_sched s1) = ?now" "sc_heap (dm_sched s1) ! i = j1\<lparr>jb_next := computeNextRun j1 ?now\<rparr>"
    by (rule goes_on_step [OF assms(1) _ go1]) simp_all
  have sp1: "spinning c AtTop (sc_heap (dm_sched s1) ! i)"
    unfolding s1(5) by (rule spinning_go [OF go1 assms(2-4)]) simp_all
  obtain j2 ph2 where w: "enter_wait (sc_heap (dm_sched s1) ! i) (sc_now (dm_sched s1)) = (j2, ph2)" by (metis prod.collapse)
  have "\<not> runs_at_start (sc_heap (dm_sched s1) ! i)" using sp1 by (simp add: spinning_def runs_at_start_def)
  note go2 = go.GoWait [OF this w]
  have sp2: "spinning c ph2 j2"
    by (rule spinning_go [OF go2 sp1 assms(3)]) (use s1(4) assms(4) goes_on_facts(4) [OF s1(2)] in auto)
  obtain due where due: "ph2 = Waiting due" using enter_wait_simps [OF w] by blast
  obtain s2 where s2: "job_turn P g s1 s2" "goes_on P g i (Waiting due) s2" "sc_out (dm_sched s2) = sc_out (dm_sched s1)"
    "sc_now (dm_sched s2) = sc_now (dm_sched s1)" "sc_heap (dm_sched s2) ! i = j2"
    by (rule goes_on_step [OF s1(2) _ go2 [unfolded due]]) simp_all
  obtain j3 where b: "begin_job (sc_heap (dm_sched s2) ! i) = Some j3" using goes_on_facts(4) [OF s2(2)] by auto
  have "due \<le> sc_now (dm_sched s2)" using sp2 assms(4) by (simp add: due spinning_def is_zero_time_def s2(4) s1(4))
  note go3 = go.GoFire [OF this b]
  obtain s3 where s3: "job_turn P g s2 s3" "goes_on P g i RunningOnTimer s3" "sc_out (dm_sched s3) = sc_out (dm_sched s2)"
    "sc_now (dm_sched s3) = sc_now (dm_sched s2)" "sc_heap (dm_sched s3) ! i = j3"
    by (rule goes_on_step [OF s2(2) _ go3]) simp_all
  have "spinning c RunningOnTimer j3"
    using sp2 b by (auto simp: spinning_def s2(5) begin_job_def split: if_splits)
  moreover have "rtranclp (job_turn P g) s s3"
    using s1(1) s2(1) s3(1) by (meson converse_rtranclp_into_rtranclp rtranclp.rtrancl_refl)
  ultimately show thesis using s1 s2 s3 by (intro that [of s3]) simp_all
qed

lemma spinning_alone:
  assumes "rtranclp (alone P g) s t" "daemon_reachable P s" "g < length (sc_gos (dm_sched s))"
    and "sc_gos (dm_sched s) ! g = (i, ph)" "spinning c ph (sc_heap (dm_sched s) ! i)" "\<And>t. c t = zero_time"
    and "zero_time < sc_now (dm_sched s)"
  shows "\<exists>ph'. g < length (sc_gos (dm_sched t)) \<and> sc_gos (dm_sched t) ! g = (i, ph')
    \<and> spinning c ph' (sc_heap (dm_sched t) ! i) \<and> zero_time < sc_now (dm_sched t)"
  using assms(1)
proof (induction rule: rtranclp_induct)
  case base
  then show ?case using assms by blast
next
  case (step t u)
  then obtain ph1 where t: "g < length (sc_gos (dm_sched t))" "sc_gos (dm_sched t) ! g = (i, ph1)"
    "spinning c ph1 (sc_heap (dm_sched t) ! i)" "zero_time < sc_now (dm_sched t)" by blast
  have r: "daemon_reachable P t" using reachable_alone [OF step.hyps(1) assms(2)] .
  have m: "(i, ph1) \<in> set (sc_gos (dm_sched t))" using t by (metis nth_mem)
  then have len: "i < length (sc_heap (dm_sched t))" using ownedD(4) [OF reachable_sched(1) [OF r], of i] by force
  from step.hyps(2) show ?case
  proof cases
    case AloneTurn
    then obtain out v d where st: "go_step (Some (pt_store P)) (pt_jobs P) (dm_sched t) g out v" "dm_sched u = v\<lparr>sc_db := d\<rparr>"
      by (rule job_turnE)
    obtain j' d' ph' where go: "go (Some (pt_store P)) (pt_jobs P) (sc_cancelled (dm_sched t)) (sc_now (dm_sched t))
        (sc_heap (dm_sched t) ! i, sc_db (dm_sched t), ph1) (j', d', ph', out)"
      and v: "v = (dm_sched t)\<lparr>sc_heap := (sc_heap (dm_sched t))[i := j'], sc_db := d',
          sc_gos := (sc_gos (dm_sched t))[g := (i, ph')], sc_out := sc_out (dm_sched t) @ out\<rparr>"
      using st(1) t(2) by (auto elim!: go_stepE)
    have "spinning c ph' j'"
      by (rule spinning_go [OF go t(3) assms(6) t(4)]) (use guard_never_refuses [OF reachable_sched(1,2) [OF r] m] in auto)
    then show ?thesis using st(2) v t len by simp
  next
    case (AloneTick now)
    then show ?thesis using t by auto
  qed
qed

lemma alone_keeps:
  assumes "rtranclp (alone P g) s t"
  shows "jb_spec (sc_heap (dm_sched t) ! k) = jb_spec (sc_heap (dm_sched s) ! k) \<and> sc_now (dm_sched s) \<le> sc_now (dm_sched t)"
  using assms
proof (induction rule: rtranclp_induct)
  case (step t u)
  from step.hyps(2) show ?case
  proof cases
    case AloneTurn
    then obtain out v d where st: "go_step (Some (pt_store P)) (pt_jobs P) (dm_sched t) g out v" "dm_sched u = v\<lparr>sc_db := d\<rparr>"
      by (rule job_turnE)
    from st(1) obtain i ph j' d' ph' where go: "go (Some (pt_store P)) (pt_jobs P) (sc_cancelled (dm_sched t))
        (sc_now (dm_sched t)) (sc_heap (dm_sched t) ! i, sc_db (dm_sched t), ph) (j', d', ph', out)"
      and v: "v = (dm_sched t)\<lparr>sc_heap := (sc_heap (dm_sched t))[i := j'], sc_db := d',
          sc_gos := (sc_gos (dm_sched t))[g := (i, ph')], sc_out := sc_out (dm_sched t) @ out\<rparr>"
      by (rule go_stepE)
    have "jb_spec (sc_heap (dm_sched u) ! k) = jb_spec (sc_heap (dm_sched t) ! k)"
      using go_keeps [OF go] st(2) v by (cases "k = i \<and> i < length (sc_heap (dm_sched t))") (auto simp: list_update_beyond)
    then show ?thesis using step.IH st(2) v by simp
  qed (use step.IH in auto)
qed simp

lemma reaches_timer:
  assumes "goes_on P g i ph s"
  obtains t where "rtranclp (alone P g) s t" "goes_on P g i RunningOnTimer t"
proof -
  obtain t ph1 where t: "rtranclp (alone P g) s t" "goes_on P g i ph1 t" "executing ph1"
    using assms by (rule next_execution)
  show thesis
  proof (cases ph1)
    case RunningAtStart
    note on = t(2) [unfolded RunningAtStart]
    let ?S = "dm_sched t"
    obtain j1 d1 where e: "end_job (Some (pt_store P)) (pt_jobs P) (sc_now ?S) (Some undefined, None) (sc_heap ?S ! i, sc_db ?S)
        = ((j1, d1), Some undefined)"
      by (metis end_job_result)
    obtain j2 ph2 where w: "enter_wait j1 (sc_now ?S) = (j2, ph2)" by (metis prod.collapse)
    then obtain due where due: "ph2 = Waiting due" using enter_wait_simps by blast
    obtain u where u: "job_turn P g t u" "goes_on P g i (Waiting due) u"
      using goes_on_step [OF on _ go.GoStarted [OF e w [unfolded due]]] by blast
    obtain v where "rtranclp (alone P g) u v" "goes_on P g i RunningOnTimer v" using waiting_fires [OF u(2)] by blast
    then show ?thesis
      using that t(1) alone.AloneTurn [OF u(1)] by (meson converse_rtranclp_into_rtranclp rtranclp_trans)
  qed (use t that in auto)
qed

section \<open>Sample runs\<close>

lemma entry_job: "enabled_jobs [scanner_entry name sched] = [job_of_scanner (scanner_entry name sched)]"
  by (simp add: enabled_jobs_def scanner_entry_def)

lemma entry_added:
  assumes "parseSchedule cron sched = Inr spec" "name \<noteq> []"
  shows "\<exists>j. AddJob cron store C (job_of_scanner (scanner_entry name sched)) (sched_init now d)
      = Inr ((sched_init now d)\<lparr>sc_heap := [j], sc_jobs := [(name, 0)]\<rparr>)
    \<and> jb_spec j = spec \<and> \<not> jb_started j \<and> \<not> jb_closed j"
  using assms by (simp add: AddJob_def new_job_def sched_init_def job_of_scanner_def scanner_entry_def Let_def run_simps normalize_config_def)

lemma started_entry:
  assumes "c_scanners cfg = [scanner_entry name sched]" "parseSchedule (pt_cron P) sched = Inr spec" "name \<noteq> []"
  shows "\<exists>j d. dm_sched (daemon_start P ps id now creds cfg path log0 d0)
      = (sched_init now d)\<lparr>sc_heap := [j\<lparr>jb_started := True\<rparr>], sc_jobs := [(name, 0)], sc_gos := [(0, AtTop)]\<rparr>
    \<and> jb_spec j = spec \<and> \<not> jb_closed j"
proof -
  obtain log1 d where s: "dm_sched (daemon_start P ps id now creds cfg path log0 d0)
      = Start id (fst (schedule_all P (enabled_jobs (c_scanners cfg)) (sched_init now d, log1)))"
    using daemon_start_sched [of P ps id now creds cfg path log0 d0] by blast
  obtain j where j: "AddJob (pt_cron P) (Some (pt_store P)) (pt_jobs P) (job_of_scanner (scanner_entry name sched)) (sched_init now d)
      = Inr ((sched_init now d)\<lparr>sc_heap := [j], sc_jobs := [(name, 0)]\<rparr>)" "jb_spec j = spec" "\<not> jb_started j" "\<not> jb_closed j"
    using entry_added [OF assms(2,3), of "Some (pt_store P)" "pt_jobs P" now d] by auto
  have "dm_sched (daemon_start P ps id now creds cfg path log0 d0)
      = Start id ((sched_init now d)\<lparr>sc_heap := [j], sc_jobs := [(name, 0)]\<rparr>)"
    unfolding s assms(1) entry_job by (simp add: j(1))
  also have "\<dots> = (sched_init now d)\<lparr>sc_heap := [j\<lparr>jb_started := True\<rparr>], sc_jobs := [(name, 0)], sc_gos := [(0, AtTop)]\<rparr>"
    using j(3) by (simp add: Start_def start_one_def sched_init_def)
  finally show ?thesis using j by blast
qed

lemma sample_started:
  "sc_gos (dm_sched sample_daemon) = [(0, AtTop)] \<and> \<not> sc_cancelled (dm_sched sample_daemon)
    \<and> \<not> jb_closed (sc_heap (dm_sched sample_daemon) ! 0) \<and> sc_out (dm_sched sample_daemon) = []
    \<and> sc_now (dm_sched sample_daemon) = 0"
proof -
  have c: "c_scanners start_config = [scanner_entry ''a'' ''1s'']" by (simp add: start_config_def)
  show ?thesis
    using started_entry [OF c sample_schedule, of sample_platform "[sample_plugin]" 0 root_process "''/etc/arcsent.json''"
        "[WithoutPrivilegeDrop, DaemonStarted]" "[]"]
    by (auto simp: sample_daemon_def sched_init_def)
qed

section \<open>Properties\<close>


definition sample_outcome :: scan_result where
  "sample_outcome = \<lparr>r_scanner = ''p'', r_status = StatusSuccess, r_findings = [], r_started = 0, r_finished = 0,
     r_duration = 0, r_metadata = []\<rparr>"




text \<open>C37 A job whose cron expression is accepted but never matches, such as the thirtieth of February, does not
  stay idle: its next run is the zero time, which is always past, so from its first timed execution on its
  goroutine never has to wait, and while the clock stands still it can run its plugin any number of times.\<close>

theorem unmatched_cron_spins:
  assumes "daemon_reachable P s" "g < length (sc_gos (dm_sched s))" "sc_gos (dm_sched s) ! g = (i, RunningOnTimer)"
    and "\<not> sc_cancelled (dm_sched s)" "\<not> jb_closed (sc_heap (dm_sched s) ! i)"
    and "jb_spec (sc_heap (dm_sched s) ! i) = CronSpec c raw" "\<And>t. c t = zero_time" "zero_time < sc_now (dm_sched s)"
  shows "(\<exists>t. rtranclp (job_turn P g) s t \<and> sc_now (dm_sched t) = sc_now (dm_sched s)
            \<and> sc_out (dm_sched t) = sc_out (dm_sched s) @ rs)
    \<and> (\<forall>t due. rtranclp (alone P g) s t \<and> sc_gos (dm_sched t) ! g = (i, Waiting due) \<longrightarrow> due \<le> sc_now (dm_sched t))"
proof -
  have on: "goes_on P g i RunningOnTimer s" using assms by (simp add: goes_on_def told_to_end_def)
  have sp: "spinning c RunningOnTimer (sc_heap (dm_sched s) ! i)" using assms(6) by (simp add: spinning_def)
  have "\<exists>t. rtranclp (job_turn P g) s t \<and> goes_on P g i RunningOnTimer t \<and> spinning c RunningOnTimer (sc_heap (dm_sched t) ! i)
      \<and> sc_now (dm_sched t) = sc_now (dm_sched s) \<and> sc_out (dm_sched t) = sc_out (dm_sched s) @ rs"
  proof (induction rs rule: rev_induct)
    case Nil
    show ?case using on sp by auto
  next
    case (snoc r rs)
    then obtain t where t: "rtranclp (job_turn P g) s t" "goes_on P g i RunningOnTimer t"
      "spinning c RunningOnTimer (sc_heap (dm_sched t) ! i)" "sc_now (dm_sched t) = sc_now (dm_sched s)"
      "sc_out (dm_sched t) = sc_out (dm_sched s) @ rs" by blast
    obtain u where "rtranclp (job_turn P g) t u" "goes_on P g i RunningOnTimer u"
      "spinning c RunningOnTimer (sc_heap (dm_sched u) ! i)" "sc_now (dm_sched u) = sc_now (dm_sched t)"
      "sc_out (dm_sched u) = sc_out (dm_sched t) @ [r]"
      using spinning_round [OF t(2,3) assms(7)] t(4) assms(8) by metis
    with t show ?case by (metis append_assoc rtranclp_trans)
  qed
  moreover have "due \<le> sc_now (dm_sched t)" if "rtranclp (alone P g) s t" "sc_gos (dm_sched t) ! g = (i, Waiting due)" for t due
    using spinning_alone [OF that(1) assms(1-3) sp assms(7,8)] that(2) by (auto simp: spinning_def is_zero_time_def)
  ultimately show ?thesis by blast
qed

text \<open>The thirtieth of February.\<close>

definition never_platform :: "(bool gomap, bool) platform" where
  "never_platform = sample_platform\<lparr>pt_cron := (\<lambda>e. Some (\<lambda>t. zero_time))\<rparr>"

definition never_config :: config where
  "never_config = Default\<lparr>c_api := serving (c_api Default), c_webui := serving (c_webui Default),
     c_scanners := [scanner_entry ''a'' ''* * 30 2 *'']\<rparr>"

definition never_daemon :: "(int, bool gomap) daemon" where
  "never_daemon = daemon_start never_platform [sample_plugin] id 0 root_process never_config ''/etc/arcsent.json''
     [WithoutPrivilegeDrop, DaemonStarted] []"

lemma never_run: "Run_start never_platform [sample_plugin] id 0 root_process never_config ''/etc/arcsent.json'' = Inr never_daemon"
  by (simp add: Run_start_def never_daemon_def check_integrity_def never_config_def Default_def
      never_platform_def sample_platform_def NewBadgerStoreWithKey_def)

lemma never_reachable: "daemon_reachable never_platform never_daemon"
proof -
  have "load_as never_config path = Inr never_config" for path
    by (rule load_as_valid, unfold never_config_def Validate_Default_scanners,
        simp add: validate_entry validate_endpoint_def serving_def Default_def)+
  then show ?thesis by (intro daemon_reachable.DaemonStart [OF _ _ never_run]) (auto simp: load_as_def)
qed

lemma never_schedule: "parseSchedule (pt_cron never_platform) ''* * 30 2 *'' = Inr (CronSpec (\<lambda>t. zero_time) ''* * 30 2 *'')"
proof -
  have "parse_duration ''* * 30 2 *'' = None" by code_simp
  then show ?thesis
    by (simp add: never_platform_def parseSchedule_def trim_space_def trim_left_def is_space_def every_prefix_def has_prefix_def)
qed


lemma never_started:
  "sc_gos (dm_sched never_daemon) = [(0, AtTop)] \<and> \<not> told_to_end (dm_sched never_daemon) 0
    \<and> jb_spec (sc_heap (dm_sched never_daemon) ! 0) = CronSpec (\<lambda>t. zero_time) ''* * 30 2 *''
    \<and> sc_now (dm_sched never_daemon) = 0"
proof -
  have c: "c_scanners never_config = [scanner_entry ''a'' ''* * 30 2 *'']" by (simp add: never_config_def)
  show ?thesis
    using started_entry [OF c never_schedule, of "[sample_plugin]" 0 root_process "''/etc/arcsent.json''"
        "[WithoutPrivilegeDrop, DaemonStarted]" "[]"]
    by (auto simp: never_daemon_def sched_init_def told_to_end_def)
qed

theorem unmatched_cron_spins_witness:
  "\<exists>s t. rtranclp (job_turn never_platform 0) s t \<and> sc_now (dm_sched t) = sc_now (dm_sched s)
     \<and> sc_out (dm_sched t) = sc_out (dm_sched s) @ [sample_outcome, sample_outcome]
     \<and> rtranclp (alone never_platform 0) never_daemon s"
proof -
  have "goes_on never_platform 0 0 AtTop never_daemon" using never_started never_reachable by (simp add: goes_on_def)
  then obtain s where s: "rtranclp (alone never_platform 0) never_daemon s" "goes_on never_platform 0 0 RunningOnTimer s"
    by (rule reaches_timer)
  have "jb_spec (sc_heap (dm_sched s) ! 0) = CronSpec (\<lambda>t. zero_time) ''* * 30 2 *''" "zero_time < sc_now (dm_sched s)"
    using alone_keeps [OF s(1), of 0] never_started by (simp_all add: zero_time_def)
  then have "\<exists>t. rtranclp (job_turn never_platform 0) s t \<and> sc_now (dm_sched t) = sc_now (dm_sched s)
     \<and> sc_out (dm_sched t) = sc_out (dm_sched s) @ [sample_outcome, sample_outcome]"
    using unmatched_cron_spins [of never_platform s 0 0 "\<lambda>t. zero_time" "''* * 30 2 *''" "[sample_outcome, sample_outcome]"] s(2)
    by (simp add: goes_on_def told_to_end_def)
  with s(1) show ?thesis by blast
qed

end
