(* ===== verification/SystemPlugins.thy ===== *)
theory SystemPlugins
  imports Daemon GoPath Privileges "HOL-Library.Word"
begin

text \<open>
  The eight plugins of \<open>internal/plugins/system\<close>: what \<open>Init\<close> takes from a scanner's configuration, and
  what \<open>Run\<close> makes of the files of \<open>/proc\<close>, the log, the disk and the file tree. A configuration comes
  from JSON, so its lists hold any values and its numbers are \<open>float64\<close>. The machine is a parameter: each
  call answers from its state, which it may change. \<open>strconv.ParseFloat\<close>, the text of a time and the
  texts of errors are parameters as well.
\<close>

section \<open>The machine\<close>

record statfs =
  st_blocks :: "64 word"
  st_bavail :: "64 word"
  st_bsize :: int

datatype plugin_error =
    ReadFailed string string
  | OpenLogFailed string
  | StatfsFailed string string
  | CpuLineInvalid
  | CpuValueInvalid string
  | CpuLineMissing
  | MeminfoMissing
  | LoadavgFormat
  | LoadavgValue string string
  | RunningFormat
  | UptimeFormat
  | UptimeValue string string

text \<open>
  \<open>mc_walk\<close> lists the visits of \<open>filepath.WalkDir\<close> to a callback that never fails: path, whether it is
  a directory, and the error handed to the callback. \<open>mc_open\<close> is opening a file and reading it.
\<close>

record 'h machine =
  mc_now :: "'h \<Rightarrow> int"
  mc_sleep :: "int \<Rightarrow> 'h \<Rightarrow> 'h"
  mc_read :: "string \<Rightarrow> 'h \<Rightarrow> (string, string) result \<times> 'h"
  mc_open :: "string \<Rightarrow> 'h \<Rightarrow> file_read \<times> 'h"
  mc_statfs :: "string \<Rightarrow> 'h \<Rightarrow> (string, statfs) result \<times> 'h"
  mc_readdir :: "string \<Rightarrow> 'h \<Rightarrow> (string, (string \<times> bool) list) result \<times> 'h"
  mc_readlink :: "string \<Rightarrow> 'h \<Rightarrow> (string, string) result \<times> 'h"
  mc_walk :: "string \<Rightarrow> 'h \<Rightarrow> (string \<times> bool \<times> string option) list \<times> 'h"
  mc_rfc3339 :: "int \<Rightarrow> string"
  mc_float :: "string \<Rightarrow> f64 option"
  mc_sha256 :: "string \<Rightarrow> nat list"
  mc_error :: "plugin_error \<Rightarrow> string"

text \<open>A computation on the machine that may fail, and going on when it did not.\<close>

type_synonym ('h, 'a) probe = "'h \<Rightarrow> (plugin_error, 'a) result \<times> 'h"

definition probe_then :: "('h, 'a) probe \<Rightarrow> ('a \<Rightarrow> ('h, 'b) probe) \<Rightarrow> ('h, 'b) probe" where
  "probe_then p f h = (case p h of (Inl e, h') \<Rightarrow> (Inl e, h') | (Inr a, h') \<Rightarrow> f a h')"

definition probe_return :: "(plugin_error, 'a) result \<Rightarrow> ('h, 'a) probe" where
  "probe_return r h = (r, h)"

definition read_file :: "'h machine \<Rightarrow> string \<Rightarrow> string \<Rightarrow> ('h, string) probe" where
  "read_file M what path h =
     (case mc_read M path h of (Inl e, h') \<Rightarrow> (Inl (ReadFailed what e), h') | (Inr raw, h') \<Rightarrow> (Inr raw, h'))"

definition timestamp :: "'h machine \<Rightarrow> 'h \<Rightarrow> string \<times> dyn" where
  "timestamp M h = (''timestamp'', DynStr (mc_rfc3339 M (mc_now M h)))"

definition success :: "string \<Rightarrow> finding list \<Rightarrow> dyn gomap \<Rightarrow> scan_result" where
  "success name fs meta =
     \<lparr>r_scanner = name, r_status = StatusSuccess, r_findings = fs, r_started = zero_time, r_finished = zero_time,
      r_duration = 0, r_metadata = meta\<rparr>"

section \<open>Configuration\<close>

definition cfg_string :: "dyn gomap \<Rightarrow> string \<Rightarrow> string option" where
  "cfg_string cfg k = (case map_of cfg k of Some (DynStr s) \<Rightarrow> if s = [] then None else Some s | _ \<Rightarrow> None)"

definition cfg_positive :: "dyn gomap \<Rightarrow> string \<Rightarrow> f64 option" where
  "cfg_positive cfg k =
     (case map_of cfg k of Some (DynFloat x) \<Rightarrow> if f_lt (Fin 0) x then Some x else None | _ \<Rightarrow> None)"

definition cfg_bool :: "dyn gomap \<Rightarrow> string \<Rightarrow> bool option" where
  "cfg_bool cfg k = (case map_of cfg k of Some (DynOther (JBool b)) \<Rightarrow> Some b | _ \<Rightarrow> None)"

text \<open>The list under a key, and its non-empty strings.\<close>

definition cfg_list :: "dyn gomap \<Rightarrow> string \<Rightarrow> json list option" where
  "cfg_list cfg k = (case map_of cfg k of Some (DynOther (JArr xs)) \<Rightarrow> Some xs | _ \<Rightarrow> None)"

definition json_strings :: "json list \<Rightarrow> string list" where
  "json_strings xs = List.map_filter (\<lambda>j. case j of JStr s \<Rightarrow> if s = [] then None else Some s | _ \<Rightarrow> None) xs"

text \<open>\<open>int(v)\<close> of a \<open>float64\<close>: towards zero, and on amd64 the smallest integer when out of range.\<close>

definition int_of_f64 :: "f64 \<Rightarrow> int" where
  "int_of_f64 x =
     (case x of
        Fin q \<Rightarrow> let i = (if q < 0 then \<lceil>q\<rceil> else \<lfloor>q\<rfloor>) in if i < min_int64 \<or> max_int64 < i then min_int64 else i
      | _ \<Rightarrow> min_int64)"

record sys_config =
  sc_sample_ms :: int
  sc_include_swap :: bool
  sc_disk_path :: string
  sc_warn :: f64
  sc_crit :: f64
  sc_paths :: "string list"
  sc_prefixes :: "string list"
  sc_log_path :: string
  sc_patterns :: "string list"
  sc_max_lines :: int
  sc_tcp_path :: string
  sc_udp_path :: string

text \<open>The plugins before any call of \<open>Init\<close>: the zero values of their structures.\<close>

definition sys_zero :: sys_config where
  "sys_zero =
     \<lparr>sc_sample_ms = 0, sc_include_swap = False, sc_disk_path = [], sc_warn = Fin 0, sc_crit = Fin 0, sc_paths = [],
      sc_prefixes = [], sc_log_path = [], sc_patterns = [], sc_max_lines = 0, sc_tcp_path = [], sc_udp_path = []\<rparr>"

text \<open>Each \<open>Init\<close> sets its part, also when it then returns an error.\<close>

definition init_cpu :: "dyn gomap \<Rightarrow> sys_config \<Rightarrow> string option \<times> sys_config" where
  "init_cpu cfg s =
     (let ms = (case cfg_positive cfg ''sample_ms'' of Some v \<Rightarrow> int_of_f64 v | None \<Rightarrow> 200);
          swap = (case cfg_bool cfg ''include_swap'' of Some b \<Rightarrow> b | None \<Rightarrow> True)
      in (if ms \<le> 0 then Some ''sample_ms must be > 0'' else None, s\<lparr>sc_sample_ms := ms, sc_include_swap := swap\<rparr>))"

definition init_disk :: "dyn gomap \<Rightarrow> sys_config \<Rightarrow> string option \<times> sys_config" where
  "init_disk cfg s =
     (let path = (case cfg_string cfg ''path'' of Some v \<Rightarrow> v | None \<Rightarrow> ''/'');
          warn = (case cfg_positive cfg ''warn_percent'' of Some v \<Rightarrow> v | None \<Rightarrow> Fin 85);
          crit = (case cfg_positive cfg ''crit_percent'' of Some v \<Rightarrow> v | None \<Rightarrow> Fin 95)
      in (if f_le crit warn then Some ''warn_percent must be less than crit_percent'' else None,
          s\<lparr>sc_disk_path := path, sc_warn := warn, sc_crit := crit\<rparr>))"

definition init_files :: "dyn gomap \<Rightarrow> sys_config \<Rightarrow> string option \<times> sys_config" where
  "init_files cfg s =
     (let paths = (case cfg_list cfg ''paths'' of Some xs \<Rightarrow> json_strings xs | None \<Rightarrow> [''/etc'', ''/bin''])
      in (if paths = [] then Some ''paths must not be empty'' else None, s\<lparr>sc_paths := paths\<rparr>))"

definition init_process :: "dyn gomap \<Rightarrow> sys_config \<Rightarrow> string option \<times> sys_config" where
  "init_process cfg s =
     (None, s\<lparr>sc_prefixes := (case cfg_list cfg ''whitelist_prefixes'' of Some xs \<Rightarrow> json_strings xs | None \<Rightarrow> [])\<rparr>)"

definition default_patterns :: "string list" where
  "default_patterns = [''Failed password'', ''authentication failure'', ''Invalid user'']"

definition init_auth :: "dyn gomap \<Rightarrow> sys_config \<Rightarrow> string option \<times> sys_config" where
  "init_auth cfg s =
     (None,
      s\<lparr>sc_log_path := (case cfg_string cfg ''path'' of Some v \<Rightarrow> v | None \<Rightarrow> ''/var/log/auth.log''),
        sc_patterns := (case cfg_list cfg ''failed_patterns'' of
            Some xs \<Rightarrow> if xs = [] then default_patterns else json_strings xs | None \<Rightarrow> default_patterns),
        sc_max_lines := (case cfg_positive cfg ''max_lines'' of Some v \<Rightarrow> int_of_f64 v | None \<Rightarrow> 500)\<rparr>)"

definition init_network :: "dyn gomap \<Rightarrow> sys_config \<Rightarrow> string option \<times> sys_config" where
  "init_network cfg s =
     (None,
      s\<lparr>sc_tcp_path := (case cfg_string cfg ''tcp_path'' of Some v \<Rightarrow> v | None \<Rightarrow> ''/proc/net/tcp''),
        sc_udp_path := (case cfg_string cfg ''udp_path'' of Some v \<Rightarrow> v | None \<Rightarrow> ''/proc/net/udp'')\<rparr>)"

text \<open>A call of \<open>Init\<close> of the plugin of a name; the remaining two have nothing to set.\<close>

definition system_init :: "string \<times> dyn gomap \<Rightarrow> sys_config \<Rightarrow> string option \<times> sys_config" where
  "system_init call s =
     (case call of (name, cfg) \<Rightarrow>
        if name = ''system.cpu_memory'' then init_cpu cfg s
        else if name = ''system.disk_usage'' then init_disk cfg s
        else if name = ''system.file_integrity'' then init_files cfg s
        else if name = ''system.process_monitor'' then init_process cfg s
        else if name = ''system.auth_log'' then init_auth cfg s
        else if name = ''system.network_listeners'' then init_network cfg s
        else (None, s))"

text \<open>There is one object per plugin: the calls of \<open>Init\<close> of all scanners meet in it.\<close>

definition configured :: "(string \<times> dyn gomap) list \<Rightarrow> sys_config" where
  "configured calls = foldl (\<lambda>s call. snd (system_init call s)) sys_zero calls"

section \<open>Processor and memory\<close>

text \<open>\<open>strconv.ParseUint(s, 10, 64)\<close>\<close>

definition parse_uint64 :: "string \<Rightarrow> 64 word option" where
  "parse_uint64 s =
     (if s = [] \<or> \<not> list_all is_digit s \<or> digits_val s \<ge> 2 ^ 64 then None else Some (of_nat (digits_val s)))"

record cpu_stat =
  cs_total :: "64 word"
  cs_idle :: "64 word"

definition cpu_value :: "string \<Rightarrow> (plugin_error, 64 word) result" where
  "cpu_value p = (case parse_uint64 p of None \<Rightarrow> Inl (CpuValueInvalid p) | Some v \<Rightarrow> Inr v)"

definition parseCPUStat :: "string \<Rightarrow> (plugin_error, cpu_stat) result" where
  "parseCPUStat raw =
     (case find (\<lambda>line. has_prefix line ''cpu '') (split_on newline raw) of
        None \<Rightarrow> Inl CpuLineMissing
      | Some line \<Rightarrow>
          let parts = str_fields line in
          if length parts < 5 then Inl CpuLineInvalid
          else bind_res (map_res cpu_value (tl parts)) (\<lambda>values.
            let idle = values ! 3 in
            Inr \<lparr>cs_total = sum_list values, cs_idle = (if length values > 4 then idle + values ! 4 else idle)\<rparr>))"

record meminfo =
  mi_total :: "64 word"
  mi_available :: "64 word"
  mi_swap_total :: "64 word"
  mi_swap_free :: "64 word"

definition mem_line :: "meminfo \<Rightarrow> string \<Rightarrow> meminfo" where
  "mem_line info line =
     (let fields = str_fields line in
      if length fields < 2 then info
      else let key = (if has_suffix (fields ! 0) '':'' then butlast (fields ! 0) else fields ! 0) in
        case parse_uint64 (fields ! 1) of
          None \<Rightarrow> info
        | Some value \<Rightarrow>
            let bytes = value * 1024 in
            if key = ''MemTotal'' then info\<lparr>mi_total := bytes\<rparr>
            else if key = ''MemAvailable'' then info\<lparr>mi_available := bytes\<rparr>
            else if key = ''SwapTotal'' then info\<lparr>mi_swap_total := bytes\<rparr>
            else if key = ''SwapFree'' then info\<lparr>mi_swap_free := bytes\<rparr>
            else info)"

definition parseMeminfo :: "string \<Rightarrow> (plugin_error, meminfo) result" where
  "parseMeminfo raw =
     (let info = foldl mem_line \<lparr>mi_total = 0, mi_available = 0, mi_swap_total = 0, mi_swap_free = 0\<rparr> (split_on newline raw)
      in if mi_total info = 0 \<or> mi_available info = 0 then Inl MeminfoMissing else Inr info)"

text \<open>\<open>float64(x)\<close> of a \<open>uint64\<close>, and the percentages of \<open>Run\<close>.\<close>

definition f_of_uint64 :: "64 word \<Rightarrow> f64" where
  "f_of_uint64 w = f_of_int (uint w)"

definition percent :: "64 word \<Rightarrow> 64 word \<Rightarrow> f64" where
  "percent part whole = f_mul (f_div (f_of_uint64 part) (f_of_uint64 whole)) (Fin 100)"

definition cpu_usage :: "cpu_stat \<Rightarrow> cpu_stat \<Rightarrow> f64" where
  "cpu_usage first scnd =
     (let deltaTotal = cs_total scnd - cs_total first;
          deltaIdle = cs_idle scnd - cs_idle first
      in if deltaTotal > 0 then percent (deltaTotal - deltaIdle) deltaTotal else Fin 0)"

definition dyn_uint64 :: "64 word \<Rightarrow> dyn" where
  "dyn_uint64 w = DynInt (uint w)"

definition run_cpu_memory :: "'h machine \<Rightarrow> sys_config \<Rightarrow> ('h, scan_result) probe" where
  "run_cpu_memory M c h0 =
     probe_then (read_file M ''read /proc/stat'' ''/proc/stat'') (\<lambda>raw1.
     probe_then (probe_return (parseCPUStat raw1)) (\<lambda>first.
     probe_then (\<lambda>h. (Inr (), mc_sleep M (mul64 (sc_sample_ms c) millisecond) h)) (\<lambda>_.
     probe_then (read_file M ''read /proc/stat'' ''/proc/stat'') (\<lambda>raw2.
     probe_then (probe_return (parseCPUStat raw2)) (\<lambda>scnd.
     probe_then (read_file M ''read /proc/meminfo'' ''/proc/meminfo'') (\<lambda>raw3.
     probe_then (probe_return (parseMeminfo raw3)) (\<lambda>mem h.
       (let memUsed = mi_total mem - mi_available mem;
            memUsedPct = (if mi_total mem > 0 then percent memUsed (mi_total mem) else Fin 0);
            metadata = [(''cpu_usage_pct'', DynFloat (cpu_usage first scnd)), (''mem_used_pct'', DynFloat memUsedPct),
              (''mem_total_bytes'', dyn_uint64 (mi_total mem)), (''mem_used_bytes'', dyn_uint64 memUsed),
              (''sample_ms'', DynInt (sc_sample_ms c)), timestamp M h];
            swapUsed = mi_swap_total mem - mi_swap_free mem;
            metadata' = (if sc_include_swap c \<and> mi_swap_total mem > 0
              then metadata @ [(''swap_used_pct'', DynFloat (percent swapUsed (mi_swap_total mem))),
                (''swap_used_bytes'', dyn_uint64 swapUsed), (''swap_total_bytes'', dyn_uint64 (mi_swap_total mem))]
              else metadata)
        in (Inr ((success ''system.cpu_memory'' [] metadata')\<lparr>r_started := mc_now M h0, r_finished := mc_now M h,
              r_duration := time_sub (mc_now M h) (mc_now M h0)\<rparr>), h))))))))) h0"

section \<open>Disk\<close>

text \<open>\<open>%.2f\<close>: two decimals of the exact value, ties to even.\<close>

definition fmt_f2 :: "f64 \<Rightarrow> string" where
  "fmt_f2 x =
     (case x of
        NaN \<Rightarrow> ''NaN'' | PosInf \<Rightarrow> ''+Inf'' | NegInf \<Rightarrow> ''-Inf''
      | Fin q \<Rightarrow>
          let n = nat (round_half_even (\<bar>q\<bar> * 100));
              m = show_nat (n div 100) @ ''.'' @ pad_zeros 2 (show_nat (n mod 100))
          in if q < 0 then CHR ''-'' # m else m)"

definition disk_finding :: "bool \<Rightarrow> string \<Rightarrow> f64 \<Rightarrow> finding" where
  "disk_finding critical path used_pct =
     \<lparr>f_id = (if critical then ''disk_usage_critical'' else ''disk_usage_warning''),
      f_severity = (if critical then SeverityCritical else SeverityMedium), f_category = ''resource'',
      f_description = ''Disk usage '' @ fmt_f2 used_pct @ ''% exceeds '' @
        (if critical then ''critical'' else ''warning'') @ '' threshold'',
      f_evidence = [(''path'', DynStr path), (''used_pct'', DynFloat used_pct)],
      f_remediation = (if critical then ''Free disk space or expand storage.'' else ''Investigate disk usage growth.'')\<rparr>"

definition run_disk_usage :: "'h machine \<Rightarrow> sys_config \<Rightarrow> ('h, scan_result) probe" where
  "run_disk_usage M c h0 =
     (case mc_statfs M (sc_disk_path c) h0 of
        (Inl e, h) \<Rightarrow> (Inl (StatfsFailed (sc_disk_path c) e), h)
      | (Inr stat, h) \<Rightarrow>
          let total = f_mul (f_of_uint64 (st_blocks stat)) (f_of_int (st_bsize stat));
              free = f_mul (f_of_uint64 (st_bavail stat)) (f_of_int (st_bsize stat));
              used = f_sub total free;
              usedPct = (if f_lt (Fin 0) total then f_mul (f_div used total) (Fin 100) else Fin 0);
              findings = (if f_le (sc_crit c) usedPct then [disk_finding True (sc_disk_path c) usedPct]
                else if f_le (sc_warn c) usedPct then [disk_finding False (sc_disk_path c) usedPct] else [])
          in (Inr (success ''system.disk_usage'' findings
                [(''path'', DynStr (sc_disk_path c)), (''total'', DynFloat total), (''used'', DynFloat used),
                 (''used_pct'', DynFloat usedPct), (''warn_pct'', DynFloat (sc_warn c)),
                 (''crit_pct'', DynFloat (sc_crit c)), timestamp M h]), h))"

section \<open>File integrity\<close>

definition hashFile :: "'h machine \<Rightarrow> string \<Rightarrow> 'h \<Rightarrow> (string, string) result \<times> 'h" where
  "hashFile M path h =
     (case mc_open M path h of
        (OpenFails e, h') \<Rightarrow> (Inl e, h')
      | (ReadsTo content (Some e), h') \<Rightarrow> (Inl e, h')
      | (ReadsTo content None, h') \<Rightarrow>
          (Inr (concat (map (\<lambda>b. [hex_digit (b div 16), hex_digit (b mod 16)]) (mc_sha256 M content))), h'))"

definition file_finding :: "bool \<Rightarrow> string \<Rightarrow> string \<Rightarrow> finding" where
  "file_finding access path err =
     \<lparr>f_id = (if access then ''file_access_error'' else ''file_hash_error''), f_severity = SeverityLow,
      f_category = ''file_integrity'',
      f_description = (if access then ''Failed to access '' else ''Failed to hash '') @ path,
      f_evidence = [(''path'', DynStr path), (''error'', DynStr err)],
      f_remediation = (if access then ''Verify file permissions and integrity.'' else ''Verify file readability.'')\<rparr>"

definition hash_visit ::
  "'h machine \<Rightarrow> finding list \<times> string gomap \<times> 'h \<Rightarrow> string \<times> bool \<times> string option
     \<Rightarrow> finding list \<times> string gomap \<times> 'h" where
  "hash_visit M st v =
     (case (st, v) of ((fs, hashes, h), (path, is_dir, err)) \<Rightarrow>
        case err of
          Some e \<Rightarrow> (fs @ [file_finding True path e], hashes, h)
        | None \<Rightarrow>
            if is_dir then (fs, hashes, h)
            else (case hashFile M path h of
                    (Inl e, h') \<Rightarrow> (fs @ [file_finding False path e], hashes, h')
                  | (Inr hash, h') \<Rightarrow> (fs, obj_set hashes path hash, h')))"

definition hash_root ::
  "'h machine \<Rightarrow> finding list \<times> string gomap \<times> 'h \<Rightarrow> string \<Rightarrow> finding list \<times> string gomap \<times> 'h" where
  "hash_root M st dir =
     (case st of (fs, hashes, h) \<Rightarrow>
        case mc_walk M dir h of (visits, h') \<Rightarrow> foldl (hash_visit M) (fs, hashes, h') visits)"

text \<open>The map of hashes is encoded with its keys sorted.\<close>

definition hashes_doc :: "string gomap \<Rightarrow> json" where
  "hashes_doc m = JObj (foldr (\<lambda>(k, v) acc. key_insert k (JStr v) acc) m [])"

definition run_file_integrity :: "'h machine \<Rightarrow> sys_config \<Rightarrow> ('h, scan_result) probe" where
  "run_file_integrity M c h0 =
     (case foldl (hash_root M) ([], [], h0) (sc_paths c) of (fs, hashes, h) \<Rightarrow>
        (Inr (success ''system.file_integrity'' fs [timestamp M h0, (''hashes'', DynOther (hashes_doc hashes))]), h))"

section \<open>Load and uptime\<close>

definition float_field ::
  "'h machine \<Rightarrow> (string \<Rightarrow> plugin_error) \<Rightarrow> string \<Rightarrow> (plugin_error, f64) result" where
  "float_field M err s = (case mc_float M s of None \<Rightarrow> Inl (err s) | Some x \<Rightarrow> Inr x)"

definition int_field :: "(string \<Rightarrow> plugin_error) \<Rightarrow> string \<Rightarrow> (plugin_error, int) result" where
  "int_field err s = (case atoi s of None \<Rightarrow> Inl (err s) | Some x \<Rightarrow> Inr x)"

text \<open>The value of \<open>strconv.Atoi\<close> when its error is dropped: zero, or the nearest bound when out of range.\<close>

definition atoi_value :: "string \<Rightarrow> int" where
  "atoi_value s =
     (let neg = has_prefix s ''-'';
          ds = (if neg \<or> has_prefix s ''+'' then drop 1 s else s);
          v = (if neg then - int (digits_val ds) else int (digits_val ds))
      in if ds = [] \<or> \<not> list_all is_digit ds then 0 else max min_int64 (min max_int64 v))"

record load_avg =
  la_load1 :: f64
  la_load5 :: f64
  la_load15 :: f64
  la_runnable :: int
  la_threads :: int
  la_last_pid :: int

definition parseLoadAvg :: "'h machine \<Rightarrow> string \<Rightarrow> (plugin_error, load_avg) result" where
  "parseLoadAvg M raw =
     (let fields = str_fields raw in
      if length fields < 4 then Inl LoadavgFormat
      else
        bind_res (float_field M (LoadavgValue ''load1'') (fields ! 0)) (\<lambda>load1.
        bind_res (float_field M (LoadavgValue ''load5'') (fields ! 1)) (\<lambda>load5.
        bind_res (float_field M (LoadavgValue ''load15'') (fields ! 2)) (\<lambda>load15.
        let running = split_on (CHR ''/'') (fields ! 3) in
        if length running \<noteq> 2 then Inl RunningFormat
        else
          bind_res (int_field (LoadavgValue ''runnable'') (running ! 0)) (\<lambda>runnable.
          bind_res (int_field (LoadavgValue ''total threads'') (running ! 1)) (\<lambda>threads.
          Inr \<lparr>la_load1 = load1, la_load5 = load5, la_load15 = load15, la_runnable = runnable, la_threads = threads,
               la_last_pid = (if length fields > 4 then atoi_value (fields ! 4) else 0)\<rparr>))))))"

definition run_load_avg :: "'h machine \<Rightarrow> sys_config \<Rightarrow> ('h, scan_result) probe" where
  "run_load_avg M c h0 =
     probe_then (read_file M ''read /proc/loadavg'' ''/proc/loadavg'') (\<lambda>raw.
     probe_then (probe_return (parseLoadAvg M raw)) (\<lambda>avg h.
       (Inr ((success ''system.load_avg'' []
          [(''load1'', DynFloat (la_load1 avg)), (''load5'', DynFloat (la_load5 avg)), (''load15'', DynFloat (la_load15 avg)),
           (''runnable'', DynInt (la_runnable avg)), (''total_threads'', DynInt (la_threads avg)),
           (''last_pid'', DynInt (la_last_pid avg)), timestamp M h])
          \<lparr>r_started := mc_now M h0, r_finished := mc_now M h, r_duration := time_sub (mc_now M h) (mc_now M h0)\<rparr>), h))) h0"

definition parseUptime :: "'h machine \<Rightarrow> string \<Rightarrow> (plugin_error, f64 \<times> f64) result" where
  "parseUptime M raw =
     (let fields = str_fields raw in
      if length fields < 2 then Inl UptimeFormat
      else
        bind_res (float_field M (UptimeValue ''uptime'') (fields ! 0)) (\<lambda>uptime.
        bind_res (float_field M (UptimeValue ''idle'') (fields ! 1)) (\<lambda>idle. Inr (uptime, idle))))"

definition run_uptime :: "'h machine \<Rightarrow> sys_config \<Rightarrow> ('h, scan_result) probe" where
  "run_uptime M c h0 =
     probe_then (read_file M ''read /proc/uptime'' ''/proc/uptime'') (\<lambda>raw.
     probe_then (probe_return (parseUptime M raw)) (\<lambda>info h.
       (Inr ((success ''system.uptime'' []
          [(''uptime_seconds'', DynFloat (fst info)), (''idle_seconds'', DynFloat (snd info)), timestamp M h])
          \<lparr>r_started := mc_now M h0, r_finished := mc_now M h, r_duration := time_sub (mc_now M h) (mc_now M h0)\<rparr>), h))) h0"

section \<open>Network listeners\<close>

definition countListeners :: "string \<Rightarrow> nat" where
  "countListeners data =
     length (filter (\<lambda>line. let fields = str_fields line in 4 \<le> length fields \<and> fields ! 3 \<in> {''0A'', ''07''})
       (tl (split_on newline data)))"

definition run_network_listeners :: "'h machine \<Rightarrow> sys_config \<Rightarrow> ('h, scan_result) probe" where
  "run_network_listeners M c =
     probe_then (read_file M ''read tcp'' (sc_tcp_path c)) (\<lambda>tcp.
     probe_then (read_file M ''read udp'' (sc_udp_path c)) (\<lambda>udp h.
       (Inr (success ''system.network_listeners'' []
          [timestamp M h, (''tcp_count'', DynInt (int (countListeners tcp))),
           (''udp_count'', DynInt (int (countListeners udp)))]), h)))"

section \<open>Processes\<close>

definition hasPrefix :: "string \<Rightarrow> string list \<Rightarrow> bool" where
  "hasPrefix value prefixes = list_ex (has_prefix value) prefixes"

definition process_finding :: "int \<Rightarrow> string \<Rightarrow> finding" where
  "process_finding pid exe =
     \<lparr>f_id = ''process_not_whitelisted'', f_severity = SeverityMedium, f_category = ''process'',
      f_description = ''Process executable not in whitelist'',
      f_evidence = [(''pid'', DynInt pid), (''exe'', DynStr exe)],
      f_remediation = ''Verify the process is expected or update the whitelist.''\<rparr>"

definition process_entry ::
  "'h machine \<Rightarrow> string list \<Rightarrow> finding list \<times> nat \<times> 'h \<Rightarrow> string \<times> bool \<Rightarrow> finding list \<times> nat \<times> 'h" where
  "process_entry M prefixes st entry =
     (case (st, entry) of ((fs, n, h), (name, is_dir)) \<Rightarrow>
        if \<not> is_dir then (fs, n, h)
        else case atoi name of
          None \<Rightarrow> (fs, n, h)
        | Some pid \<Rightarrow>
            if pid \<le> 0 then (fs, n, h)
            else (case mc_readlink M (filepath_join (filepath_join ''/proc'' name) ''exe'') h of
                    (Inl e, h') \<Rightarrow> (fs, Suc n, h')
                  | (Inr exe, h') \<Rightarrow>
                      if prefixes = [] then (fs, Suc n, h')
                      else (if hasPrefix exe prefixes then fs else fs @ [process_finding pid exe], Suc n, h')))"

definition run_process_monitor :: "'h machine \<Rightarrow> sys_config \<Rightarrow> ('h, scan_result) probe" where
  "run_process_monitor M c h0 =
     (case mc_readdir M ''/proc'' h0 of
        (Inl e, h) \<Rightarrow> (Inl (ReadFailed ''read /proc'' e), h)
      | (Inr entries, h) \<Rightarrow>
          (case foldl (process_entry M (sc_prefixes c)) ([], 0, h) entries of (fs, n, h') \<Rightarrow>
            (Inr (success ''system.process_monitor'' fs
               [timestamp M h0, (''processes'', DynInt (int n)),
                (''whitelist_prefixes'', DynStr (join_with '','' (sc_prefixes c)))]), h')))"

section \<open>Authentication log\<close>

text \<open>The loop over the scanner's lines, which keeps the last ones.\<close>

definition keep_line :: "int \<Rightarrow> string list \<Rightarrow> string \<Rightarrow> string list" where
  "keep_line maxLines lines line =
     (let lines' = lines @ [line] in if int (length lines') > maxLines then tl lines' else lines')"

definition readLastLines :: "string \<Rightarrow> int \<Rightarrow> string list" where
  "readLastLines content maxLines = foldl (keep_line maxLines) [] (fst (scan_lines content))"

definition auth_finding :: "string \<Rightarrow> finding" where
  "auth_finding line =
     \<lparr>f_id = ''auth_failed'', f_severity = SeverityMedium, f_category = ''auth'',
      f_description = ''Authentication failure detected'', f_evidence = [(''line'', DynStr line)],
      f_remediation = ''Review auth logs and block suspicious sources.''\<rparr>"

definition run_auth_log :: "'h machine \<Rightarrow> sys_config \<Rightarrow> ('h, scan_result) probe" where
  "run_auth_log M c h0 =
     (case mc_open M (sc_log_path c) h0 of
        (OpenFails e, h) \<Rightarrow> (Inl (OpenLogFailed e), h)
      | (ReadsTo content err, h) \<Rightarrow>
          let lines = readLastLines content (sc_max_lines c);
              findings = map auth_finding (filter (\<lambda>line. list_ex (str_contains line) (sc_patterns c)) lines)
          in (Inr (success ''system.auth_log'' findings
                [(''path'', DynStr (sc_log_path c)), timestamp M h, (''lines_scanned'', DynInt (int (length lines)))]), h))"

section \<open>The plugins\<close>

text \<open>The world of the plugins: their objects, which \<open>Init\<close> set, and the machine's state.\<close>

record 'h sys_world =
  sw_config :: sys_config
  sw_host :: 'h

definition system_plugin ::
  "'h machine \<Rightarrow> string \<Rightarrow> (sys_config \<Rightarrow> ('h, scan_result) probe) \<Rightarrow> 'h sys_world plugin" where
  "system_plugin M name run =
     \<lparr>pl_name = name,
      pl_run = (\<lambda>deadline w. case run (sw_config w) (sw_host w) of
        (Inl e, h) \<Rightarrow> (Returned None (Some (mc_error M e)), w\<lparr>sw_host := h\<rparr>)
      | (Inr res, h) \<Rightarrow> (Returned (Some res) None, w\<lparr>sw_host := h\<rparr>))\<rparr>"

definition system_plugins :: "'h machine \<Rightarrow> 'h sys_world plugin list" where
  "system_plugins M =
     [system_plugin M ''system.cpu_memory'' (run_cpu_memory M), system_plugin M ''system.disk_usage'' (run_disk_usage M),
      system_plugin M ''system.file_integrity'' (run_file_integrity M), system_plugin M ''system.load_avg'' (run_load_avg M),
      system_plugin M ''system.process_monitor'' (run_process_monitor M), system_plugin M ''system.auth_log'' (run_auth_log M),
      system_plugin M ''system.network_listeners'' (run_network_listeners M), system_plugin M ''system.uptime'' (run_uptime M)]"

end
