(* ===== verification/SystemRun.thy ===== *)
theory SystemRun
  imports Reload SystemPlugins
begin

text \<open>
  What the system plugins report, and what the daemon makes of it: the range of the percentages, the lines
  of the log that are looked at, the effect of a changed file, and which of several configurations of one
  plugin its runs use.
\<close>

section \<open>Percentages\<close>

lemma rnd64_up_to_pow2:
  assumes "1 \<le> q" "q \<le> pow2 e" "0 \<le> e" "e < 1024"
  obtains v where "rnd64 q = Fin v" "1 \<le> v" "v \<le> pow2 e"
proof -
  have "pow2 (ilog2 q) \<le> pow2 e" using ilog2_bounds(1) [of q] assms by linarith
  then have "unit_exp q \<le> e" using assms(3) by (simp add: unit_exp_def)
  then have le: "round_mag q \<le> pow2 e" using assms by (intro round_mag_le_pow2) simp_all
  also have "\<dots> < pow2 1024" using assms(4) by (simp only: pow2_less_iff)
  finally have v: "rnd64 q = Fin (round_mag q)" using assms by (simp add: rnd64_def Let_def)
  have "rnd64 1 = Fin 1" using rnd64_of_nat [of 1] by simp
  then have "f_le (Fin 1) (Fin (round_mag q))" using rnd64_mono [OF assms(1)] v by simp
  with v le that show thesis by (auto simp: f_le_def f_eq_def)
qed

lemma f_le_Fin [simp]: "f_le (Fin a) (Fin b) \<longleftrightarrow> a \<le> b"
  by (auto simp: f_le_def f_eq_def)

lemma f_le_between: "f_le (Fin a) x \<Longrightarrow> f_le x (Fin b) \<Longrightarrow> \<exists>v. x = Fin v \<and> a \<le> v \<and> v \<le> b"
  by (cases x) (auto simp: f_le_def f_eq_def)

lemma ratio_bounds:
  assumes "0 \<le> a" "a \<le> b" "1 \<le> b" "b \<le> pow2 64"
  shows "\<exists>v. f_mul (f_div (rnd64 a) (rnd64 b)) (Fin 100) = Fin v \<and> 0 \<le> v \<and> v \<le> 100"
proof -
  obtain y where y: "rnd64 b = Fin y" "1 \<le> y" using rnd64_up_to_pow2 [of b 64] assms(3,4) by auto
  have one: "rnd64 1 = Fin 1" "rnd64 100 = Fin 100" using rnd64_of_nat [of 1] rnd64_of_nat [of 100] by simp_all
  obtain x where x: "rnd64 a = Fin x" "0 \<le> x" "x \<le> y"
    using f_le_between [OF rnd64_sign [OF assms(1)], of y] rnd64_mono [OF assms(2)] y(1) by auto
  obtain z where z: "rnd64 (x / y) = Fin z" "0 \<le> z" "z \<le> 1"
    using f_le_between [OF rnd64_sign [of "x / y"], of 1] rnd64_mono [of "x / y" 1] x y one by auto
  obtain v where v: "rnd64 (z * 100) = Fin v" "0 \<le> v" "v \<le> 100"
    using f_le_between [OF rnd64_sign [of "z * 100"], of 100] rnd64_mono [of "z * 100" 100] z one by auto
  show ?thesis using x y z v by (simp add: f_div_def f_mul_def)
qed

lemma ratio_above:
  assumes "b \<le> a" "1 \<le> b" "a \<le> pow2 64"
  shows "\<exists>v. f_mul (f_div (rnd64 a) (rnd64 b)) (Fin 100) = Fin v \<and> 100 \<le> v"
proof -
  obtain y where y: "rnd64 b = Fin y" "1 \<le> y" using rnd64_up_to_pow2 [of b 64] assms by auto
  obtain x where x: "rnd64 a = Fin x" "x \<le> pow2 64" using rnd64_up_to_pow2 [of a 64] assms by auto
  have xy: "y \<le> x" using rnd64_mono [OF assms(1)] x y by simp
  then have "1 \<le> x / y" using y(2) by simp
  moreover have "x / y \<le> pow2 64"
  proof -
    have "x / y \<le> x / 1" using xy y(2) by (intro divide_left_mono) simp_all
    then show ?thesis using x(2) by simp
  qed
  ultimately obtain z where z: "rnd64 (x / y) = Fin z" "1 \<le> z" "z \<le> pow2 64" using rnd64_up_to_pow2 [of "x / y" 64] by auto
  have "z * 100 \<le> pow2 (64 + int 7)" unfolding pow2_add_nat using mult_mono [OF z(3), of 100 "2 ^ 7"] by simp
  then obtain v where v: "rnd64 (z * 100) = Fin v"
    using rnd64_up_to_pow2 [of "z * 100" "64 + int 7"] z(2) by auto
  have "rnd64 100 = Fin 100" using rnd64_of_nat [of 100] by simp
  then have "100 \<le> v" using rnd64_mono [of 100 "z * 100"] z(2) v by simp
  then show ?thesis using x y z v by (simp add: f_div_def f_mul_def)
qed

lemma uint64_rat: "(0 :: rat) \<le> of_int (uint (w :: 64 word))" "of_int (uint w) \<le> (pow2 64 :: rat)"
proof -
  have "uint w \<le> 2 ^ 64" using uint_lt2p [of w] by simp
  then have "(of_int (uint w) :: rat) \<le> of_int (2 ^ 64)" by (simp only: of_int_le_iff)
  then show "of_int (uint w) \<le> (pow2 64 :: rat)" by (simp add: pow2_def)
qed (simp only: of_int_0_le_iff uint_ge_0)

lemma uint64_rat_mono:
  "v \<le> w \<Longrightarrow> (of_int (uint (v :: 64 word)) :: rat) \<le> of_int (uint w)" "0 < w \<Longrightarrow> (1 :: rat) \<le> of_int (uint (w :: 64 word))"
  unfolding of_int_le_iff of_int_1_le_iff by (simp_all add: word_le_def word_less_def)

text \<open>A percentage of a part is at most 100; one of a word above the whole is at least 100.\<close>

lemma percent_bounds:
  assumes "0 < whole"
  shows "part \<le> whole \<Longrightarrow> \<exists>v. percent part whole = Fin v \<and> 0 \<le> v \<and> v \<le> 100"
    and "whole < part \<Longrightarrow> \<exists>v. percent part whole = Fin v \<and> 100 \<le> v"
  unfolding percent_def f_of_uint64_def f_of_int_def
  using ratio_bounds [OF uint64_rat(1) uint64_rat_mono(1) uint64_rat_mono(2) [OF assms] uint64_rat(2)]
    ratio_above [OF uint64_rat_mono(1) uint64_rat_mono(2) [OF assms] uint64_rat(2), of part]
  by simp_all

lemma cpu_usage_bounds:
  "cs_idle b - cs_idle a \<le> cs_total b - cs_total a \<Longrightarrow> \<exists>v. cpu_usage a b = Fin v \<and> 0 \<le> v \<and> v \<le> 100"
  "cs_total b - cs_total a < cs_idle b - cs_idle a \<Longrightarrow> cs_total b \<noteq> cs_total a
     \<Longrightarrow> \<exists>v. cpu_usage a b = Fin v \<and> 100 \<le> v"
proof -
  let ?t = "cs_total b - cs_total a" and ?i = "cs_idle b - cs_idle a"
  show "\<exists>v. cpu_usage a b = Fin v \<and> 0 \<le> v \<and> v \<le> 100" if le: "?i \<le> ?t"
  proof (cases "0 < ?t")
    case True
    have "?t - ?i \<le> ?t" using le by (simp add: word_sub_le)
    from percent_bounds(1) [OF True this] True show ?thesis by (simp add: cpu_usage_def Let_def)
  qed (simp add: cpu_usage_def Let_def)
  assume lt: "?t < ?i" and "cs_total b \<noteq> cs_total a"
  then have pos: "0 < ?t" by (simp add: word_greater_zero_iff)
  have "uint (?t - ?i) = uint ?t - uint ?i + 2 ^ 64"
    using lt uint_sub_if' [of ?t ?i] by (simp add: word_less_def)
  then have "?t < ?t - ?i" using uint_lt2p [of ?i] by (simp add: word_less_def [of ?t])
  from percent_bounds(2) [OF pos this] pos show "\<exists>v. cpu_usage a b = Fin v \<and> 100 \<le> v"
    by (simp add: cpu_usage_def Let_def)
qed

section \<open>The last lines\<close>

lemma keep_lines: "foldl (keep_line n) [] ls = last_n (nat n) ls"
proof (induction ls rule: rev_induct)
  case (snoc l ls)
  show ?case
  proof (cases "length ls < nat n")
    case True
    then show ?thesis using snoc by (simp add: keep_line_def last_n_def Let_def) linarith
  next
    case False
    then have len: "length ls - nat n \<le> length ls" "Suc (length ls) - nat n = Suc (length ls - nat n)" by simp_all
    have "tl (drop (length ls - nat n) ls @ [l]) = drop (Suc (length ls - nat n)) (ls @ [l])"
      by (metis diff_le_self drop_Suc drop_append diff_is_0_eq' drop0 tl_drop)
    moreover have "int (length (drop (length ls - nat n) ls @ [l])) > n" using False by simp
    ultimately show ?thesis using False snoc by (simp add: keep_line_def last_n_def Let_def len)
  qed
qed (simp add: last_n_def)

text \<open>What the scanner reads of a text with a line that does not fit its buffer.\<close>

lemma raw_lines_append: "raw_lines (a @ newline # b) = raw_lines (a @ [newline]) @ raw_lines b"
proof -
  have "split_on newline b \<noteq> []" by simp
  then show ?thesis
    using split_on_append_slash [of newline a b] split_on_append_slash [of newline a "[]"]
    by (simp add: raw_lines_def Let_def butlast_append)
qed

lemma scan_stops_at_long_line:
  assumes "max_token \<le> length long" "newline \<notin> set long"
  shows "fst (scan_lines (early @ newline # long @ newline # late)) = fst (scan_lines (early @ [newline]))"
proof -
  have "raw_lines (long @ newline # late) = long # raw_lines late"
    using raw_lines_append [of long late] split_on_append [OF assms(2), of "[]"] by (simp add: raw_lines_def)
  then have "raw_lines (early @ newline # long @ newline # late) = raw_lines (early @ [newline]) @ long # raw_lines late"
    using raw_lines_append [of early "long @ newline # late"] by simp
  then show ?thesis using assms(1) by (simp add: scan_lines_def takeWhile_tail)
qed

section \<open>Runs that differ in the contents of files\<close>

text \<open>Two machines whose files can be read alike, whatever is in them.\<close>

definition reads_alike :: "file_read \<times> 'h \<Rightarrow> file_read \<times> 'h \<Rightarrow> bool" where
  "reads_alike a b \<longleftrightarrow> a = b \<or> (\<exists>c d h. a = (ReadsTo c None, h) \<and> b = (ReadsTo d None, h))"

lemma hash_visit_alike:
  assumes "\<And>p h. reads_alike (mc_open M p h) (opens p h)"
  shows "\<exists>hs1. hash_visit (M\<lparr>mc_open := opens\<rparr>) (fs, hs', h) v
      = (fst (hash_visit M (fs, hs, h) v), hs1, snd (snd (hash_visit M (fs, hs, h) v)))"
proof -
  obtain p dir err where v: "v = (p, dir, err)" by (cases v)
  obtain r h1 r' h2 where o: "mc_open M p h = (r, h1)" "opens p h = (r', h2)" by (metis prod.collapse)
  show ?thesis
  proof (cases "(r, h1) = (r', h2)")
    case True
    then have "hashFile (M\<lparr>mc_open := opens\<rparr>) p h = hashFile M p h" using o by (simp add: hashFile_def split: file_read.split option.split)
    then show ?thesis unfolding v hash_visit_def by (auto split: option.splits prod.splits sum.splits)
  next
    case False
    then obtain c d where "r = ReadsTo c None" "r' = ReadsTo d None" "h1 = h2"
      using assms [of p h] o by (auto simp: reads_alike_def)
    then show ?thesis using o unfolding v hash_visit_def hashFile_def by (auto split: option.splits)
  qed
qed


lemma hash_visits_alike:
  assumes "\<And>p h. reads_alike (mc_open M p h) (opens p h)"
  shows "\<exists>hs1. foldl (hash_visit (M\<lparr>mc_open := opens\<rparr>)) (fs, hs', h) vs
      = (fst (foldl (hash_visit M) (fs, hs, h) vs), hs1, snd (snd (foldl (hash_visit M) (fs, hs, h) vs)))"
proof (induction vs arbitrary: fs hs hs' h)
  case (Cons v vs)
  obtain fs1 hs1 h1 where v: "hash_visit M (fs, hs, h) v = (fs1, hs1, h1)" by (metis prod.collapse)
  obtain hs2 where "hash_visit (M\<lparr>mc_open := opens\<rparr>) (fs, hs', h) v = (fs1, hs2, h1)"
    using hash_visit_alike [where opens = opens, OF assms, of fs hs' h v hs] v by auto
  then show ?case using Cons.IH [of fs1 hs2 h1 hs1] by (simp add: v)
qed simp

lemma hash_roots_alike:
  assumes "\<And>p h. reads_alike (mc_open M p h) (opens p h)"
  shows "\<exists>hs1. foldl (hash_root (M\<lparr>mc_open := opens\<rparr>)) (fs, hs', h) dirs
      = (fst (foldl (hash_root M) (fs, hs, h) dirs), hs1, snd (snd (foldl (hash_root M) (fs, hs, h) dirs)))"
proof (induction dirs arbitrary: fs hs hs' h)
  case (Cons dir dirs)
  obtain vs h0 where w: "mc_walk M dir h = (vs, h0)" by (metis prod.collapse)
  obtain fs1 hs1 h1 where v: "foldl (hash_visit M) (fs, hs, h0) vs = (fs1, hs1, h1)" by (metis prod.collapse)
  obtain hs2 where "foldl (hash_visit (M\<lparr>mc_open := opens\<rparr>)) (fs, hs', h0) vs = (fs1, hs2, h1)"
    using hash_visits_alike [where opens = opens, OF assms, of fs hs' h0 vs hs] v by auto
  then show ?case using Cons.IH [of fs1 hs2 h1 hs1] by (simp add: hash_root_def w v)
qed simp

lemma run_file_integrity_alike:
  assumes "\<And>p h. reads_alike (mc_open M p h) (opens p h)"
  obtains fs t doc doc' h1 where
    "run_file_integrity M c h = (Inr (success ''system.file_integrity'' fs [t, (''hashes'', DynOther doc)]), h1)"
    "run_file_integrity (M\<lparr>mc_open := opens\<rparr>) c h
       = (Inr (success ''system.file_integrity'' fs [t, (''hashes'', DynOther doc')]), h1)"
    "t = timestamp M h"
proof -
  obtain fs hs h1 where v: "foldl (hash_root M) ([], [], h) (sc_paths c) = (fs, hs, h1)" by (metis prod.collapse)
  obtain hs' where v': "foldl (hash_root (M\<lparr>mc_open := opens\<rparr>)) ([], [], h) (sc_paths c) = (fs, hs', h1)"
    using hash_roots_alike [where opens = opens, OF assms, of "[]" "[]" h "sc_paths c" "[]"] v by auto
  show thesis
    by (rule that [of fs "timestamp M h" "hashes_doc hs" h1 "hashes_doc hs'"])
       (simp_all add: run_file_integrity_def v v' timestamp_def)
qed

text \<open>What the daemon makes of two results that differ in a value it cannot read as a number or a string.\<close>

definition opaque_change :: "scan_result \<Rightarrow> scan_result \<Rightarrow> bool" where
  "opaque_change r r' \<longleftrightarrow>
     (\<exists>meta. r' = r\<lparr>r_metadata := meta\<rparr> \<and> list_all (\<lambda>(k, v). toFloat v = None) (r_metadata r)
        \<and> list_all (\<lambda>(k, v). toFloat v = None) meta \<and> string_entries meta = string_entries (r_metadata r))"

lemma no_numbers_no_drift:
  assumes "list_all (\<lambda>(k, v). toFloat v = None) (r_metadata r)" "\<And>m. mset (order m) = mset m"
  shows "metric_findings D C now order k r d = ([], d)"
proof -
  have "foldl (metric_turn D C now sc k) fd kvs = fd" if "list_all (\<lambda>(k, v). toFloat v = None) kvs" for sc fd kvs
    using that by (induction kvs) (auto simp: metric_turn_def)
  moreover have "list_all (\<lambda>(k, v). toFloat v = None) (order (r_metadata r))"
    using assms mset_eq_setD [OF assms(2)] by (simp add: list_all_iff)
  ultimately show ?thesis by (simp add: metric_findings_def)
qed

lemma no_numbers_no_rules:
  assumes "list_all (\<lambda>(k, v). toFloat v = None) (r_metadata r)"
  shows "Evaluate rules r = []"
proof -
  have "eval_rule r ru = None" for ru
    using assms map_of_SomeD [of "r_metadata r"]
    by (fastforce simp: eval_rule_def list_all_iff split: option.split)
  then show ?thesis by (simp add: Evaluate_def map_filter_def)
qed

lemma on_result_opaque:
  fixes D CB CR hash suffix now order r r' and p :: "'d pipeline"
  assumes "opaque_change r r'" "\<And>m. mset (order m) = mset m"
  defines "q \<equiv> on_result D CB CR hash suffix now order r p" and "q' \<equiv> on_result D CB CR hash suffix now order r' p"
  shows "pp_engine q' = pp_engine q" "pp_correlator q' = pp_correlator q"
    and "\<exists>full full'. pp_cache q = cache_add full (pp_cache p) \<and> pp_cache q' = cache_add full' (pp_cache p)
          \<and> opaque_change full full'"
proof -
  obtain meta where r': "r' = r\<lparr>r_metadata := meta\<rparr>" and n: "list_all (\<lambda>(k, v). toFloat v = None) (r_metadata r)"
    "list_all (\<lambda>(k, v). toFloat v = None) meta" and e: "string_entries meta = string_entries (r_metadata r)"
    using assms(1) by (auto simp: opaque_change_def)
  have n': "list_all (\<lambda>(k, v). toFloat v = None) (r_metadata r')" using n(2) r' by simp
  have R: "Evaluate rules r = []" "Evaluate rules r' = []" for rules
    using no_numbers_no_rules n(1) n' by blast+
  have m: "metric_findings D CB now order (pp_consecutive p) r (pp_db p) = ([], pp_db p)"
    "metric_findings D CB now order (pp_consecutive p) r' (pp_db p) = ([], pp_db p)"
    by (rule no_numbers_no_drift [where order = order, OF n(1) assms(2)], rule no_numbers_no_drift [where order = order, OF n' assms(2)])
  have c: "correlator_add now r' (pp_correlator p) = correlator_add now r (pp_correlator p)"
    by (simp add: correlator_add_def r')
  have self: "r\<lparr>r_findings := r_findings r\<rparr> = r" "r'\<lparr>r_findings := r_findings r'\<rparr> = r'" by simp_all
  obtain corr c1 where add: "correlator_add now r (pp_correlator p) = (corr, c1)" by (metis prod.collapse)
  define full where "full = r\<lparr>r_findings := r_findings r @ corr\<rparr>"
  define full' where "full' = r'\<lparr>r_findings := r_findings r' @ corr\<rparr>"
  have q: "pp_engine q = send_alerts hash now full (r_findings full) (pp_engine p)"
    "pp_correlator q = c1" "pp_cache q = cache_add full (pp_cache p)"
    unfolding q_def on_result_def m R by (simp_all add: R self add full_def Let_def)
  have q': "pp_engine q' = send_alerts hash now full' (r_findings full') (pp_engine p)"
    "pp_correlator q' = c1" "pp_cache q' = cache_add full' (pp_cache p)"
    unfolding q'_def on_result_def m R by (simp_all add: R self c add full'_def Let_def)
  have f: "full' = full\<lparr>r_metadata := meta\<rparr>" by (simp add: full_def full'_def r')
  then have "alert_of full' = alert_of full" by (simp add: alert_of_def fun_eq_iff)
  then show "pp_engine q' = pp_engine q" unfolding q q' by (simp add: f send_alerts_def)
  show "pp_correlator q' = pp_correlator q" by (simp add: q q')
  have "opaque_change full full'"
    unfolding opaque_change_def using n e by (intro exI [of _ meta]) (simp add: f, simp add: full_def)
  then show "\<exists>full full'. pp_cache q = cache_add full (pp_cache p) \<and> pp_cache q' = cache_add full' (pp_cache p)
          \<and> opaque_change full full'"
    using q(3) q'(3) by blast
qed

lemma cache_add_opaque:
  assumes "opaque_change r r'"
  shows "cache_history (cache_add r' c) = cache_history (cache_add r c)"
    and "FindingsHistory (cache_add r' c) = FindingsHistory (cache_add r c)"
proof -
  obtain meta where r': "r' = r\<lparr>r_metadata := meta\<rparr>" "string_entries meta = string_entries (r_metadata r)"
    using assms by (auto simp: opaque_change_def)
  have "summarize r' = summarize r" by (simp add: summarize_def r')
  moreover have "map (finding_summary_of r') (r_findings r') = map (finding_summary_of r) (r_findings r)"
    by (simp add: finding_summary_of_def r')
  ultimately show "cache_history (cache_add r' c) = cache_history (cache_add r c)"
    "FindingsHistory (cache_add r' c) = FindingsHistory (cache_add r c)"
    by (simp_all add: cache_history_def FindingsHistory_def cache_add_def Let_def drop_map [symmetric])
qed

section \<open>The objects of the plugins\<close>

text \<open>Two states of the objects that agree on the one of a name.\<close>

definition same_part :: "string \<Rightarrow> sys_config \<Rightarrow> sys_config \<Rightarrow> bool" where
  "same_part n s t \<longleftrightarrow>
     (n = ''system.cpu_memory'' \<longrightarrow> sc_sample_ms s = sc_sample_ms t \<and> sc_include_swap s = sc_include_swap t)
     \<and> (n = ''system.disk_usage'' \<longrightarrow> sc_disk_path s = sc_disk_path t \<and> sc_warn s = sc_warn t \<and> sc_crit s = sc_crit t)
     \<and> (n = ''system.file_integrity'' \<longrightarrow> sc_paths s = sc_paths t)
     \<and> (n = ''system.process_monitor'' \<longrightarrow> sc_prefixes s = sc_prefixes t)
     \<and> (n = ''system.auth_log'' \<longrightarrow>
          sc_log_path s = sc_log_path t \<and> sc_patterns s = sc_patterns t \<and> sc_max_lines s = sc_max_lines t)
     \<and> (n = ''system.network_listeners'' \<longrightarrow> sc_tcp_path s = sc_tcp_path t \<and> sc_udp_path s = sc_udp_path t)"

lemmas init_defs = init_cpu_def init_disk_def init_files_def init_process_def init_auth_def init_network_def

lemma same_part_trans: "same_part n s t \<Longrightarrow> same_part n t u \<Longrightarrow> same_part n s u"
  by (auto simp: same_part_def)

lemma init_same: "same_part n (snd (system_init (n, cfg) s)) (snd (system_init (n, cfg) t))"
  by (auto simp: same_part_def system_init_def init_defs Let_def)

lemma init_other: "m \<noteq> n \<Longrightarrow> same_part n (snd (system_init (m, cfg) s)) s"
  by (auto simp: same_part_def system_init_def init_defs Let_def)

lemma init_others:
  "list_all (\<lambda>(m, cfg). m \<noteq> n) calls \<Longrightarrow> same_part n (foldl (\<lambda>s call. snd (system_init call s)) s calls) s"
proof (induction calls arbitrary: s)
  case (Cons call calls)
  obtain m cfg where c: "call = (m, cfg)" by (cases call)
  with Cons show ?case using init_other [of m n cfg s] by (auto intro: same_part_trans)
qed (simp add: same_part_def)

text \<open>A run looks at nothing but its plugin's own object.\<close>

lemma run_same:
  assumes "p \<in> set (system_plugins M)" "same_part (pl_name p) s t"
  shows "fst (pl_run p deadline \<lparr>sw_config = s, sw_host = h\<rparr>) = fst (pl_run p deadline \<lparr>sw_config = t, sw_host = h\<rparr>)
    \<and> sw_host (snd (pl_run p deadline \<lparr>sw_config = s, sw_host = h\<rparr>))
      = sw_host (snd (pl_run p deadline \<lparr>sw_config = t, sw_host = h\<rparr>))"
proof -
  have use: "fst (pl_run (system_plugin M n run) deadline \<lparr>sw_config = s, sw_host = h\<rparr>)
        = fst (pl_run (system_plugin M n run) deadline \<lparr>sw_config = t, sw_host = h\<rparr>)
      \<and> sw_host (snd (pl_run (system_plugin M n run) deadline \<lparr>sw_config = s, sw_host = h\<rparr>))
        = sw_host (snd (pl_run (system_plugin M n run) deadline \<lparr>sw_config = t, sw_host = h\<rparr>))"
    if "run s = run t" for n run
    using that by (simp add: system_plugin_def split: prod.split sum.split)
  from assms(1) consider
      "p = system_plugin M ''system.cpu_memory'' (run_cpu_memory M)" | "p = system_plugin M ''system.disk_usage'' (run_disk_usage M)"
    | "p = system_plugin M ''system.file_integrity'' (run_file_integrity M)" | "p = system_plugin M ''system.load_avg'' (run_load_avg M)"
    | "p = system_plugin M ''system.process_monitor'' (run_process_monitor M)" | "p = system_plugin M ''system.auth_log'' (run_auth_log M)"
    | "p = system_plugin M ''system.network_listeners'' (run_network_listeners M)" | "p = system_plugin M ''system.uptime'' (run_uptime M)"
    by (auto simp: system_plugins_def)
  then show ?thesis
  proof cases
    case 1
    from assms(2) have eq: "sc_sample_ms s = sc_sample_ms t" "sc_include_swap s = sc_include_swap t"
      by (simp_all add: 1 same_part_def system_plugin_def)
    have "run_cpu_memory M s = run_cpu_memory M t" by (rule ext) (unfold run_cpu_memory_def eq, rule refl)
    then show ?thesis unfolding 1 by (rule use)
  next
    case 2
    from assms(2) have eq: "sc_disk_path s = sc_disk_path t" "sc_warn s = sc_warn t" "sc_crit s = sc_crit t"
      by (simp_all add: 2 same_part_def system_plugin_def)
    have "run_disk_usage M s = run_disk_usage M t" by (rule ext) (unfold run_disk_usage_def eq, rule refl)
    then show ?thesis unfolding 2 by (rule use)
  next
    case 3
    from assms(2) have eq: "sc_paths s = sc_paths t"
      by (simp_all add: 3 same_part_def system_plugin_def)
    have "run_file_integrity M s = run_file_integrity M t" by (rule ext) (unfold run_file_integrity_def eq, rule refl)
    then show ?thesis unfolding 3 by (rule use)
  next
    case 4
    have "run_load_avg M s = run_load_avg M t" by (rule ext) (unfold run_load_avg_def, rule refl)
    then show ?thesis unfolding 4 by (rule use)
  next
    case 5
    from assms(2) have eq: "sc_prefixes s = sc_prefixes t"
      by (simp_all add: 5 same_part_def system_plugin_def)
    have "run_process_monitor M s = run_process_monitor M t" by (rule ext) (unfold run_process_monitor_def eq, rule refl)
    then show ?thesis unfolding 5 by (rule use)
  next
    case 6
    from assms(2) have eq: "sc_log_path s = sc_log_path t" "sc_patterns s = sc_patterns t" "sc_max_lines s = sc_max_lines t"
      by (simp_all add: 6 same_part_def system_plugin_def)
    have "run_auth_log M s = run_auth_log M t" by (rule ext) (unfold run_auth_log_def eq, rule refl)
    then show ?thesis unfolding 6 by (rule use)
  next
    case 7
    from assms(2) have eq: "sc_tcp_path s = sc_tcp_path t" "sc_udp_path s = sc_udp_path t"
      by (simp_all add: 7 same_part_def system_plugin_def)
    have "run_network_listeners M s = run_network_listeners M t" by (rule ext) (unfold run_network_listeners_def eq, rule refl)
    then show ?thesis unfolding 7 by (rule use)
  next
    case 8
    have "run_uptime M s = run_uptime M t" by (rule ext) (unfold run_uptime_def, rule refl)
    then show ?thesis unfolding 8 by (rule use)
  qed
qed

text \<open>The calls of \<open>Init\<close> the start makes.\<close>

lemma init_plugins_calls:
  "fst (init_plugins P m report scs il)
     = fst il @ map (\<lambda>sc. (sn_plugin sc, sn_config sc)) (filter (\<lambda>sc. map_of m (sn_plugin sc) \<noteq> None) scs)"
proof (induction P m report scs il rule: init_plugins.induct)
  case (2 P m report sc scs il)
  then show ?case by (cases "map_of m (sn_plugin sc)") (auto simp: manager_get_def Let_def)
qed simp

lemma Run_start_inits:
  assumes "Run_start P ps order now creds cfg path = Inr s"
  shows "dm_mgr s = register_plugins ps"
    and "dm_inits s = map (\<lambda>sc. (sn_plugin sc, sn_config sc))
           (filter (\<lambda>sc. map_of (register_plugins ps) (sn_plugin sc) \<noteq> None) (c_scanners cfg))"
proof -
  obtain c log d where s: "s = daemon_start P ps order now c cfg path log d"
    using assms by (auto simp: Run_start_def bind_res_Inr_iff split: if_splits)
  obtain inits log1 where i: "init_plugins P (register_plugins ps) True (c_scanners cfg)
      ([], log @ channels_log P (c_alerting cfg)) = (inits, log1)" by (metis prod.collapse)
  show "dm_mgr s = register_plugins ps"
    by (simp add: s daemon_start_def Let_def case_prod_unfold)
  have "dm_inits s = inits" by (simp add: s daemon_start_def i Let_def case_prod_unfold)
  then show "dm_inits s = map (\<lambda>sc. (sn_plugin sc, sn_config sc))
           (filter (\<lambda>sc. map_of (register_plugins ps) (sn_plugin sc) \<noteq> None) (c_scanners cfg))"
    using init_plugins_calls [of P "register_plugins ps" True "c_scanners cfg" "([], log @ channels_log P (c_alerting cfg))"]
    by (simp add: i)
qed

lemma registered_distinct:
  assumes "distinct (map pl_name ps)" "[] \<notin> pl_name ` set ps" "p \<in> set ps"
  shows "map_of (register_plugins ps) (pl_name p) = Some p"
proof -
  have "find (\<lambda>q. pl_name q = pl_name p) ps = Some p"
    using assms(1, 3) by (induction ps) auto
  moreover from assms(2, 3) have "pl_name p \<noteq> []" by (metis imageI)
  ultimately show ?thesis by (simp add: map_of_register_plugins)
qed

lemma system_plugin_name: "pl_name (system_plugin M n run) = n"
  by (simp add: system_plugin_def)

lemma system_plugin_names:
  "map pl_name (system_plugins M) =
     [''system.cpu_memory'', ''system.disk_usage'', ''system.file_integrity'', ''system.load_avg'',
      ''system.process_monitor'', ''system.auth_log'', ''system.network_listeners'', ''system.uptime'']"
  by (simp add: system_plugins_def system_plugin_name)

lemma system_plugin_registered:
  assumes "p \<in> set (system_plugins M)"
  shows "map_of (register_plugins (system_plugins M)) (pl_name p) = Some p"
proof (rule registered_distinct)
  show "distinct (map pl_name (system_plugins M))" by (simp add: system_plugin_names)
  have "[] \<notin> set (map pl_name (system_plugins M))" by (simp add: system_plugin_names)
  then show "[] \<notin> pl_name ` set (system_plugins M)" by simp
qed (rule assms)


section \<open>Sample machine\<close>

text \<open>A machine that never changes: its files, each a directory's only one, and a clock that stands still.\<close>

definition sample_machine :: "(string \<Rightarrow> string option) \<Rightarrow> 'h machine" where
  "sample_machine files =
     \<lparr>mc_now = (\<lambda>h. 0), mc_sleep = (\<lambda>d h. h),
      mc_read = (\<lambda>path h. (case files path of None \<Rightarrow> Inl ''no such file'' | Some c \<Rightarrow> Inr c, h)),
      mc_open = (\<lambda>path h. (case files path of None \<Rightarrow> OpenFails ''no such file'' | Some c \<Rightarrow> ReadsTo c None, h)),
      mc_statfs = (\<lambda>path h. (Inr \<lparr>st_blocks = 100, st_bavail = 10, st_bsize = 4096\<rparr>, h)),
      mc_readdir = (\<lambda>path h. (Inr [], h)), mc_readlink = (\<lambda>path h. (Inl ''no such file'', h)),
      mc_walk = (\<lambda>path h. ([(path, False, None)], h)), mc_rfc3339 = (\<lambda>t. ''now''), mc_float = (\<lambda>s. None),
      mc_sha256 = map of_char, mc_error = (\<lambda>e. ''failed'')\<rparr>"

section \<open>Properties\<close>

text \<open>C9 A file whose content changed raises nothing: two runs of the file integrity plugin over files that can
  be read alike but differ in their contents both succeed with the same findings, and whatever the runner
  puts into the times, the daemon makes the same alerts, correlations, history and findings of the two
  results. The hashes are reported and compared with nothing.\<close>

theorem file_changes_raise_no_alert:
  fixes M :: "'h machine" and pl :: "'d pipeline"
  assumes "\<And>p h. reads_alike (mc_open M p h) (opens p h)" "\<And>m. mset (order m) = mset m"
  shows "\<exists>res res' h'. run_file_integrity M c h = (Inr res, h')
    \<and> run_file_integrity (M\<lparr>mc_open := opens\<rparr>) c h = (Inr res', h')
    \<and> r_findings res' = r_findings res
    \<and> (let q = on_result D CB CR hash suffix now order (res\<lparr>r_started := a, r_finished := b, r_duration := d\<rparr>) pl;
           q' = on_result D CB CR hash suffix now order (res'\<lparr>r_started := a, r_finished := b, r_duration := d\<rparr>) pl
       in pp_engine q' = pp_engine q \<and> pp_correlator q' = pp_correlator q
          \<and> cache_history (pp_cache q') = cache_history (pp_cache q)
          \<and> FindingsHistory (pp_cache q') = FindingsHistory (pp_cache q))"
proof -
  obtain fs t doc doc' h1 where r:
    "run_file_integrity M c h = (Inr (success ''system.file_integrity'' fs [t, (''hashes'', DynOther doc)]), h1)"
    "run_file_integrity (M\<lparr>mc_open := opens\<rparr>) c h
       = (Inr (success ''system.file_integrity'' fs [t, (''hashes'', DynOther doc')]), h1)"
    and t: "t = timestamp M h"
    using run_file_integrity_alike [where opens = opens, OF assms(1), of c h] .
  define res where "res = success ''system.file_integrity'' fs [t, (''hashes'', DynOther doc)]"
  define res' where "res' = success ''system.file_integrity'' fs [t, (''hashes'', DynOther doc')]"
  have ch: "opaque_change (res\<lparr>r_started := a, r_finished := b, r_duration := d\<rparr>)
      (res'\<lparr>r_started := a, r_finished := b, r_duration := d\<rparr>)"
    unfolding opaque_change_def
    by (intro exI [of _ "[t, (''hashes'', DynOther doc')]"])
       (simp add: res_def res'_def success_def t timestamp_def string_entries_def map_filter_simps)
  show ?thesis
    unfolding Let_def
    using r on_result_opaque [OF ch, of order D CB CR hash suffix now pl] assms(2) cache_add_opaque
    by (intro exI [of _ res] exI [of _ res'] exI [of _ h1]) (auto simp: res_def [symmetric] res'_def [symmetric], simp_all add: res_def res'_def success_def)
qed

definition watched :: sys_config where
  "watched = sys_zero\<lparr>sc_paths := [''/etc/passwd'']\<rparr>"

definition old_machine :: "unit machine" where
  "old_machine = sample_machine (\<lambda>p. Some ''a'')"

definition new_machine :: "unit machine" where
  "new_machine = sample_machine (\<lambda>p. Some ''b'')"

lemma sample_digits: "hex_digit 6 = CHR ''6''" "hex_digit (Suc 0) = CHR ''1''" "hex_digit 2 = CHR ''2''"
  by code_simp+

lemma sample_hashes:
  "run_file_integrity old_machine watched ()
     = (Inr (success ''system.file_integrity'' []
         [(''timestamp'', DynStr ''now''), (''hashes'', DynOther (JObj [(''/etc/passwd'', JStr ''61'')]))]), ())"
  "run_file_integrity (old_machine\<lparr>mc_open := mc_open new_machine\<rparr>) watched ()
     = (Inr (success ''system.file_integrity'' []
         [(''timestamp'', DynStr ''now''), (''hashes'', DynOther (JObj [(''/etc/passwd'', JStr ''62'')]))]), ())"
  by (simp_all add: run_file_integrity_def old_machine_def new_machine_def sample_machine_def watched_def hash_root_def
      hash_visit_def hashFile_def timestamp_def hashes_doc_def sample_digits)

theorem file_changes_raise_no_alert_witness:
  "(\<exists>res res' h'. run_file_integrity old_machine watched () = (Inr res, h')
    \<and> run_file_integrity (old_machine\<lparr>mc_open := mc_open new_machine\<rparr>) watched () = (Inr res', h')
    \<and> r_findings res' = r_findings res
    \<and> (let q = on_result mem_badger no_codec no_codec id ''x'' 0 id
             (res\<lparr>r_started := 1, r_finished := 2, r_duration := 1\<rparr>) (dm_pipeline sample_daemon);
           q' = on_result mem_badger no_codec no_codec id ''x'' 0 id
             (res'\<lparr>r_started := 1, r_finished := 2, r_duration := 1\<rparr>) (dm_pipeline sample_daemon)
       in pp_engine q' = pp_engine q \<and> pp_correlator q' = pp_correlator q
          \<and> cache_history (pp_cache q') = cache_history (pp_cache q)
          \<and> FindingsHistory (pp_cache q') = FindingsHistory (pp_cache q)))
    \<and> fst (run_file_integrity old_machine watched ())
        \<noteq> fst (run_file_integrity (old_machine\<lparr>mc_open := mc_open new_machine\<rparr>) watched ())"
proof (rule conjI)
  show "fst (run_file_integrity old_machine watched ())
      \<noteq> fst (run_file_integrity (old_machine\<lparr>mc_open := mc_open new_machine\<rparr>) watched ())"
    unfolding sample_hashes by (simp add: success_def)
qed (rule file_changes_raise_no_alert, simp_all add: reads_alike_def old_machine_def new_machine_def sample_machine_def)

text \<open>C21 One object per plugin: when several entries of a configuration name the same system plugin, the last of
  them, disabled or not, decides what every run of the plugin uses after the start; the settings of the
  earlier entries are lost.\<close>

theorem last_entry_configures_plugin:
  assumes "Run_start P (system_plugins M) order now creds cfg path = Inr s"
    and "c_scanners cfg = before @ sc # after" "list_all (\<lambda>e. sn_plugin e \<noteq> sn_plugin sc) after"
    and "p \<in> set (system_plugins M)" "pl_name p = sn_plugin sc"
  shows "let all = \<lparr>sw_config = configured (dm_inits s), sw_host = h\<rparr>;
             one = \<lparr>sw_config = configured [(sn_plugin sc, sn_config sc)], sw_host = h\<rparr>
         in fst (pl_run p deadline all) = fst (pl_run p deadline one)
            \<and> sw_host (snd (pl_run p deadline all)) = sw_host (snd (pl_run p deadline one))"
proof -
  let ?calls = "\<lambda>scs. map (\<lambda>sc. (sn_plugin sc, sn_config sc))
    (filter (\<lambda>sc. map_of (register_plugins (system_plugins M)) (sn_plugin sc) \<noteq> None) scs)"
  have "map_of (register_plugins (system_plugins M)) (sn_plugin sc) = Some p"
    using system_plugin_registered [OF assms(4)] assms(5) by simp
  then have "dm_inits s = ?calls before @ (sn_plugin sc, sn_config sc) # ?calls after"
    unfolding Run_start_inits(2) [OF assms(1)] assms(2) by simp
  moreover have "list_all (\<lambda>(m, cfg). m \<noteq> sn_plugin sc) (?calls after)"
    using assms(3) by (auto simp: list_all_iff)
  ultimately have "same_part (sn_plugin sc) (configured (dm_inits s))
      (snd (system_init (sn_plugin sc, sn_config sc) (configured (?calls before))))"
    using init_others by (simp add: configured_def)
  then have "same_part (pl_name p) (configured (dm_inits s)) (configured [(sn_plugin sc, sn_config sc)])"
    using init_same same_part_trans unfolding assms(5) configured_def foldl.simps by blast
  from run_same [OF assms(4) this] show ?thesis by (simp add: Let_def)
qed



section \<open>Witnesses\<close>

definition disk_entry :: "string \<Rightarrow> bool \<Rightarrow> rat \<Rightarrow> scanner_config" where
  "disk_entry name active warn = (scanner_entry name ''1h'')\<lparr>sn_plugin := ''system.disk_usage'', sn_active := active,
     sn_config := [(''warn_percent'', DynFloat (Fin warn))]\<rparr>"

definition disk_config :: config where
  "disk_config = Default\<lparr>c_api := serving (c_api Default), c_webui := serving (c_webui Default),
     c_scanners := [disk_entry ''a'' True 50, disk_entry ''b'' False 90]\<rparr>"

definition disk_plugin :: "unit sys_world plugin" where
  "disk_plugin = system_plugin old_machine ''system.disk_usage'' (run_disk_usage old_machine)"

definition disk_daemon :: "(unit sys_world, bool gomap) daemon" where
  "disk_daemon = daemon_start sample_platform (system_plugins old_machine) id 0 root_process disk_config
     ''/etc/arcsent.json'' [WithoutPrivilegeDrop, DaemonStarted] []"

lemma disk_run: "Run_start sample_platform (system_plugins old_machine) id 0 root_process disk_config ''/etc/arcsent.json''
    = Inr disk_daemon"
  by (simp add: Run_start_def disk_daemon_def check_integrity_def disk_config_def Default_def sample_platform_def
      NewBadgerStoreWithKey_def)

theorem last_entry_configures_plugin_witness:
  "let all = \<lparr>sw_config = configured (dm_inits disk_daemon), sw_host = ()\<rparr>;
       one = \<lparr>sw_config = configured [(''system.disk_usage'', [(''warn_percent'', DynFloat (Fin 90))])], sw_host = ()\<rparr>
   in fst (pl_run disk_plugin 5 all) = fst (pl_run disk_plugin 5 one)
      \<and> sw_host (snd (pl_run disk_plugin 5 all)) = sw_host (snd (pl_run disk_plugin 5 one))"
proof -
  have "c_scanners disk_config = [disk_entry ''a'' True 50] @ disk_entry ''b'' False 90 # []"
    by (simp add: disk_config_def)
  moreover have "disk_plugin \<in> set (system_plugins old_machine)" by (simp add: disk_plugin_def system_plugins_def)
  moreover have "pl_name disk_plugin = sn_plugin (disk_entry ''b'' False 90)"
    by (simp add: disk_plugin_def disk_entry_def system_plugin_def)
  ultimately show ?thesis
    using last_entry_configures_plugin [OF disk_run, of "[disk_entry ''a'' True 50]" "disk_entry ''b'' False 90" "[]"
        disk_plugin "()" 5]
    by (simp add: disk_entry_def)
qed

definition long_log :: "string \<Rightarrow> string" where
  "long_log filler = ''Failed password'' @ newline # filler @ newline # ''Invalid user''"

definition long_machine :: "unit machine" where
  "long_machine = sample_machine (\<lambda>p. Some (long_log (replicate max_token (CHR ''x''))))"

definition log_config :: sys_config where
  "log_config = snd (init_auth [] sys_zero)"


text \<open>A machine that counts its sleeps.\<close>

definition stat_before :: string where
  "stat_before = ''intr 7'' @ newline # ''cpu  600 0 300 1000 0'' @ newline # ''cpu0 600 0 300 1000 0''"

definition stat_after :: string where
  "stat_after = ''intr 9'' @ newline # ''cpu  650 0 300 1040 10'' @ newline # ''cpu0 650 0 300 1040 10''"

definition sample_meminfo :: string where
  "sample_meminfo = ''MemTotal: 8 kB'' @ newline # ''MemFree: 1 kB'' @ newline # ''MemAvailable: 6 kB''"

definition counting_machine :: "nat machine" where
  "counting_machine = (sample_machine (\<lambda>p. None))\<lparr>mc_sleep := (\<lambda>d n. Suc n),
     mc_read := (\<lambda>path n. (Inr (if path = ''/proc/meminfo'' then sample_meminfo
       else if n = 0 then stat_before else stat_after), n))\<rparr>"

lemma stat_lines:
  "split_on newline stat_before = [''intr 7'', ''cpu  600 0 300 1000 0'', ''cpu0 600 0 300 1000 0'']"
  "split_on newline stat_after = [''intr 9'', ''cpu  650 0 300 1040 10'', ''cpu0 650 0 300 1040 10'']"
  "split_on newline sample_meminfo = [''MemTotal: 8 kB'', ''MemFree: 1 kB'', ''MemAvailable: 6 kB'']"
  by code_simp+

lemma stat_fields:
  "str_fields ''cpu  600 0 300 1000 0'' = [''cpu'', ''600'', ''0'', ''300'', ''1000'', ''0'']"
  "str_fields ''cpu  650 0 300 1040 10'' = [''cpu'', ''650'', ''0'', ''300'', ''1040'', ''10'']"
  "str_fields ''MemTotal: 8 kB'' = [''MemTotal:'', ''8'', ''kB'']"
  "str_fields ''MemFree: 1 kB'' = [''MemFree:'', ''1'', ''kB'']"
  "str_fields ''MemAvailable: 6 kB'' = [''MemAvailable:'', ''6'', ''kB'']"
  by code_simp+

lemma sample_parses:
  "parseCPUStat stat_before = Inr \<lparr>cs_total = 1900, cs_idle = 1000\<rparr>"
  "parseCPUStat stat_after = Inr \<lparr>cs_total = 2000, cs_idle = 1050\<rparr>"
  by (simp_all add: parseCPUStat_def stat_lines stat_fields has_prefix_def cpu_value_def parse_uint64_def is_digit_def
      digits_val_def digit_val_def)

lemma sample_memory:
  "parseMeminfo sample_meminfo = Inr \<lparr>mi_total = 8192, mi_available = 6144, mi_swap_total = 0, mi_swap_free = 0\<rparr>"
  by (simp add: parseMeminfo_def stat_lines mem_line_def stat_fields has_suffix_def parse_uint64_def is_digit_def
      digits_val_def digit_val_def)


end
