(* ===== verification/Logging.thy ===== *)
theory Logging
  imports Alerting JsonText
begin

text \<open>
  The logger, \<open>internal/logging/logger.go\<close>, and what the log channel of the alerts hands to it: the bytes
  of an entry in both formats. A value of a field is a string, or any other with the document it encodes
  to, if it has one, and its text under \<open>%v\<close>. The text of the time and that of an encoding error are
  arguments.
\<close>

section \<open>The logger\<close>

record logger =
  lg_format :: string

definition NewLogger :: "string \<Rightarrow> logger" where
  "NewLogger format = \<lparr>lg_format = (if format = [] then ''json'' else format)\<rparr>"

datatype log_value = LogText string | LogValue "json option" string

type_synonym log_field = "string \<times> log_value"

fun value_text :: "log_value \<Rightarrow> string" where
  "value_text (LogText s) = s"
| "value_text (LogValue doc txt) = txt"

fun value_doc :: "log_value \<Rightarrow> json option" where
  "value_doc (LogText s) = Some (JStr s)"
| "value_doc (LogValue doc txt) = doc"

definition formatFields :: "log_field list \<Rightarrow> string" where
  "formatFields fs = join_with '' '' (map (\<lambda>(k, v). k @ ''='' @ value_text v) fs)"

text \<open>What \<open>log.Logger\<close> prints: a line feed is added unless the text ends in one.\<close>

definition print_line :: "string \<Rightarrow> string" where
  "print_line s = (if s = [] \<or> last s \<noteq> newline then s @ [newline] else s)"

text \<open>The map of an entry; \<open>json.Marshal\<close> fails when one of its values cannot be encoded, and sorts the keys.\<close>

definition log_payload :: "string \<Rightarrow> string \<Rightarrow> string \<Rightarrow> log_field list \<Rightarrow> log_value gomap" where
  "log_payload ts level msg fs =
     foldl (\<lambda>m (k, v). obj_set m k v) [(''ts'', LogText ts), (''level'', LogText level), (''msg'', LogText msg)] fs"

definition marshal_payload :: "log_value gomap \<Rightarrow> json option" where
  "marshal_payload m =
     (if list_all (\<lambda>(k, v). value_doc v \<noteq> None) m
      then Some (JObj (foldr (\<lambda>(k, v) acc. key_insert k (the (value_doc v)) acc) m [])) else None)"

definition log_write ::
  "(rat \<Rightarrow> string) \<Rightarrow> logger \<Rightarrow> string \<Rightarrow> string \<Rightarrow> string \<Rightarrow> string \<Rightarrow> log_field list \<Rightarrow> string" where
  "log_write fmt L ts err level msg fs =
     (if lg_format L = ''text''
      then print_line (ts @ '' level='' @ level @ '' msg='' @ msg @ '' '' @ formatFields fs)
      else case marshal_payload (log_payload ts level msg fs) of
        None \<Rightarrow> print_line (ts @ '' level=error msg=failed to marshal log entry err='' @ err)
      | Some doc \<Rightarrow> print_line (go_value fmt doc))"

text \<open>The channel \<open>log\<close> of the alerts.\<close>

definition alert_fields :: "alert \<Rightarrow> log_field list" where
  "alert_fields a =
     [(''id'', LogText (a_id a)), (''severity'', LogText (a_severity a)), (''scanner'', LogText (a_scanner a)),
      (''finding'', LogText (f_description (a_finding a))), (''reason'', LogText (a_reason a))]"

definition log_channel_send :: "(rat \<Rightarrow> string) \<Rightarrow> logger \<Rightarrow> string \<Rightarrow> string \<Rightarrow> alert \<Rightarrow> string" where
  "log_channel_send fmt L ts err a = log_write fmt L ts err ''warn'' ''alert'' (alert_fields a)"

section \<open>Encoded documents are one line\<close>

lemma hex_digit_no_newline: "d < 16 \<Longrightarrow> hex_digit d \<noteq> newline"
proof
  assume "d < 16" "hex_digit d = newline"
  then have "hex_val newline = Some d" using hex_val_hex_digit [of d] by simp
  then show False by (simp add: hex_val_def newline_def Let_def split: if_splits)
qed

lemma newline_code: "c = newline \<longleftrightarrow> (of_char c :: nat) = 10"
proof
  assume "(of_char c :: nat) = 10"
  then have "char_of (of_char c :: nat) = (char_of (10 :: nat) :: char)" by simp
  moreover have "char_of (10 :: nat) = newline" by (simp add: newline_def char_of_def bit_0)
  ultimately show "c = newline" by simp
qed (simp add: newline_def)

lemma esc_byte_no_newline: "newline \<notin> set (esc_byte c)"
proof -
  have "(of_char c :: nat) div 16 < 16" "(of_char c :: nat) mod 16 < 16" using less_mult_imp_div_less [of "of_char c" 16 16] nat_of_char_less_256 [of c] by simp_all
  note h = this [THEN hex_digit_no_newline]
  have q: "newline \<notin> {quote_char, backslash, CHR ''b'', CHR ''f'', CHR ''n'', CHR ''r'', CHR ''t'', CHR ''u'', CHR ''0''}"
    by (simp add: newline_def quote_char_def backslash_def)
  show ?thesis
    using h h [symmetric] q newline_code [of c] unfolding esc_byte_def Let_def
    by (auto split: if_splits)
qed

lemma go_escape_no_newline: "newline \<notin> set (go_escape s)"
proof (induction s rule: go_escape.induct)
  case (1 s)
  show ?case
  proof (cases "s = [] \<or> rune_len s = 0")
    case True
    then show ?thesis using 1(1) by (cases "s = []") (subst go_escape.simps, simp add: newline_def backslash_def)+
  next
    case False
    then have n: "0 < rune_len s" "s \<noteq> []" by simp_all
    let ?w = "take (rune_len s) s"
    have "newline \<notin> set (esc_rune ?w)"
    proof (cases "length ?w = 1")
      case True
      then show ?thesis using esc_byte_no_newline by (simp add: esc_rune_def)
    next
      case long: False
      then have "list_all (\<lambda>c. 0x80 \<le> (of_char c :: nat)) ?w"
        using rune_len_cases [OF refl n(1)] by auto
      moreover have "\<not> 0x80 \<le> (of_char newline :: nat)" by (simp add: newline_def)
      ultimately have "newline \<notin> set ?w" unfolding list_all_iff by blast
      then show ?thesis using long by (auto simp: esc_rune_def newline_def backslash_def)
    qed
    with 1(2) n show ?thesis by (subst go_escape.simps) simp
  qed
qed

lemma show_int_no_newline: "newline \<notin> set (show_int i)"
proof -
  have "newline \<notin> set (show_nat n)" for n
    using show_nat_digits [of n] by (auto simp: list_all_iff newline_def is_digit_def)
  then show ?thesis by (simp add: show_int_def) (simp add: newline_def)
qed

lemma join_comma_no_newline: "list_all (\<lambda>s. newline \<notin> set s) ss \<Longrightarrow> newline \<notin> set (join_comma ss)"
  by (induction ss rule: join_comma.induct) (auto simp: newline_def)

lemma go_value_no_newline: "whole_doc j \<Longrightarrow> newline \<notin> set (go_value fmt j)"
proof (induction fmt j rule: go_value.induct)
  case (4 fmt s)
  then show ?case using go_escape_no_newline [of s] by (simp add: go_string_def newline_def quote_char_def)
next
  case (5 fmt xs)
  then have "newline \<notin> set (join_comma (map (go_value fmt) xs))"
    by (intro join_comma_no_newline) (auto simp: list_all_iff)
  then show ?case by (simp add: newline_def)
next
  case (6 fmt kvs)
  have "newline \<notin> set (go_string k)" for k
    using go_escape_no_newline [of k] by (simp add: go_string_def newline_def quote_char_def)
  with 6 have "newline \<notin> set (join_comma (map (\<lambda>kv. go_string (fst kv) @ '':'' @ go_value fmt (snd kv)) kvs))"
    by (intro join_comma_no_newline) (auto simp: list_all_iff newline_def)
  then show ?case by (simp add: newline_def)
qed (simp_all add: newline_def go_number_def show_int_no_newline [unfolded newline_def])

section \<open>Entries\<close>

lemma map_of_sorted_payload:
  "map_of (foldr (\<lambda>(k, v) acc. key_insert k (f v) acc) m []) k = map_option f (map_of m k)"
proof -
  have s: "sorted_wrt (\<lambda>x y. bytes_less (fst x) (fst y)) (foldr (\<lambda>(k, v) acc. key_insert k (f v) acc) m [])" for m
    by (induction m) (auto simp: sorted_key_insert)
  show ?thesis by (induction m) (auto simp: map_of_key_insert [OF s])
qed

lemma set_sorted_payload:
  "set (foldr (\<lambda>(k, v) acc. key_insert k (f v) acc) m []) \<subseteq> (\<lambda>(k, v). (k, f v)) ` set m"
proof (induction m)
  case (Cons x m)
  have "set (key_insert k v acc) \<subseteq> insert (k, v) (set acc)" for k and v :: 'a and acc
    by (induction k v acc rule: key_insert.induct) auto
  from this [of "fst x" "f (snd x)"] Cons show ?case by (auto simp: case_prod_unfold)
qed simp

lemma map_of_payload:
  "map_of (log_payload ts level msg fs)
     = [''ts'' \<mapsto> LogText ts, ''level'' \<mapsto> LogText level, ''msg'' \<mapsto> LogText msg] ++ map_of (rev fs)"
  using map_of_obj_spread [of "[(''ts'', LogText ts), (''level'', LogText level), (''msg'', LogText msg)]" fs]
  by (auto simp: log_payload_def obj_spread_def map_add_def fun_eq_iff split: option.split)

lemma set_payload:
  "set (log_payload ts level msg fs) \<subseteq> {(''ts'', LogText ts), (''level'', LogText level), (''msg'', LogText msg)} \<union> set fs"
proof -
  have "set (foldl (\<lambda>m (k, v). obj_set m k v) m fs) \<subseteq> set m \<union> set fs" for m :: "log_value gomap"
  proof (induction fs arbitrary: m)
    case (Cons x fs)
    have "set (obj_set m k v) \<subseteq> insert (k, v) (set m)" for m :: "log_value gomap" and k v
      by (induction m k v rule: obj_set.induct) auto
    with Cons [of "obj_set m (fst x) (snd x)"] show ?case by (cases x) fastforce
  qed simp
  from this [of "[(''ts'', LogText ts), (''level'', LogText level), (''msg'', LogText msg)]"]
  show ?thesis by (simp add: log_payload_def)
qed

text \<open>A field that arrives: its key is valid text, its value has a document, whose numbers are integers.\<close>

definition plain_field :: "log_field \<Rightarrow> bool" where
  "plain_field f \<longleftrightarrow> valid_utf8 (fst f) \<and> (\<exists>j. value_doc (snd f) = Some j \<and> whole_doc j)"

lemma marshal_plain:
  assumes "list_all plain_field fs"
  obtains kvs where "marshal_payload (log_payload ts level msg fs) = Some (JObj kvs)" "whole_doc (JObj kvs)"
    "list_all (\<lambda>kv. valid_utf8 (fst kv)) kvs"
    "\<And>k. map_of kvs k = map_option (\<lambda>v. the (value_doc v)) (map_of (log_payload ts level msg fs) k)"
proof -
  let ?m = "log_payload ts level msg fs"
  let ?kvs = "foldr (\<lambda>(k, v) acc. key_insert k (the (value_doc v)) acc) ?m []"
  have "valid_utf8 ''ts''" "valid_utf8 ''level''" "valid_utf8 ''msg''" by code_simp+
  then have p: "plain_field f" if "f \<in> set ?m" for f
    using set_payload [of ts level msg fs] assms that by (auto simp: plain_field_def list_all_iff)
  then have "value_doc (snd f) \<noteq> None" if "f \<in> set ?m" for f using that unfolding plain_field_def by fastforce
  then have "list_all (\<lambda>(k, v). value_doc v \<noteq> None) ?m" by (simp add: list_all_iff case_prod_unfold)
  then have "marshal_payload ?m = Some (JObj ?kvs)" by (simp add: marshal_payload_def)
  moreover have "valid_utf8 (fst kv) \<and> whole_doc (snd kv)" if kv: "kv \<in> set ?kvs" for kv
  proof -
    obtain f where "f \<in> set ?m" "kv = (fst f, the (value_doc (snd f)))"
      using subsetD [OF set_sorted_payload [of "\<lambda>v. the (value_doc v)" ?m] kv] by (auto simp: image_iff)
    with p show ?thesis by (fastforce simp: plain_field_def)
  qed
  then have "whole_doc (JObj ?kvs)" "list_all (\<lambda>kv. valid_utf8 (fst kv)) ?kvs" by (simp_all add: list_all_iff)
  ultimately show thesis using map_of_sorted_payload [of "\<lambda>v. the (value_doc v)" ?m] by (rule that)
qed

section \<open>Properties\<close>

text \<open>C31 An entry in any format but \<open>text\<close> is one line, whatever bytes its message and values hold, and reads
  back: the document of the line has, invalid bytes replaced, every field with its last value, and the
  time, the level and the message unless a field has taken their place.\<close>

theorem json_log_entry_reads_back:
  assumes "lg_format L \<noteq> ''text''" "list_all plain_field fs"
  shows "\<exists>line kvs. log_write fmt L ts err level msg fs = line @ [newline] \<and> newline \<notin> set line
    \<and> json_parse err' (log_write fmt L ts err level msg fs) = Inr (JObj kvs)
    \<and> map_of kvs = (\<lambda>k. map_option (\<lambda>v. repaired (the (value_doc v)))
        (([''ts'' \<mapsto> LogText ts, ''level'' \<mapsto> LogText level, ''msg'' \<mapsto> LogText msg] ++ map_of (rev fs)) k))"
proof -
  obtain kvs where kvs: "marshal_payload (log_payload ts level msg fs) = Some (JObj kvs)" "whole_doc (JObj kvs)"
    "list_all (\<lambda>kv. valid_utf8 (fst kv)) kvs"
    "\<And>k. map_of kvs k = map_option (\<lambda>v. the (value_doc v)) (map_of (log_payload ts level msg fs) k)"
    using marshal_plain [OF assms(2), of ts level msg] by blast
  let ?line = "go_value fmt (JObj kvs)"
  have n: "newline \<notin> set ?line" using kvs(2) by (rule go_value_no_newline)
  have "last ?line \<noteq> newline" by (simp add: newline_def)
  then have w: "log_write fmt L ts err level msg fs = ?line @ [newline]"
    using assms(1) kvs(1) by (simp add: log_write_def print_line_def)
  then have "json_parse err' (log_write fmt L ts err level msg fs) = Inr (repaired (JObj kvs))"
    using json_parse_encode [OF kvs(2), of err' fmt] by (simp only: go_encode_def)
  moreover have "map (\<lambda>kv. (repair (fst kv), repaired (snd kv))) kvs = map (\<lambda>(k, v). (k, repaired v)) kvs"
    using kvs(3) by (auto simp: list_all_iff)
  ultimately have "json_parse err' (log_write fmt L ts err level msg fs) = Inr (JObj (map (\<lambda>(k, v). (k, repaired v)) kvs))"
    by (simp only: repaired.simps)
  moreover have "map_of (map (\<lambda>(k, v). (k, repaired v)) kvs) k
      = map_option (\<lambda>v. repaired (the (value_doc v))) (map_of (log_payload ts level msg fs) k)" for k
    by (simp add: map_of_map kvs(4) option.map_comp comp_def)
  ultimately show ?thesis
    using w n unfolding map_of_payload by (intro exI [of _ ?line] exI conjI) (auto simp: fun_eq_iff)
qed

text \<open>In the format \<open>text\<close> nothing is escaped: a value that holds a line feed followed by the text of another
  entry prints the bytes of two entries. The description of a finding that names a path is such a value.\<close>

theorem text_log_entry_forged:
  assumes "lg_format L = ''text''" "newline \<notin> set v" "line \<noteq> []" "last line \<noteq> newline"
    and "log_write fmt L ts' err level' msg' fs' = line @ [newline]"
  shows "log_write fmt L ts err level msg [(k, LogText (v @ newline # line))]
    = log_write fmt L ts err level msg [(k, LogText v)] @ log_write fmt L ts' err level' msg' fs'"
proof -
  have "v \<noteq> [] \<Longrightarrow> last v \<noteq> newline" using assms(2) last_in_set by metis
  moreover have "CHR ''='' \<noteq> newline" by (simp add: newline_def)
  ultimately show ?thesis
    unfolding assms(5) using assms(1,3,4) by (cases "v = []") (simp_all add: log_write_def formatFields_def print_line_def)
qed

definition sample_field :: log_field where
  "sample_field = (''level'', LogText (''info'' @ newline # ''x''))"

theorem json_log_entry_reads_back_witness:
  "\<exists>line kvs. log_write (\<lambda>q. []) (NewLogger []) ''now'' ''e'' ''warn'' ''alert'' [sample_field] = line @ [newline]
    \<and> newline \<notin> set line
    \<and> json_parse id (log_write (\<lambda>q. []) (NewLogger []) ''now'' ''e'' ''warn'' ''alert'' [sample_field]) = Inr (JObj kvs)
    \<and> map_of kvs ''level'' = Some (JStr (''info'' @ newline # ''x'')) \<and> map_of kvs ''msg'' = Some (JStr ''alert'')"
proof -
  have "valid_utf8 ''level''" "valid_utf8 ''alert''" "valid_utf8 (''info'' @ newline # ''x'')" by code_simp+
  moreover from this have "list_all plain_field [sample_field]" by (simp add: plain_field_def sample_field_def)
  moreover have "lg_format (NewLogger []) \<noteq> ''text''" by (simp add: NewLogger_def)
  ultimately show ?thesis
    using json_log_entry_reads_back [of "NewLogger []" "[sample_field]" "\<lambda>q. []" "''now''" "''e''" "''warn''" "''alert''" id]
    by (fastforce simp: sample_field_def)
qed

end
