(* ===== verification/GoFlag.thy ===== *)
theory GoFlag
  imports Config
begin

text \<open>
  Go's \<open>flag\<close> package as \<open>cmd/arcsent/main.go\<close> uses it: sets of string and boolean flags, and the
  parser, which stops at the first argument that is not a flag. A boolean is read by
  \<open>strconv.ParseBool\<close>, which is in \<open>Config\<close>.
\<close>

section \<open>Parsing\<close>

datatype flag_error =
    FlagHelp
  | FlagSyntax string
  | FlagUnknown string
  | FlagNeedsValue string
  | FlagBadBool string string

text \<open>The flags of a set, with whether each is boolean; the values are those set so far.\<close>

type_synonym flag_set = "(string \<times> bool) list"
type_synonym flag_values = "string \<rightharpoonup> string"

text \<open>A flag without its dashes: its name and what follows an equals sign after the first character.\<close>

definition split_flag :: "string \<Rightarrow> string \<times> string option" where
  "split_flag s =
     (case s of
        [] \<Rightarrow> ([], None)
      | c # r \<Rightarrow>
          (case dropWhile (\<lambda>x. x \<noteq> CHR ''='') r of
             [] \<Rightarrow> (s, None)
           | e # v \<Rightarrow> (c # takeWhile (\<lambda>x. x \<noteq> CHR ''='') r, Some v)))"

definition is_flag_arg :: "string \<Rightarrow> bool" where
  "is_flag_arg s \<longleftrightarrow> 2 \<le> length s \<and> hd s = CHR ''-''"

function parse_flags ::
  "flag_set \<Rightarrow> string list \<Rightarrow> flag_values \<Rightarrow> (flag_error, flag_values \<times> string list) result" where
  "parse_flags fs args vals =
     (case args of
        [] \<Rightarrow> Inr (vals, [])
      | s # rest \<Rightarrow>
          if \<not> is_flag_arg s then Inr (vals, args)
          else if s = ''--'' then Inr (vals, rest)
          else let word = (if s ! 1 = CHR ''-'' then drop 2 s else drop 1 s) in
            if word = [] \<or> hd word \<in> {CHR ''-'', CHR ''=''} then Inl (FlagSyntax s)
            else case split_flag word of (name, value) \<Rightarrow>
              (case map_of fs name of
                 None \<Rightarrow> Inl (if name = ''help'' \<or> name = ''h'' then FlagHelp else FlagUnknown name)
               | Some True \<Rightarrow>
                   (case value of
                      None \<Rightarrow> parse_flags fs rest (vals(name \<mapsto> ''true''))
                    | Some v \<Rightarrow>
                        (case parse_bool v of
                           None \<Rightarrow> Inl (FlagBadBool v name)
                         | Some b \<Rightarrow> parse_flags fs rest (vals(name \<mapsto> (if b then ''true'' else ''false'')))))
               | Some False \<Rightarrow>
                   (case value of
                      Some v \<Rightarrow> parse_flags fs rest (vals(name \<mapsto> v))
                    | None \<Rightarrow>
                        (case rest of
                           [] \<Rightarrow> Inl (FlagNeedsValue name)
                         | v # rest' \<Rightarrow> parse_flags fs rest' (vals(name \<mapsto> v))))))"
  by pat_completeness auto
termination
  by (relation "measure (\<lambda>(fs, args, vals). length args)") auto

declare parse_flags.simps [simp del]

definition flag_value :: "flag_values \<Rightarrow> string \<Rightarrow> string \<Rightarrow> string" where
  "flag_value vals name initial = (case vals name of Some v \<Rightarrow> v | None \<Rightarrow> initial)"

section \<open>Facts\<close>

text \<open>Nothing after the first word is a flag.\<close>

lemma parse_flags_word: "\<not> is_flag_arg w \<Longrightarrow> parse_flags fs (w # rest) vals = Inr (vals, w # rest)"
  by (subst parse_flags.simps) simp

lemma parse_flags_Nil [simp]: "parse_flags fs [] vals = Inr (vals, [])"
  by (subst parse_flags.simps) simp

text \<open>A string flag in its two spellings, and a boolean one.\<close>

lemma split_flag_name: "name \<noteq> [] \<Longrightarrow> CHR ''='' \<notin> set name \<Longrightarrow> split_flag name = (name, None)"
proof (cases name)
  case (Cons c r)
  moreover assume "CHR ''='' \<notin> set name"
  ultimately have "dropWhile (\<lambda>x. x \<noteq> CHR ''='') r = []" by auto
  then show ?thesis unfolding Cons split_flag_def by (simp only: list.case)
qed simp

lemma parse_string_flag:
  assumes "map_of fs name = Some False" "name \<noteq> []" "CHR ''='' \<notin> set name" "hd name \<noteq> CHR ''-''"
  shows "parse_flags fs ((CHR ''-'' # name) # v # rest) vals = parse_flags fs rest (vals(name \<mapsto> v))"
proof -
  obtain c n where n: "name = c # n" using assms(2) by (cases name) auto
  have "split_flag (c # n) = (c # n, None)" using split_flag_name assms(2,3) unfolding n by blast
  then show ?thesis
    using assms unfolding n
    by (subst parse_flags.simps) (auto simp: is_flag_arg_def Let_def)
qed

end
