(* ===== verification/Cli.thy ===== *)
theory Cli
  imports ApiServer Privileges GoFlag
begin

text \<open>
  The command line: \<open>cmd/arcsent/main.go\<close> and the API client it uses, \<open>internal/cli/client.go\<close>. What a
  command of \<open>arcsent ctl\<close> sends or does, the file of environment variables the local commands load and
  take back, and the process id of \<open>-reload\<close>. The base
  address is that of the API, and \<open>json.Indent\<close> is a parameter.
\<close>

section \<open>The client\<close>

record client =
  cl_base :: string
  cl_token :: string

definition NewClient :: "string \<Rightarrow> string \<Rightarrow> client" where
  "NewClient base token = \<lparr>cl_base = rev (dropWhile (\<lambda>c. c = CHR ''/'') (rev base)), cl_token = token\<rparr>"

text \<open>The request of \<open>DoJSON\<close> without a body, and of \<open>DoText\<close>, as the server at the base address gets it.\<close>

definition client_request :: "client \<Rightarrow> string \<Rightarrow> string \<Rightarrow> (string \<times> string) list \<Rightarrow> http_request" where
  "client_request c meth path query =
     \<lparr>hq_method = meth, hq_path = path, hq_auth = cl_token c, hq_query = map_of query\<rparr>"

definition client_do :: "http_response \<Rightarrow> (int \<times> body, body) result" where
  "client_do resp = (if hs_status resp \<ge> 300 then Inl (hs_status resp, hs_body resp) else Inr (hs_body resp))"

section \<open>Commands\<close>

record ctl_flags =
  cf_addr :: string
  cf_token :: string
  cf_format :: string
  cf_plugin :: string
  cf_pretty :: bool
  cf_config :: string
  cf_env_file :: string

datatype ctl_action =
    CtlFlags flag_error
  | CtlTokenMissing
  | CtlUsage
  | CtlPluginMissing
  | CtlCall client string string "(string \<times> string) list"
  | CtlValidate string string
  | CtlStorageCheck string string

definition getenv :: "(string \<rightharpoonup> string) \<Rightarrow> string \<Rightarrow> string" where
  "getenv env k = (case env k of Some v \<Rightarrow> v | None \<Rightarrow> [])"

text \<open>
  The switch over the command, with its own switches over the word after it. The name of a plugin and the
  format are put into the address as they are; the model keeps them apart, as the server reads them when
  they hold no character the address reserves (\<open>url_plain\<close>).
\<close>

definition ctl_command :: "client \<Rightarrow> ctl_flags \<Rightarrow> string \<Rightarrow> string \<Rightarrow> ctl_action" where
  "ctl_command c fl cmd sub =
     (let get = (\<lambda>path. CtlCall c ''GET'' path []);
          export = (\<lambda>path. CtlCall c ''GET'' path [(''format'', to_lower (cf_format fl))]) in
      if cmd = ''status'' then get ''/status''
      else if cmd = ''health'' then get ''/health''
      else if cmd = ''scanners'' then get ''/scanners''
      else if cmd = ''findings'' then get ''/findings''
      else if cmd = ''baselines'' then get ''/baselines''
      else if cmd = ''results'' then
        (if sub = ''latest'' then get ''/results/latest''
         else if sub = ''history'' \<or> sub = [] then get ''/results/history'' else CtlUsage)
      else if cmd = ''trigger'' then
        (let name = (if cf_plugin fl = [] \<and> sub \<noteq> [] then sub else cf_plugin fl) in
         if name = [] then CtlPluginMissing else CtlCall c ''POST'' (''/scanners/trigger/'' @ name) [])
      else if cmd = ''signatures'' then
        (if sub = ''status'' then get ''/signatures/status''
         else if sub = ''update'' then CtlCall c ''POST'' ''/signatures/update'' [] else CtlUsage)
      else if cmd = ''export'' then
        (if sub = ''results'' then export ''/export/results''
         else if sub = ''baselines'' then export ''/export/baselines'' else CtlUsage)
      else if cmd = ''metrics'' then get ''/metrics''
      else if cmd = ''validate'' then CtlValidate (cf_config fl) (cf_env_file fl)
      else if cmd = ''storage-check'' then CtlStorageCheck (cf_config fl) (cf_env_file fl)
      else CtlUsage)"

text \<open>What \<open>runCLI\<close> does once the flags are parsed.\<close>

definition ctl_run :: "(string \<rightharpoonup> string) \<Rightarrow> ctl_flags \<Rightarrow> string list \<Rightarrow> ctl_action" where
  "ctl_run env fl args =
     (let token = (if cf_token fl = [] then getenv env ''ARCSENT_TOKEN'' else cf_token fl) in
      if token = [] then CtlTokenMissing
      else case args of
        [] \<Rightarrow> CtlUsage
      | cmd # rest \<Rightarrow>
          ctl_command (NewClient (cf_addr fl) token) fl cmd (case rest of [] \<Rightarrow> [] | sub # _ \<Rightarrow> sub))"

definition ctl_flag_set :: flag_set where
  "ctl_flag_set =
     [(''addr'', False), (''token'', False), (''format'', False), (''plugin'', False), (''pretty'', True),
      (''config'', False), (''env-file'', False)]"

definition ctl_flags_of :: "flag_values \<Rightarrow> ctl_flags" where
  "ctl_flags_of vals =
     \<lparr>cf_addr = flag_value vals ''addr'' ''http://127.0.0.1:8788'', cf_token = flag_value vals ''token'' [],
      cf_format = flag_value vals ''format'' ''json'', cf_plugin = flag_value vals ''plugin'' [],
      cf_pretty = (flag_value vals ''pretty'' ''false'' = ''true''),
      cf_config = flag_value vals ''config'' DefaultConfigPath, cf_env_file = flag_value vals ''env-file'' []\<rparr>"

definition runCLI :: "(string \<rightharpoonup> string) \<Rightarrow> string list \<Rightarrow> ctl_action" where
  "runCLI env args =
     (case parse_flags ctl_flag_set args Map.empty of
        Inl e \<Rightarrow> CtlFlags e
      | Inr (vals, words) \<Rightarrow> ctl_run env (ctl_flags_of vals) words)"

text \<open>What is printed: indented on demand, and ending in a newline. \<open>indent\<close> is \<open>json.Indent\<close>.\<close>

definition maybePrettyJSON :: "(string \<Rightarrow> string option) \<Rightarrow> string \<Rightarrow> bool \<Rightarrow> string" where
  "maybePrettyJSON indent raw pretty =
     (let trimmed = trim_space raw in
      if \<not> pretty then raw
      else if trimmed = [] then raw
      else if hd trimmed \<noteq> CHR ''{'' \<and> hd trimmed \<noteq> CHR ''['' then raw
      else case indent trimmed of None \<Rightarrow> raw | Some out \<Rightarrow> out @ [newline])"

definition ctl_output :: "(string \<Rightarrow> string option) \<Rightarrow> string \<Rightarrow> bool \<Rightarrow> string" where
  "ctl_output indent raw0 pretty =
     (let raw = maybePrettyJSON indent raw0 pretty
      in if raw \<noteq> [] \<and> last raw \<noteq> newline then raw @ [newline] else raw)"

text \<open>\<open>-reload\<close>: the process to signal, or the message.\<close>

definition reload_pid :: "(string \<rightharpoonup> string) \<Rightarrow> string \<Rightarrow> (string, int) result" where
  "reload_pid env flag =
     (let pid = (if flag = [] then getenv env ''ARCSENT_PID'' else flag) in
      if pid = [] then Inl ''reload error: pid is required (use -pid or ARCSENT_PID)''
      else case atoi pid of
        None \<Rightarrow> Inl ''reload error: pid must be a positive integer''
      | Some p \<Rightarrow> if p \<le> 0 then Inl ''reload error: pid must be a positive integer'' else Inr p)"

text \<open>What the program does at all: \<open>main\<close> up to the signal, the command or the start of the daemon.\<close>

datatype main_action =
    MainCtl ctl_action
  | MainFlags flag_error
  | MainReload "(string, int) result"
  | MainDaemon string

definition main_flag_set :: flag_set where
  "main_flag_set = [(''config'', False), (''reload'', True), (''pid'', False)]"

definition main_action :: "(string \<rightharpoonup> string) \<Rightarrow> string list \<Rightarrow> main_action" where
  "main_action env args =
     (if args \<noteq> [] \<and> hd args = ''ctl'' then MainCtl (runCLI env (tl args))
      else case parse_flags main_flag_set args Map.empty of
        Inl e \<Rightarrow> MainFlags e
      | Inr (vals, words) \<Rightarrow>
          if flag_value vals ''reload'' ''false'' = ''true'' then MainReload (reload_pid env (flag_value vals ''pid'' []))
          else MainDaemon (flag_value vals ''config'' DefaultConfigPath))"

section \<open>The file of environment variables\<close>

text \<open>\<open>os.Setenv\<close> refuses a name or value that holds a zero byte, and a name with an equals sign.\<close>

definition setenv :: "string \<Rightarrow> string \<Rightarrow> (string \<rightharpoonup> string) \<Rightarrow> (string \<rightharpoonup> string)" where
  "setenv k v env =
     (if k = [] \<or> CHR ''='' \<in> set k \<or> CHR 0x00 \<in> set (k @ v) then env else env(k \<mapsto> v))"

definition unsetenv :: "string \<Rightarrow> (string \<rightharpoonup> string) \<Rightarrow> (string \<rightharpoonup> string)" where
  "unsetenv k env = env(k := None)"

definition parse_env_line :: "string \<Rightarrow> (string \<times> string) option" where
  "parse_env_line line0 =
     (let line = trim_space line0 in
      if line = [] \<or> has_prefix line ''#'' then None
      else if CHR ''='' \<notin> set line then None
      else let key = trim_space (takeWhile (\<lambda>c. c \<noteq> CHR ''='') line);
               val = trim_space (tl (dropWhile (\<lambda>c. c \<noteq> CHR ''='') line))
           in if key = [] then None else Some (key, val))"

text \<open>One turn: what the variable was is noted, over an earlier note, before it is set.\<close>

definition env_turn ::
  "string option gomap \<times> (string \<rightharpoonup> string) \<Rightarrow> string \<times> string \<Rightarrow> string option gomap \<times> (string \<rightharpoonup> string)" where
  "env_turn pe kv =
     (case (pe, kv) of ((previous, env), (key, val)) \<Rightarrow> (obj_set previous key (env key), setenv key val env))"

definition env_entries :: "string \<Rightarrow> (string \<times> string) list" where
  "env_entries raw = List.map_filter parse_env_line (split_on newline raw)"

definition loadEnvFile ::
  "(string \<Rightarrow> (string, string) result) \<Rightarrow> string \<Rightarrow> (string \<rightharpoonup> string)
     \<Rightarrow> (string, string option gomap \<times> (string \<rightharpoonup> string)) result" where
  "loadEnvFile read path env =
     (if path = [] then Inr ([], env)
      else case read path of
        Inl e \<Rightarrow> Inl e
      | Inr raw \<Rightarrow> Inr (foldl env_turn ([], env) (env_entries raw)))"

text \<open>The function it returns, which the callers defer.\<close>

fun restore_one :: "string \<times> string option \<Rightarrow> (string \<rightharpoonup> string) \<Rightarrow> (string \<rightharpoonup> string)" where
  "restore_one (key, None) env = unsetenv key env"
| "restore_one (key, Some val) env = setenv key val env"

definition restore_env ::
  "string option range_order \<Rightarrow> string option gomap \<Rightarrow> (string \<rightharpoonup> string) \<Rightarrow> (string \<rightharpoonup> string)" where
  "restore_env order previous env = foldl (\<lambda>env e. restore_one e env) env (order previous)"

section \<open>The local commands\<close>

datatype check_error = EnvFileError string | ConfigError load_error | StorageError open_error | CloseError string

text \<open>Each returns its error and the environment it leaves. \<open>load\<close> is \<open>config.Load\<close> in an environment.\<close>

definition runValidate ::
  "(string \<Rightarrow> (string, string) result) \<Rightarrow> ((string \<rightharpoonup> string) \<Rightarrow> string \<Rightarrow> (load_error, config) result)
     \<Rightarrow> string option range_order \<Rightarrow> string \<Rightarrow> string \<Rightarrow> (string \<rightharpoonup> string) \<Rightarrow> check_error option \<times> (string \<rightharpoonup> string)" where
  "runValidate read load order configPath envFile env =
     (case loadEnvFile read envFile env of
        Inl e \<Rightarrow> (Some (EnvFileError e), env)
      | Inr (previous, env1) \<Rightarrow>
          ((case load env1 configPath of Inl e \<Rightarrow> Some (ConfigError e) | Inr c \<Rightarrow> None), restore_env order previous env1))"

text \<open>\<open>opens\<close> and \<open>closes\<close> are \<open>badger.Open\<close> and \<open>db.Close\<close>.\<close>

definition runStorageCheck ::
  "(string \<Rightarrow> (string, string) result) \<Rightarrow> ((string \<rightharpoonup> string) \<Rightarrow> string \<Rightarrow> (load_error, config) result)
     \<Rightarrow> (string \<Rightarrow> nat list option \<Rightarrow> (string, 'd) result) \<Rightarrow> ('d \<Rightarrow> string option) \<Rightarrow> string option range_order
     \<Rightarrow> string \<Rightarrow> string
     \<Rightarrow> (string \<rightharpoonup> string) \<Rightarrow> check_error option \<times> (string \<rightharpoonup> string)" where
  "runStorageCheck read load opens closes order configPath envFile env =
     (case loadEnvFile read envFile env of
        Inl e \<Rightarrow> (Some (EnvFileError e), env)
      | Inr (previous, env1) \<Rightarrow>
          ((case load env1 configPath of
              Inl e \<Rightarrow> Some (ConfigError e)
            | Inr c \<Rightarrow>
                (case NewBadgerStoreWithKey opens (sg_db_path (c_storage c)) (sg_encryption_key (c_storage c)) of
                   Inl e \<Rightarrow> Some (StorageError e)
                 | Inr d \<Rightarrow> map_option CloseError (closes d))),
           restore_env order previous env1))"

section \<open>Facts about the environment\<close>

definition env_values :: "string \<Rightarrow> (string \<times> string) list \<Rightarrow> string list" where
  "env_values k es = map snd (filter (\<lambda>e. fst e = k) es)"

definition settable :: "string \<times> string \<Rightarrow> bool" where
  "settable e \<longleftrightarrow> fst e \<noteq> [] \<and> CHR ''='' \<notin> set (fst e) \<and> CHR 0x00 \<notin> set (fst e @ snd e)"

lemma setenv_settable: "settable (k, v) \<Longrightarrow> setenv k v env = env(k \<mapsto> v)"
  by (simp add: settable_def setenv_def)

lemma set_trim_space: "set (trim_space s) \<subseteq> set s"
proof -
  have "set (trim_left t) \<subseteq> set t" for t by (auto simp: trim_left_def dest: set_dropWhileD)
  from this [of "rev (trim_left s)"] this [of s] show ?thesis by (auto simp: trim_space_def)
qed

lemma set_split_on: "w \<in> set (split_on c s) \<Longrightarrow> x \<in> set w \<Longrightarrow> x \<in> set s"
proof (induction c s arbitrary: w rule: split_on.induct)
  case (2 c a s)
  then show ?case by (cases "split_on c s") (fastforce split: if_splits)+
qed auto

lemma parse_env_line_settable:
  assumes "parse_env_line l = Some e" "CHR 0x00 \<notin> set l"
  shows "settable e"
proof -
  let ?line = "trim_space l"
  let ?k = "takeWhile (\<lambda>c. c \<noteq> CHR ''='') ?line" and ?v = "tl (dropWhile (\<lambda>c. c \<noteq> CHR ''='') ?line)"
  from assms(1) have e: "e = (trim_space ?k, trim_space ?v)" "trim_space ?k \<noteq> []"
    by (auto simp: parse_env_line_def Let_def split: if_splits)
  have "CHR ''='' \<notin> set ?k" by (auto dest: set_takeWhileD)
  moreover have "set ?k \<subseteq> set l" using set_trim_space [of l] by (blast dest: set_takeWhileD)
  moreover have "set ?v \<subseteq> set l"
  proof
    fix x assume "x \<in> set ?v"
    then have "x \<in> set (dropWhile (\<lambda>c. c \<noteq> CHR ''='') ?line)" by (metis list.set_sel(2) tl_Nil)
    then show "x \<in> set l" using set_trim_space [of l] by (blast dest: set_dropWhileD)
  qed
  ultimately have "CHR ''='' \<notin> set (trim_space ?k)" "CHR 0x00 \<notin> set (trim_space ?k)" "CHR 0x00 \<notin> set (trim_space ?v)"
    using assms(2) set_trim_space [of ?k] set_trim_space [of ?v] by blast+
  with e show ?thesis by (simp add: settable_def)
qed

lemma env_entries_settable:
  assumes "CHR 0x00 \<notin> set raw"
  shows "list_all settable (env_entries raw)"
  unfolding list_all_iff
proof
  fix e assume "e \<in> set (env_entries raw)"
  then obtain l where l: "l \<in> set (split_on newline raw)" "parse_env_line l = Some e"
    by (auto simp: env_entries_def map_filter_def)
  then have "CHR 0x00 \<notin> set l" using assms set_split_on [OF l(1)] by blast
  with l(2) show "settable e" by (rule parse_env_line_settable)
qed

lemma env_values_snoc [simp]: "env_values k (es @ [e]) = env_values k es @ (if fst e = k then [snd e] else [])"
  by (simp add: env_values_def)

lemma env_values_Nil [simp]: "env_values k [] = []"
  by (simp add: env_values_def)

definition last_value :: "string list \<Rightarrow> string option \<Rightarrow> string option" where
  "last_value vs old = (if vs = [] then old else Some (last vs))"

lemma env_turns:
  assumes "list_all settable es" "foldl env_turn ([], env) es = (previous, env1)"
  shows "keys_distinct previous \<and> env1 k = last_value (env_values k es) (env k)
    \<and> map_of previous k = (if env_values k es = [] then None
        else Some (last_value (butlast (env_values k es)) (env k)))"
  using assms
proof (induction es arbitrary: previous env1 k rule: rev_induct)
  case (snoc e es)
  obtain p0 env0 where f: "foldl env_turn ([], env) es = (p0, env0)" by (metis prod.collapse)
  obtain key val where e: "e = (key, val)" by (cases e)
  have "settable (key, val)" "list_all settable es" using snoc.prems(1) e by simp_all
  then have "previous = obj_set p0 key (env0 key)" "env1 = env0(key \<mapsto> val)"
    using snoc.prems(2) unfolding foldl_append f e by (simp_all add: env_turn_def setenv_settable)
  with snoc.IH [OF \<open>list_all settable es\<close> f, of k] snoc.IH [OF \<open>list_all settable es\<close> f, of key] show ?case
    by (auto simp: e distinct_obj_set last_value_def)
qed (simp add: last_value_def)

lemma restore_list:
  assumes "distinct (map fst m)" "\<And>k v. (k, Some v) \<in> set m \<Longrightarrow> settable (k, v)"
  shows "foldl (\<lambda>env e. restore_one e env) env m k = (case map_of m k of None \<Rightarrow> env k | Some v \<Rightarrow> v)"
  using assms
proof (induction m arbitrary: env)
  case (Cons x m)
  obtain key val where x: "x = (key, val)" by (cases x)
  have "restore_one x env = env(key := val)"
    using Cons.prems(2) x by (cases val) (auto simp: unsetenv_def setenv_settable)
  moreover have "map_of m key = None" using Cons.prems(1) x by (simp add: map_of_eq_None_iff)
  moreover have "foldl (\<lambda>env e. restore_one e env) env' m k = (case map_of m k of None \<Rightarrow> env' k | Some v \<Rightarrow> v)" for env'
    using Cons.prems by (intro Cons.IH) auto
  ultimately show ?case unfolding foldl_Cons by (simp add: x split: option.splits)
qed simp

lemma map_of_order:
  assumes "mset (order m) = mset m" "keys_distinct m"
  shows "map_of (order m) = map_of m" "keys_distinct (order m)"
proof -
  have "mset (map fst (order m)) = mset (map fst m)" using assms(1) by simp
  then show d: "keys_distinct (order m)" using assms(2) mset_eq_imp_distinct_iff by blast
  show "map_of (order m) = map_of m"
    using map_of_inject_set [OF d assms(2)] mset_eq_setD [OF assms(1)] by blast
qed

section \<open>Facts about commands\<close>

definition url_plain :: "string \<Rightarrow> bool" where
  "url_plain s \<longleftrightarrow> list_all (\<lambda>c. c \<notin> set ''?#%&+;= '' \<and> of_char c < (127 :: nat)) s"

text \<open>What a command is for: the handler of the API that should answer it.\<close>

definition command_route :: "string \<Rightarrow> string \<Rightarrow> api_route option" where
  "command_route cmd sub =
     map_of [((''status'', ''''), RStatus), ((''health'', ''''), RHealth), ((''scanners'', ''''), RScanners),
       ((''findings'', ''''), RFindings), ((''baselines'', ''''), RBaselines), ((''metrics'', ''''), RMetrics),
       ((''trigger'', ''''), RTrigger), ((''results'', ''latest''), RResultsLatest),
       ((''results'', ''history''), RResultsHistory), ((''results'', ''''), RResultsHistory),
       ((''signatures'', ''status''), RSignaturesStatus), ((''signatures'', ''update''), RSignaturesUpdate),
       ((''export'', ''results''), RExportResults), ((''export'', ''baselines''), RExportBaselines)]
       (cmd, if cmd \<in> {''results'', ''signatures'', ''export''} then sub else [])"

text \<open>The word after the command, and the plugin a trigger names.\<close>

definition word_after :: "string list \<Rightarrow> string" where
  "word_after args = (case args of cmd # sub # _ \<Rightarrow> sub | _ \<Rightarrow> [])"

definition plugin_named :: "ctl_flags \<Rightarrow> string list \<Rightarrow> string" where
  "plugin_named fl args = (if cf_plugin fl = [] then word_after args else cf_plugin fl)"

lemma ctl_command_client: "ctl_command c fl cmd sub = CtlCall c' meth path query \<Longrightarrow> c' = c"
  unfolding ctl_command_def Let_def by (auto split: if_splits)

lemma ctl_run_call:
  assumes "ctl_run env fl args = CtlCall c meth path query"
  shows "cl_token c = (if cf_token fl = [] then getenv env ''ARCSENT_TOKEN'' else cf_token fl) \<and> cl_token c \<noteq> []
    \<and> (\<exists>cmd rest. args = cmd # rest \<and> ctl_command c fl cmd (word_after args) = CtlCall c meth path query)"
proof -
  obtain cmd rest where args: "args = cmd # rest"
    using assms by (cases args) (auto simp: ctl_run_def Let_def split: if_splits)
  define t where "t = (if cf_token fl = [] then getenv env ''ARCSENT_TOKEN'' else cf_token fl)"
  have sub: "word_after args = (case rest of [] \<Rightarrow> [] | sub # _ \<Rightarrow> sub)"
    by (simp add: args word_after_def)
  have run: "t \<noteq> [] \<and> ctl_command (NewClient (cf_addr fl) t) fl cmd (word_after args) = CtlCall c meth path query"
    using assms unfolding ctl_run_def t_def [symmetric] Let_def sub by (simp add: args split: if_splits)
  then have "c = NewClient (cf_addr fl) t" using ctl_command_client by blast
  with run args show ?thesis unfolding t_def [symmetric] by (auto simp: NewClient_def)
qed

lemma command_route_simps:
  "command_route ''status'' sub = Some RStatus" "command_route ''health'' sub = Some RHealth"
  "command_route ''scanners'' sub = Some RScanners" "command_route ''findings'' sub = Some RFindings"
  "command_route ''baselines'' sub = Some RBaselines" "command_route ''metrics'' sub = Some RMetrics"
  "command_route ''trigger'' sub = Some RTrigger"
  "command_route ''results'' ''latest'' = Some RResultsLatest"
  "command_route ''results'' ''history'' = Some RResultsHistory" "command_route ''results'' [] = Some RResultsHistory"
  "command_route ''signatures'' ''status'' = Some RSignaturesStatus"
  "command_route ''signatures'' ''update'' = Some RSignaturesUpdate"
  "command_route ''export'' ''results'' = Some RExportResults"
  "command_route ''export'' ''baselines'' = Some RExportBaselines"
  by (simp_all add: command_route_def)

lemma api_paths_simps:
  "(''/status'', RStatus) \<in> set api_paths" "(''/health'', RHealth) \<in> set api_paths"
  "(''/scanners'', RScanners) \<in> set api_paths" "(''/findings'', RFindings) \<in> set api_paths"
  "(''/baselines'', RBaselines) \<in> set api_paths" "(''/metrics'', RMetrics) \<in> set api_paths"
  "(''/results/latest'', RResultsLatest) \<in> set api_paths" "(''/results/history'', RResultsHistory) \<in> set api_paths"
  "(''/signatures/status'', RSignaturesStatus) \<in> set api_paths"
  "(''/signatures/update'', RSignaturesUpdate) \<in> set api_paths"
  "(''/export/results'', RExportResults) \<in> set api_paths" "(''/export/baselines'', RExportBaselines) \<in> set api_paths"
  by (simp_all add: api_paths_def)

lemma ctl_command_call:
  assumes "ctl_command c fl cmd sub = CtlCall c meth path query"
  obtains (fixed) route where "command_route cmd sub = Some route" "(path, route) \<in> set api_paths" "route \<noteq> RTrigger"
      "meth = (if route = RSignaturesUpdate then ''POST'' else ''GET'')"
      "query = (if cmd = ''export'' then [(''format'', to_lower (cf_format fl))] else [])"
  | (trigger) name where "cmd = ''trigger''" "name = (if cf_plugin fl = [] then sub else cf_plugin fl)" "name \<noteq> []"
      "meth = ''POST''" "path = ''/scanners/trigger/'' @ name" "query = []"
  using assms unfolding ctl_command_def Let_def
  by (force simp: command_route_simps split: if_split_asm intro: api_paths_simps)

section \<open>Properties\<close>


definition ctl_api :: "(int, unit) api" where
  "ctl_api = \<lparr>ap_token = ''t'', ap_euid0 = False, ap_mgr = [(''p'', sample_plugin)], ap_plugin_order = id,
     ap_sched = sched_init 0 (), ap_job_order = id, ap_cache = NewResultCache 1, ap_latest_order = id,
     ap_baselines = None, ap_results = None, ap_signatures = None, ap_update = None\<rparr>"

lemma sample_command:
  "parse_flags ctl_flag_set [''-token'', ''t'', ''trigger'', ''p''] Map.empty = Inr ([''token'' \<mapsto> ''t''], [''trigger'', ''p''])"
proof -
  have "parse_flags ctl_flag_set ((CHR ''-'' # ''token'') # ''t'' # [''trigger'', ''p'']) Map.empty
      = parse_flags ctl_flag_set [''trigger'', ''p''] [''token'' \<mapsto> ''t'']"
    by (rule parse_string_flag) (simp_all add: ctl_flag_set_def)
  then show ?thesis by (simp add: parse_flags_word is_flag_arg_def)
qed


text \<open>Flags after the command have no effect, although the README writes them there: whatever follows the
  command and the word after it, the client does what it does without it, with every flag at its default.
  So a validation of a named configuration checks the default one, and an export as CSV is one as JSON.\<close>

theorem flags_after_command_ignored:
  assumes "\<not> is_flag_arg cmd"
  shows "runCLI env (cmd # sub # rest) = runCLI env [cmd, sub]
    \<and> runCLI env (cmd # sub # rest) = ctl_run env (ctl_flags_of Map.empty) [cmd, sub]
    \<and> (getenv env ''ARCSENT_TOKEN'' \<noteq> []
         \<longrightarrow> runCLI env [''validate'', ''-config'', named] = CtlValidate DefaultConfigPath []
           \<and> runCLI env [''export'', ''results'', ''-format'', ''csv'']
               = CtlCall (NewClient ''http://127.0.0.1:8788'' (getenv env ''ARCSENT_TOKEN'')) ''GET'' ''/export/results''
                   [(''format'', ''json'')])"
proof -
  have "ctl_run env fl (cmd # sub # rest) = ctl_run env fl [cmd, sub]" for fl
    by (simp add: ctl_run_def Let_def)
  then show ?thesis
    using assms
    by (simp add: runCLI_def parse_flags_word is_flag_arg_def ctl_run_def ctl_flags_of_def flag_value_def
        ctl_command_def to_lower_def to_lower_char_def Let_def)
qed

theorem flags_after_command_ignored_witness:
  "runCLI [''ARCSENT_TOKEN'' \<mapsto> ''t''] [''validate'', ''-config'', ''mine.json''] = CtlValidate DefaultConfigPath []"
  using flags_after_command_ignored [of "''validate''" "[''ARCSENT_TOKEN'' \<mapsto> ''t'']" "[]" "[]" "''mine.json''"]
  by (simp add: is_flag_arg_def getenv_def)

lemma env_file_effect:
  assumes "path \<noteq> []" "read path = Inr raw" "CHR 0x00 \<notin> set raw" "\<And>m. mset (order m) = mset m"
    and "\<And>k v. env k = Some v \<Longrightarrow> settable (k, v)"
  obtains previous where
    "loadEnvFile read path env = Inr (previous, \<lambda>k. last_value (env_values k (env_entries raw)) (env k))"
    "restore_env order previous (\<lambda>k. last_value (env_values k (env_entries raw)) (env k))
       = (\<lambda>k. last_value (butlast (env_values k (env_entries raw))) (env k))"
proof -
  let ?es = "env_entries raw"
  let ?in = "\<lambda>k. last_value (env_values k ?es) (env k)"
  obtain previous env1 where f: "foldl env_turn ([], env) ?es = (previous, env1)" by (metis prod.collapse)
  have ok: "list_all settable ?es" using assms(3) by (rule env_entries_settable)
  note t = env_turns [OF ok f]
  have env1: "env1 = ?in" using t by auto
  have m: "map_of (order previous) = map_of previous" "keys_distinct (order previous)"
    using map_of_order [of order previous] assms(4) t by blast+
  have sett: "settable (k, v)" if "(k, Some v) \<in> set (order previous)" for k v
  proof -
    have "map_of previous k = Some (Some v)" using that m by (metis map_of_is_SomeI)
    with t [of k] have l: "last_value (butlast (env_values k ?es)) (env k) = Some v" by (simp split: if_splits)
    show ?thesis
    proof (cases "butlast (env_values k ?es) = []")
      case True
      with l assms(5) show ?thesis by (simp add: last_value_def)
    next
      case False
      with l have "v \<in> set (env_values k ?es)" by (metis in_set_butlastD last_in_set last_value_def option.inject)
      then have "(k, v) \<in> set ?es" by (force simp: env_values_def)
      with ok show ?thesis by (auto simp: list_all_iff)
    qed
  qed
  have r: "restore_env order previous ?in k = last_value (butlast (env_values k ?es)) (env k)" for k
    using restore_list [OF m(2) sett, of ?in k] t [of k] unfolding restore_env_def m(1)
    by (simp add: last_value_def)
  show thesis
    by (rule that [of previous]) (use assms(1,2) f r in \<open>auto simp: loadEnvFile_def env1\<close>)
qed

text \<open>C36 With a file of environment variables the check sees each variable with the last value the file gives
  it. Afterwards the variable has the value it had before only if the file names it once: of a name the
  file lists again, the last value but one stays in the environment of the process.\<close>

theorem env_file_restored:
  assumes "path \<noteq> []" "read path = Inr raw" "CHR 0x00 \<notin> set raw" "\<And>m. mset (order m) = mset m"
    and "\<And>k v. env k = Some v \<Longrightarrow> settable (k, v)"
  shows "runValidate read load order configPath path env
      = ((case load (\<lambda>k. last_value (env_values k (env_entries raw)) (env k)) configPath of
            Inl e \<Rightarrow> Some (ConfigError e) | Inr c \<Rightarrow> None),
         \<lambda>k. last_value (butlast (env_values k (env_entries raw))) (env k))
    \<and> snd (runStorageCheck read load opens closes order configPath path env)
        = (\<lambda>k. last_value (butlast (env_values k (env_entries raw))) (env k))
    \<and> (snd (runValidate read load order configPath path env) k = env k \<longleftrightarrow>
         length (env_values k (env_entries raw)) \<le> 1 \<or> Some (last (butlast (env_values k (env_entries raw)))) = env k)"
proof -
  obtain previous where l: "loadEnvFile read path env = Inr (previous, \<lambda>k. last_value (env_values k (env_entries raw)) (env k))"
    and r: "restore_env order previous (\<lambda>k. last_value (env_values k (env_entries raw)) (env k))
       = (\<lambda>k. last_value (butlast (env_values k (env_entries raw))) (env k))"
    using env_file_effect [of path read raw order env] assms by blast
  have "butlast vs = [] \<longleftrightarrow> length vs \<le> 1" for vs :: "string list"
    by (cases vs rule: rev_cases) auto
  then have "last_value (butlast vs) old = old \<longleftrightarrow> length vs \<le> 1 \<or> Some (last (butlast vs)) = old" for vs old
    by (simp add: last_value_def)
  then show ?thesis by (simp add: runValidate_def runStorageCheck_def l r del: One_nat_def)
qed

theorem env_file_restored_witness:
  "snd (runValidate (\<lambda>p. Inr (''A=1'' @ newline # ''A=2'')) (\<lambda>env p. Inl (ReadConfig ''no file'')) id ''c'' ''f'' Map.empty) ''A''
     \<noteq> None"
proof -
  have e: "env_entries (''A=1'' @ newline # ''A=2'') = [(''A'', ''1''), (''A'', ''2'')]"
    by (simp add: env_entries_def map_filter_def newline_def parse_env_line_def trim_space_def trim_left_def is_space_def
        has_prefix_def Let_def)
  have "snd (runValidate (\<lambda>p. Inr (''A=1'' @ newline # ''A=2'')) (\<lambda>env p. Inl (ReadConfig ''no file'')) id ''c'' ''f'' Map.empty)
      = (\<lambda>k. last_value (butlast (env_values k (env_entries (''A=1'' @ newline # ''A=2'')))) (Map.empty k))"
    using env_file_restored [where path = "''f''" and read = "\<lambda>p. Inr (''A=1'' @ newline # ''A=2'')"
        and raw = "''A=1'' @ newline # ''A=2''" and order = id and env = Map.empty
        and load = "\<lambda>env p. Inl (ReadConfig ''no file'')" and configPath = "''c''" and opens = "\<lambda>p k. Inr ()" and closes = "\<lambda>d. None" and k = "''A''"]
    by (simp add: newline_def)
  then show ?thesis unfolding e by (simp add: env_values_def last_value_def)
qed

end
