(* ===== verification/Spec2Isabelle.thy ===== *)
theory Spec2Isabelle
  imports WireSources Reload DaemonLive SystemRun Logging Cli
begin

text \<open>
  ArCsent, a host intrusion detection daemon with a web client.

  The program. A Go daemon (\<open>internal/\<close>) runs plugins on schedules; each result passes the rules, the
  baselines and the correlator, is cached, stored, and turned into alerts. Two HTTP servers read that
  state: the API (\<open>internal/api\<close>) and the server of the web interface (\<open>internal/webui\<close>), which
  proxies the API to the browser. A React client (\<open>web/src\<close>) shows status, metrics, findings, scanners
  and signature sources and can ask for a scan and for a signature update.

  The theories, each importing the ones it calls.
  \<^item> \<open>Prelude\<close>: results of fallible code, byte strings and their operations, numerals, the association
    lists of JavaScript objects, the collections of facts (\<open>run_simps\<close> and others) the rest extends.
    \<open>Float64\<close>: binary64 with its rounding, monotone and exact up to two to the power of 53, for Go's
    \<open>float64\<close> and JavaScript's \<open>Number\<close>. \<open>Json\<close>: documents and property access. \<open>JsonText\<close>: what
    \<open>encoding/json\<close> writes and \<open>JSON.parse\<close> reads, the round trip, and the locales \<open>json_wire\<close> and
    \<open>faithful_wire\<close> that the client's calls rely on, interpreted on the two. \<open>GoTime\<close>: \<open>int64\<close>
    wrap-around, durations and their parser. \<open>HttpMux\<close>: requests, responses, \<open>ServeMux\<close> and its
    path cleaning.
  \<^item> The web client. \<open>WebApi\<close>: \<open>lib/api.ts\<close> (both fetch wrappers, endpoints, token, metrics parser).
    \<open>WebTypes\<close>: the interfaces that file declares. \<open>WebDom\<close>: element trees, \<open>lib/utils.ts\<close> and the
    components. \<open>WebDashboard\<close>, \<open>WebFindings\<close>, \<open>WebScanners\<close>, \<open>WebSettings\<close>: one state record per
    page with the fields of its \<open>useState\<close> calls, one function per handler, the outstanding requests as a
    bag, rendering as a function to an element tree or a thrown error. \<open>WebLayout\<close>: \<open>Layout.tsx\<close> and
    the routes of \<open>App.tsx\<close>.
  \<^item> The daemon. \<open>Scanner\<close>: plugins, results, the manager. \<open>ResultCache\<close>: \<open>state/results.go\<close>.
    \<open>Storage\<close>: the store over badger and the results store; badger is a parameter with the locale
    \<open>badger_db\<close> (its documented behaviour), which gives the contract \<open>kv_store\<close> of \<open>storage/store.go\<close>;
    an ordered association list interprets it. \<open>Config\<close>: defaults, loading, validation, redaction.
    \<open>Scheduler\<close>: schedules, retries, job state; \<open>SchedulerRun\<close>: the goroutines as a step relation.
    \<open>Detection\<close>: rules, correlator, baselines, drift. \<open>Alerting\<close>: engine, channels, delivery.
    \<open>Signatures\<close>: the stored status; \<open>GoPath\<close> and \<open>SigFiles\<close>: paths, archives and their import over a
    log of file system calls; \<open>SigUpdate\<close>: the updater. \<open>ApiServer\<close> and \<open>WebServer\<close>: routes, handlers,
    proxy, and the token checks as the locales \<open>token_guard\<close> and \<open>nested_guards\<close>. \<open>Daemon\<close>: the callback
    every result runs through. \<open>Privileges\<close>: users, groups and ids, the check of the executable.
    \<open>SchedulerReload\<close>: who owns a goroutine, and what replacing the jobs leaves behind.
  \<^item> The whole daemon. \<open>Runner\<close>: its state, start, reload, signals and shutdown as in \<open>daemon/runner.go\<close>.
    \<open>DaemonRun\<close>: everything that runs between signals as a step relation over that state, and the
    invariant of its reachable states. \<open>Reload\<close>: the properties of start and reload. \<open>SchedulerLive\<close>:
    a rank of the goroutines that every turn lowers, and what each of them does while it is not told to end.
    \<open>DaemonLive\<close>: what eventually happens: jobs run again, goroutines come to rest.
  \<^item> The plugins. \<open>SystemPlugins\<close>: \<open>Init\<close> and \<open>Run\<close> of the eight plugins of \<open>plugins/system\<close>, which
    are values of the plugin type of \<open>Scanner\<close>; the machine they look at is a parameter that answers each
    system call from its state. \<open>SystemRun\<close>: what they report, and what the daemon makes of it.
  \<^item> The command line. \<open>GoFlag\<close>: the \<open>flag\<close> package. \<open>Cli\<close>: \<open>main.go\<close> and \<open>cli/client.go\<close>, the
    requests of the commands against the routes of \<open>ApiServer\<close>, and the environment file. \<open>Logging\<close>: the
    entries of the log in both formats.
  \<^item> \<open>Wire\<close>: the browser between client and servers. A client request becomes a request of the servers,
    their response a response of \<open>fetch\<close>; this theory: the properties that span both sides.

  What the lemmas show. Pages: invariants over reachable states (one request of a kind at a time, buttons
  enabled exactly when idle), and when rendering throws. Wire: findings, metrics, documents and their
  declared types cross it intact, who is refused, and that the web client's trigger cannot work.
  Scheduler: at most one execution of a job, the distance of executions, retries and their backoff,
  also where it overflows. Cache, correlator, baselines: each equals a function of the log of its inputs.
  Alerts: an identity passes at most once per window. Store: what iteration visits, what pruning keeps.
  Updater: extracted files stay below their directory, and what the status records. Daemon: in every
  reachable state one validated configuration is in force, no signal panics, the history is that of all
  finished scans; and what a reload keeps, forgets, stops and opens. A job that is not told to end runs
  again, and with the clock standing still all goroutines come to rest within six turns each. Plugins: the
  range of the percentages, the lines of a log that are looked at, the effect of a changed file, which
  configuration of a plugin its runs use. Commands: each reaches the handler it is for. Where the code does
  not do what it means to, the property states what it does, and the manifest lists the finding.

  Bounds and fuel. The redirect limit is 20 as in the Fetch standard; no modelled path redirects twice.
  \<open>json_parse\<close> gets twice the length of the text and one; \<open>parse_fuel\<close> proves that more changes
  nothing. The queue of alerts holds 256 and the cache 50 entries, as in the code. Metrics are exact up to
  two to the power of 53. Go's durations and times are integers of nanoseconds; arithmetic on durations
  wraps at 64 bits.

  Idealisations. Strings are byte strings and character classes are those of ASCII. One callback reads
  the clock once. A callback, a request, \<open>ReplaceJobs\<close> and a reload are one step each. Nil and empty maps are the same value. \<open>StrictMode\<close>, which
  repeats effects in development builds, is left out. Request paths carry no escapes or queries on the
  wire, and header values are not trimmed. A random suffix, the wall clock, the network, the host's date
  formats, clsx, the router, the cron parser and the machine's readings are parameters; the hypotheses on
  them are named where they are used.

  Not modelled. Opening and closing of listeners; when the parts write to the log, but for the lines of
  \<open>daemon/runner.go\<close>; printing, exit codes and the sending of the signal of \<open>-reload\<close>.
  \<open>main.tsx\<close> mounts the client; the bundle under \<open>internal/webui/dist\<close> is built from it. The plugins'
  \<open>Halt\<close> does nothing. The decoder of \<open>encoding/json\<close> for configurations and stored records,
  \<open>strconv.ParseFloat\<close>, \<open>json.Indent\<close>, hashes and the texts of errors are parameters.
\<close>

section \<open>Findings, from the history to the table\<close>

lemma findings_page_history:
  assumes "wired F E A W"
    and "accepts (wu_token W) (token_or_empty ls)" "accepts (ap_token A) (token_or_empty ls)"
    and "list_all (\<lambda>f. time_agrees F H time (fd_occurred f)) (FindingsHistory (ap_cache A))"
  shows "render_findings clsx H (findings_page_load (json_parse msg) (browse N (web_serve W) w) ls)
       = Inr (findings_frame clsx
           (map (finding_row clsx H time) (enumerate 0 (map finding_arrives (FindingsHistory (ap_cache A))))
           @ [when_node (FindingsHistory (ap_cache A) = []) (no_findings_row clsx)]))"
proof -
  let ?fs = "FindingsHistory (ap_cache A)"
  have "web_serve W (http_of (fetch_request ls ''/findings'' None)) w
      = api_handle F E A RFindings (http_of (fetch_request ls ''/findings'' None)) w"
    using assms(2,3) by (intro serve_endpoint [OF assms(1), of "''/findings''"]) (simp_all add: api_paths_def)
  then have "web_serve W (http_of (fetch_request ls ''/findings'' None)) w
      = (writeJSON 200 (Some (JArr (map (finding_doc F) ?fs))), None, w)"
    by (simp add: reply_def handleFindings_def)
  moreover have "whole_doc (JArr (map (finding_doc F) ?fs))" by (simp add: list_all_iff whole_finding_doc)
  ultimately have "api_fetch (json_parse msg) (browse N (web_serve W) w) ls ''/findings'' None
      = Inr (repaired (JArr (map (finding_doc F) ?fs)))"
    by (rule browse_document)
  then have "fs_findings (findings_page_load (json_parse msg) (browse N (web_serve W) w) ls)
      = Some (JArr (map (repaired \<circ> finding_doc F) ?fs))"
    by (simp add: findings_page_load_def getFindings_def findings_settled_def)
  from render_history [OF assms(4) this] show ?thesis .
qed

text \<open>C2 When the browser holds a token both servers accept, the findings page shows the server's history: it
  renders without an error, with one row for each finding of the history, in its order, holding the
  severity in its colour, the category, the scanner, the description (their invalid bytes replaced) and the
  time; the row that says that there is none appears exactly when the history has no finding.\<close>

theorem findings_page_shows_history:
  assumes "wired F E A W"
    and "accepts (wu_token W) (token_or_empty ls)" "accepts (ap_token A) (token_or_empty ls)"
    and "list_all (\<lambda>f. time_agrees F H time (fd_occurred f)) (FindingsHistory (ap_cache A))"
  shows "render_findings clsx H (findings_page_load (json_parse msg) (browse N (web_serve W) w) ls)
       = Inr (findings_frame clsx
           (map (finding_row clsx H time) (enumerate 0 (map finding_arrives (FindingsHistory (ap_cache A))))
           @ [when_node (FindingsHistory (ap_cache A) = []) (no_findings_row clsx)]))"
  by (rule findings_page_history [OF assms])

theorem findings_page_shows_history_witness:
  "render_findings no_clsx plain_host
     (findings_page_load (json_parse id) (browse sample_wire (web_serve sample_web) 0) sample_storage)
   = Inr (findings_frame no_clsx
       (map (finding_row no_clsx plain_host (\<lambda>t. 1)) (enumerate 0 (map finding_arrives (FindingsHistory (ap_cache sample_api))))
         @ [when_node (FindingsHistory (ap_cache sample_api) = []) (no_findings_row no_clsx)]))"
proof (rule findings_page_shows_history [OF sample_wired])
  show "list_all (\<lambda>f. time_agrees sample_formats plain_host (\<lambda>t. 1) (fd_occurred f)) (FindingsHistory (ap_cache sample_api))"
    by (simp add: list_all_iff time_agrees_def sample_formats_def plain_host_def valid_utf8_ascii)
qed (simp_all add: accepts_def)

definition findings_of :: "scan_result list \<Rightarrow> finding_summary list" where
  "findings_of fulls = concat (map (\<lambda>res. map (finding_summary_of res) (r_findings res)) (last_n 50 fulls))"



text \<open>C18 The documents the client receives have the types its code declares for them: whatever resolves a call of
  the findings is an array of \<open>Finding\<close>, whatever resolves a call of the signature status is a
  \<open>SignatureStatus\<close>. The system status is no \<open>SystemStatus\<close>: the server sends all of its fields but
  \<open>version\<close>.\<close>

theorem documents_have_declared_types:
  assumes "wired F E A W" "c \<noteq> TypedBaselines"
    and "api_fetch (json_parse msg) (browse N (web_serve W) w) ls (call_path c) None = Inr j"
  shows "(has_type (call_type c) j \<longleftrightarrow> c \<noteq> TypedStatus) \<and>
    has_type (if c = TypedStatus then TsInterface [must ''status'' TsString, must ''running_as_root'' TsBoolean]
              else call_type c) j"
proof -
  have p: "(call_path c, call_route c) \<in> set api_paths" "call_route c \<noteq> RTrigger"
    by (cases c; simp add: api_paths_def)+
  note answered = fetch_answered [OF assms(3,1) p]
  show ?thesis
  proof (cases c)
    case TypedStatus
    then have "j = repaired (JObj [(''running_as_root'', JBool (ap_euid0 A)), (''status'', JStr ''running'')])"
      using answered [of 200] by (simp add: reply_def)
    with TypedStatus show ?thesis by (simp add: SystemStatus_type_def obj_get_def)
  next
    case TypedFindings
    then have "j = repaired (JArr (map (finding_doc F) (FindingsHistory (ap_cache A))))"
      using answered [of 200] by (simp add: reply_def handleFindings_def list_all_iff whole_finding_doc)
    with TypedFindings show ?thesis by (simp add: list_all_iff typed_finding_doc)
  next
    case TypedSignatures
    show ?thesis
    proof (cases "ap_signatures A")
      case None
      then have "j = JObj []"
        using answered [of 200] TypedSignatures by (simp add: reply_def handleSignaturesStatus_def)
      with TypedSignatures show ?thesis by (simp add: SignatureStatus_type_def obj_get_def)
    next
      case (Some r)
      show ?thesis
      proof (cases r)
        case (Inl e)
        then show ?thesis
          using answered [of 500 "Some (error_doc (fo_store_error F e))"] TypedSignatures Some
          by (simp add: reply_def handleSignaturesStatus_def)
      next
        case (Inr st)
        then have "j = repaired (sig_doc F st)"
          using answered [of 200] TypedSignatures Some
          by (simp add: reply_def handleSignaturesStatus_def whole_sig_doc)
        with TypedSignatures show ?thesis by (simp add: typed_sig_doc)
      qed
    qed
  qed (use assms(2) in simp)
qed

theorem documents_have_declared_types_witness:
  "(has_type (call_type TypedStatus) (JObj [(''running_as_root'', JBool False), (''status'', JStr ''running'')])
      \<longleftrightarrow> TypedStatus \<noteq> TypedStatus) \<and>
    has_type (if TypedStatus = TypedStatus then TsInterface [must ''status'' TsString, must ''running_as_root'' TsBoolean]
              else call_type TypedStatus) (JObj [(''running_as_root'', JBool False), (''status'', JStr ''running'')])"
proof (rule documents_have_declared_types [OF sample_wired, of _ id sample_wire 0 sample_storage])
  have "web_serve sample_web (http_of (fetch_request sample_storage ''/status'' None)) 0
      = api_handle sample_formats sample_env sample_api RStatus (http_of (fetch_request sample_storage ''/status'' None)) 0"
    by (rule serve_endpoint [OF sample_wired, of "''/status''"]) (simp_all add: api_paths_def accepts_def)
  then have "web_serve sample_web (http_of (fetch_request sample_storage ''/status'' None)) 0 = (writeJSON 200
      (Some (JObj [(''running_as_root'', JBool False), (''status'', JStr ''running'')])), None, 0)"
    by (simp add: reply_def sample_api_def)
  from browse_document [where serve = "web_serve sample_web", OF this]
  show "api_fetch (json_parse id) (browse sample_wire (web_serve sample_web) 0) sample_storage (call_path TypedStatus) None
      = Inr (JObj [(''running_as_root'', JBool False), (''status'', JStr ''running'')])" by simp
qed simp

section \<open>Metrics, from the server's counters to the dashboard\<close>

text \<open>C8 The metrics text survives the wire: with an accepted token the dashboard's parser returns exactly the
  gauges the server counted, each with its exact value, as long as none exceeds two to the power of 53.\<close>

theorem metrics_reach_dashboard:
  assumes "wired F E A W"
    and "accepts (wu_token W) (token_or_empty ls)" "accepts (ap_token A) (token_or_empty ls)"
    and "list_all (\<lambda>(n, i). \<bar>i\<bar> \<le> 2 ^ 53) (metric_gauges A)"
  shows "getMetrics (browse N (web_serve W) w) ls
       = Inr (map_of (map (\<lambda>(n, i). (n, Fin (of_int i))) (metric_gauges A)))"
  by (rule server_gauges_arrive [OF assms])

theorem metrics_reach_dashboard_witness:
  "getMetrics (browse sample_wire (web_serve sample_web) 0) sample_storage
     = Inr (map_of (map (\<lambda>(n, i). (n, Fin (of_int i))) (metric_gauges sample_api)))"
  by (rule metrics_reach_dashboard [OF sample_wired _ _ sample_gauges]) (simp_all add: accepts_def)

text \<open>C19 The two places of the dashboard that count signature sources agree: what the page counts in the status
  document is what the server's gauges say, for every stored status with distinct valid ids. The status
  call also clears the error and the loading flag.\<close>

theorem dashboard_counts_agree:
  assumes "wired F E A W"
    and "accepts (wu_token W) (token_or_empty ls)" "accepts (ap_token A) (token_or_empty ls)"
    and "ap_signatures A = Some (Inr st)" "keys_distinct (sig_sources st)" "utf8_keys (sig_sources st)"
    and "list_all (\<lambda>(n, i). \<bar>i\<bar> \<le> 2 ^ 53) (metric_gauges A)"
  shows "\<exists>m ok. getMetrics (browse N (web_serve W) w) ls = Inr m
    \<and> ok_sources (dash_browse msg N (web_serve W) w ls CallSignatures s) = Inr ok
    \<and> m ''arcsent_signatures_sources_total''
        = Some (Fin (of_int (int (total_sources (dash_browse msg N (web_serve W) w ls CallSignatures s)))))
    \<and> m ''arcsent_signatures_sources_ok_total'' = Some (Fin (of_int ok))
    \<and> db_sig_error (dash_browse msg N (web_serve W) w ls CallSignatures s) = []
    \<and> \<not> db_sig_loading (dash_browse msg N (web_serve W) w ls CallSignatures s)"
proof -
  let ?s = "dash_browse msg N (web_serve W) w ls CallSignatures s"
  let ?m = "map_of (map (\<lambda>(n, i). (n, Fin (of_int i))) (metric_gauges A))"
  note s = dash_browse_signatures(1) [OF assms(1-4), of msg N w s]
  have "db_signatures ?s = Some (repaired (sig_doc F st))" by (simp add: s)
  note counts = source_counts [OF assms(5,6) this]
  have "getMetrics (browse N (web_serve W) w) ls = Inr ?m"
    by (rule server_gauges_arrive [OF assms(1-3,7)])
  moreover have "?m ''arcsent_signatures_sources_total'' = Some (Fin (of_int (int (length (sig_sources st)))))"
    "?m ''arcsent_signatures_sources_ok_total''
       = Some (Fin (of_int (int (length (filter (\<lambda>(k, src). ss_error src = []) (sig_sources st))))))"
    by (simp_all add: metric_gauges_def assms(4))
  ultimately show ?thesis using counts by (simp add: s)
qed

theorem dashboard_counts_agree_witness:
  "\<exists>m ok. getMetrics (browse sample_wire (web_serve sample_web) 0) sample_storage = Inr m
    \<and> ok_sources (dash_browse id sample_wire (web_serve sample_web) 0 sample_storage CallSignatures dash_mounted) = Inr ok
    \<and> m ''arcsent_signatures_sources_total''
        = Some (Fin (of_int (int (total_sources (dash_browse id sample_wire (web_serve sample_web) 0 sample_storage CallSignatures dash_mounted)))))
    \<and> m ''arcsent_signatures_sources_ok_total'' = Some (Fin (of_int ok))
    \<and> db_sig_error (dash_browse id sample_wire (web_serve sample_web) 0 sample_storage CallSignatures dash_mounted) = []
    \<and> \<not> db_sig_loading (dash_browse id sample_wire (web_serve sample_web) 0 sample_storage CallSignatures dash_mounted)"
  by (rule dashboard_counts_agree [OF sample_wired _ _ _ _ _ sample_gauges, of _ sample_status])
     (simp_all add: accepts_def sample_api_def sample_status_def valid_utf8_ascii)

text \<open>C24 The default configuration names the source \<open>osv\<close> but gives it no address. With the updates switched on, an
  update asked for on the dashboard therefore never succeeds for all sources: whatever the network and the
  file system do, the page counts five sources and at most four that are in order.\<close>

theorem default_update_never_all_ok:
  assumes "wired F E A W"
    and "accepts (wu_token W) (token_or_empty ls)" "accepts (ap_token A) (token_or_empty ls)"
    and "ap_update A = Some (fst (Trigger S net store default_updater cs d))"
  shows "total_sources (dash_browse msg N (web_serve W) w ls CallUpdate s) = 5
    \<and> (\<exists>ok. ok_sources (dash_browse msg N (web_serve W) w ls CallUpdate s) = Inr ok \<and> ok \<le> 4)"
proof -
  let ?st = "fst (runOnce S net store default_updater cs d)"
  note run = default_run [of S net store cs d]
  have "ap_update A = Some (Inr ?st)"
    by (simp add: assms(4) Trigger_def default_updater_simps split: prod.split)
  note s = dash_browse_signatures(2) [OF assms(1-3) this, of msg N w s]
  have "utf8_keys (sig_sources ?st)"
  proof -
    have "\<forall>k \<in> fst ` set (sig_sources ?st). valid_utf8 k" unfolding run(2) by (simp add: DefaultSources_def valid_utf8_ascii)
    then show ?thesis by (simp add: list_all_iff)
  qed
  from source_counts [OF run(1) this, of _ F] run(3,4) show ?thesis by (simp add: s)
qed

theorem default_update_never_all_ok_witness:
  "total_sources (dash_browse id sample_wire (web_serve (sample_web\<lparr>wu_backend := Some (api_serve sample_formats sample_env
        (sample_api\<lparr>ap_update := Some (fst (Trigger sample_os sample_net (Some (badger_store mem_badger, status_codec))
           default_updater [] []))\<rparr>))\<rparr>)) 0 sample_storage CallUpdate dash_mounted) = 5
    \<and> (\<exists>ok. ok_sources (dash_browse id sample_wire (web_serve (sample_web\<lparr>wu_backend := Some (api_serve sample_formats sample_env
        (sample_api\<lparr>ap_update := Some (fst (Trigger sample_os sample_net (Some (badger_store mem_badger, status_codec))
           default_updater [] []))\<rparr>))\<rparr>)) 0 sample_storage CallUpdate dash_mounted) = Inr ok \<and> ok \<le> 4)"
proof (rule default_update_never_all_ok)
  let ?A = "sample_api\<lparr>ap_update := Some (fst (Trigger sample_os sample_net (Some (badger_store mem_badger, status_codec)) default_updater [] []))\<rparr>"
  show "wired sample_formats sample_env ?A (sample_web\<lparr>wu_backend := Some (api_serve sample_formats sample_env ?A)\<rparr>)"
    by (simp add: wired_def sample_web_def)
  show "ap_update ?A = Some (fst (Trigger sample_os sample_net (Some (badger_store mem_badger, status_codec)) default_updater [] []))"
    by simp
qed (simp_all add: accepts_def)

section \<open>Scanners, from the registry to the buttons\<close>

text \<open>After its list has loaded, the scanners page has an enabled trigger button for exactly the plugins the daemon
  registered under a name, their names as they arrive; before, it has none.\<close>

theorem scanners_page_offers_plugins:
  assumes "wired F E A W"
    and "accepts (wu_token W) (token_or_empty ls)" "accepts (ap_token A) (token_or_empty ls)"
    and "ap_mgr A = register_plugins ps" "mset (ap_plugin_order A (ap_mgr A)) = mset (ap_mgr A)"
  shows "clickable H clsx (scanners_settled scanners_init
      (api_fetch (json_parse msg) (browse N (web_serve W) w) ls (fst getScanners) (snd getScanners))) k
    \<longleftrightarrow> k \<in> repair ` {n \<in> pl_name ` set ps. n \<noteq> []}"
proof -
  let ?names = "manager_list (ap_plugin_order A) (ap_mgr A)"
  let ?r = "http_of (fetch_request ls ''/scanners'' None)"
  obtain doc where doc: "handleScanners F A = writeJSON 200 (Some doc)" "whole_doc doc"
    "js_prop (Some (repaired doc)) ''plugins'' = Inr (Some (JArr (map (\<lambda>n. JStr (repair n)) ?names)))"
    using handleScanners_doc [of F A] by blast
  have "web_serve W ?r w = api_handle F E A RScanners ?r w"
    using assms(2,3) by (intro serve_endpoint [OF assms(1), of "''/scanners''"]) (simp_all add: api_paths_def)
  then have "web_serve W ?r w = (writeJSON 200 (Some doc), None, w)" by (simp add: reply_def doc(1))
  from browse_document [where serve = "web_serve W", OF this doc(2)]
  have "sc_scanners (scanners_settled scanners_init
      (api_fetch (json_parse msg) (browse N (web_serve W) w) ls (fst getScanners) (snd getScanners)))
      = Some (JArr (map (\<lambda>n. JStr (repair n)) ?names))"
    by (simp add: getScanners_def scanners_settled_def doc(3) js_or_def)
  moreover have "set ?names = {n \<in> pl_name ` set ps. n \<noteq> []}"
    using manager_list_set(1) [where order = "ap_plugin_order A", OF assms(5)] assms(4) by (simp add: dom_register_plugins)
  moreover have "loading_of (scanners_settled scanners_init r) k \<noteq> Some True" for r
    by (simp add: run_simps) (simp add: loading_of_def scanners_init_def)
  ultimately show ?thesis
    by (auto simp: clickable_iff plugin_key_def image_image)
qed

theorem scanners_page_offers_plugins_witness:
  "clickable plain_host no_clsx (scanners_settled scanners_init
      (api_fetch (json_parse id) (browse sample_wire (web_serve sample_web) 0) sample_storage (fst getScanners) (snd getScanners))) ''p''
    \<longleftrightarrow> ''p'' \<in> repair ` {n \<in> pl_name ` set [sample_plugin]. n \<noteq> []}"
  by (rule scanners_page_offers_plugins [OF sample_wired]) (simp_all add: accepts_def sample_api_def)

section \<open>Access\<close>

text \<open>C11 A request of the client for a fixed path of the API is answered by its handler when both servers
  accept the stored token; otherwise the call rejects with \<open>Unauthorized\<close> and nothing has changed.\<close>

theorem client_reaches_handler_iff:
  assumes "wired F E A W" "(p, route) \<in> set api_paths" "route \<noteq> RTrigger"
    and "map_of (init_headers opts) ''Authorization'' = None"
  shows "if accepts (wu_token W) (token_or_empty ls) \<and> accepts (ap_token A) (token_or_empty ls)
    then web_serve W (http_of (fetch_request ls p opts)) w = api_handle F E A route (http_of (fetch_request ls p opts)) w
    else api_fetch parse (browse N (web_serve W) w) ls p opts = Inl ''Unauthorized''
      \<and> snd (web_serve W (http_of (fetch_request ls p opts)) w) = (None, w)"
proof (cases "accepts (wu_token W) (token_or_empty ls) \<and> accepts (ap_token A) (token_or_empty ls)")
  case True
  then show ?thesis
    using serve_endpoint [OF assms(1-3), of "http_of (fetch_request ls p opts)" w] by (simp add: assms(4))
next
  case False
  then have s: "web_serve W (http_of (fetch_request ls p opts)) w = (plain_response 401, None, w)"
    using assms(4) by (intro serve_endpoint_refused [OF assms(1-3)]) simp_all
  from browse_final [where serve = "web_serve W" and r = "fetch_request ls p opts" and N = N, OF this]
  have "api_fetch parse (browse N (web_serve W) w) ls p opts = Inl ''Unauthorized''"
    by (simp add: api_fetch_def plain_response_def response_of_def resp_ok_def failure_of_def)
  then show ?thesis unfolding if_not_P [OF False] using s by simp
qed

theorem client_reaches_handler_iff_witness:
  "if accepts (wu_token sample_web) (token_or_empty Map.empty) \<and> accepts (ap_token sample_api) (token_or_empty Map.empty)
    then web_serve sample_web (http_of (fetch_request Map.empty ''/status'' None)) 0
       = api_handle sample_formats sample_env sample_api RStatus (http_of (fetch_request Map.empty ''/status'' None)) 0
    else api_fetch (\<lambda>s. Inl s) (browse sample_wire (web_serve sample_web) 0) Map.empty ''/status'' None = Inl ''Unauthorized''
      \<and> snd (web_serve sample_web (http_of (fetch_request Map.empty ''/status'' None)) 0) = (None, 0)"
  by (rule client_reaches_handler_iff [OF sample_wired]) (simp_all add: api_paths_def)

text \<open>The proxy forwards the browser's token as it is, so when the two servers are configured with
  different tokens no token whatever gets the client past both: every call of a fixed path rejects.\<close>

theorem different_tokens_lock_out:
  assumes "wired F E A W" "wu_token W \<noteq> []" "ap_token A \<noteq> []" "wu_token W \<noteq> ap_token A"
    and "(p, route) \<in> set api_paths" "route \<noteq> RTrigger"
  shows "api_fetch parse (browse N (web_serve W) w) (setToken ls t) p None = Inl ''Unauthorized''"
proof -
  let ?r = "fetch_request (setToken ls t) p None"
  have "web_serve W (http_of ?r) w = (plain_response 401, None, w)"
    using both_guards.locked_out [OF assms(2-4)] by (subst serve_fixed_endpoint [OF assms(1,5,6)]) simp_all
  from browse_final [where serve = "web_serve W" and r = ?r and N = N, OF this] show ?thesis
    by (simp add: api_fetch_def plain_response_def response_of_def resp_ok_def failure_of_def)
qed

theorem different_tokens_lock_out_witness:
  "api_fetch (\<lambda>s. Inl s) (browse sample_wire (web_serve (sample_web\<lparr>wu_token := ''u''\<rparr>)) 0) (setToken Map.empty ''t'')
     ''/status'' None = Inl ''Unauthorized''"
proof (rule different_tokens_lock_out)
  show "wired sample_formats sample_env sample_api (sample_web\<lparr>wu_token := ''u''\<rparr>)"
    by (simp add: wired_def sample_web_def)
  show "(''/status'', RStatus) \<in> set api_paths" by (simp add: api_paths_def)
qed simp_all

text \<open>C12 A configuration that loads and enables the API sets a token for it, and a request that does not
  present this token gets no body from the API's handlers and changes nothing, whatever its path,
  method and query.\<close>

theorem loaded_config_protects_api:
  assumes "Load read unmarshal env order euid0 path = Inr c" "ec_enabled (c_api c)"
    and "ap_token A = ec_auth_token (c_api c)" "request_token r \<noteq> ec_auth_token (c_api c)"
  shows "ec_auth_token (c_api c) \<noteq> []
    \<and> hs_status (fst (api_serve F E A r w)) \<in> {401, 404, 301}
    \<and> hs_body (fst (api_serve F E A r w)) = NoBody \<and> snd (api_serve F E A r w) = (None, w)"
proof -
  have "Validate order euid0 c = []"
    using assms(1) by (auto simp: Load_def Let_def split: sum.splits if_splits)
  then have "ec_auth_token (c_api c) \<noteq> []"
    using Validate_parts(5) assms(2) validate_endpoint_ok by blast
  moreover from this have "\<not> authorized (ap_token A) r" using assms(3,4) by (simp add: authorized_def)
  ultimately show ?thesis using api_serve_refused [of A r F E w] by simp
qed

definition sample_config :: config where
  "sample_config = Default\<lparr>c_api := (c_api Default)\<lparr>ec_enabled := True, ec_auth_token := ''t''\<rparr>,
     c_webui := (c_webui Default)\<lparr>ec_enabled := False\<rparr>\<rparr>"

theorem loaded_config_protects_api_witness:
  "ec_auth_token (c_api sample_config) \<noteq> []
    \<and> hs_status (fst (api_serve sample_formats sample_env sample_api (http_of (fetch_request Map.empty ''/status'' None)) 0))
        \<in> {401, 404, 301}
    \<and> hs_body (fst (api_serve sample_formats sample_env sample_api (http_of (fetch_request Map.empty ''/status'' None)) 0)) = NoBody
    \<and> snd (api_serve sample_formats sample_env sample_api (http_of (fetch_request Map.empty ''/status'' None)) 0) = (None, 0)"
proof (rule loaded_config_protects_api)
  have "Validate id True sample_config = []"
    unfolding sample_config_def Validate_Default_endpoints by (simp add: validate_endpoint_def Default_def)
  then show "Load (\<lambda>p. Inr ()) (\<lambda>b c. Inr sample_config) Map.empty id True [] = Inr sample_config"
    by (simp add: Load_def applyEnvOverrides_def env_bool_def env_token_def)
qed (simp_all add: sample_config_def token_or_empty_def getToken_def)

section \<open>The manual trigger\<close>

text \<open>C3 The web client cannot trigger a scan: for any plugin name without a slash, the proxied request runs
  nothing and the call rejects, because the handler cuts only the unprefixed path and looks for a plugin
  named after the whole one. The same request sent to the API's own path runs that plugin.\<close>

theorem web_trigger_always_fails:
  assumes "wired F E A W" "plain_segment name" "list_all (\<lambda>(n, p). \<not> has_prefix n ''/'') (ap_mgr A)"
    and "accepts (wu_token W) (token_or_empty ls)" "accepts (ap_token A) (token_or_empty ls)"
  shows "api_fetch parse (browse N (web_serve W) w) ls (fst (triggerScan name)) (snd (triggerScan name))
           = Inl (''Request failed: '' @ wi_reason N 400)
    \<and> snd (web_serve W (http_of (endpoint_request ls (triggerScan name))) w) = (None, w)
    \<and> snd (api_serve F E A ((http_of (endpoint_request ls (triggerScan name)))
          \<lparr>hq_path := ''/scanners/trigger/'' @ name\<rparr>) w)
        = snd (RunOnce E (ap_mgr A) name 0 w)"
proof -
  let ?q = "endpoint_request ls (triggerScan name)"
  let ?h = "writeJSON 400 (Some (error_doc (fo_error F (LookupFailed (PluginNotFound (''/api/scanners/trigger/'' @ name))))))"
  have p: "hq_path (http_of ?q) = ''/api/scanners/trigger/'' @ name" and t: "request_token (http_of ?q) = token_or_empty ls"
    by (simp_all add: triggerScan_def endpoint_request_def)
  have s: "web_serve W (http_of ?q) w = (?h, None, w)"
    using trigger_through_web [OF assms(1-3) p] t assms(4,5) by simp
  have "browse N (web_serve W) w ?q = NetResponse (response_of N ?h)"
    by (rule browse_final [where serve = "web_serve W" and r = ?q, OF s]) (simp add: writeJSON_def)
  then have "api_fetch parse (browse N (web_serve W) w) ls (fst (triggerScan name)) (snd (triggerScan name))
      = Inl (''Request failed: '' @ wi_reason N 400)"
    by (simp add: api_fetch_def endpoint_request_def writeJSON_def response_of_def resp_ok_def failure_of_def)
  moreover have "snd (api_serve F E A ((http_of ?q)\<lparr>hq_path := ''/scanners/trigger/'' @ name\<rparr>) w)
      = snd (RunOnce E (ap_mgr A) name 0 w)"
  proof -
    let ?d = "(http_of ?q)\<lparr>hq_path := ''/scanners/trigger/'' @ name\<rparr>"
    have td: "request_token ?d = token_or_empty ls" using t by (simp add: request_token_path)
    have "api_serve F E A ?d w = handleTrigger F E A ?d w"
      using serve_trigger(1) [OF assms(2)] assms(5) td api_serve_route [of ?d RTrigger A F E w]
      by (simp add: authorized_accepts)
    moreover have "name \<noteq> []" using assms(2) by (simp add: plain_segment_def)
    moreover obtain res err out w' where "RunOnce E (ap_mgr A) name 0 w = ((res, err), out, w')"
      by (metis prod.collapse)
    ultimately show ?thesis using trim_trigger(1) [of name]
      by (cases res; cases err) (simp_all add: handleTrigger_def)
  qed
  ultimately show ?thesis using s by simp
qed

theorem web_trigger_always_fails_witness:
  "api_fetch (\<lambda>s. Inl s) (browse sample_wire (web_serve sample_web) 7) sample_storage (fst (triggerScan ''p'')) (snd (triggerScan ''p''))
           = Inl (''Request failed: '' @ wi_reason sample_wire 400)
    \<and> snd (web_serve sample_web (http_of (endpoint_request sample_storage (triggerScan ''p''))) 7) = (None, 7)
    \<and> snd (api_serve sample_formats sample_env sample_api ((http_of (endpoint_request sample_storage (triggerScan ''p'')))
          \<lparr>hq_path := ''/scanners/trigger/'' @ ''p''\<rparr>) 7)
        = snd (RunOnce sample_env (ap_mgr sample_api) ''p'' 0 7)"
proof (rule web_trigger_always_fails [OF sample_wired])
  show "list_all (\<lambda>(n, p). \<not> has_prefix n ''/'') (ap_mgr sample_api)"
    by (simp add: sample_api_def register_plugins_def NewManager_def manager_register_def sample_plugin_def has_prefix_def Let_def)
qed (simp_all add: plain_segment_def accepts_def)

end
